(* ===== verification/Prelude.thy ===== *)
theory Prelude
  imports Main "HOL-Library.Word" "HOL-Library.Sublist" "HOL-Library.Monad_Syntax"
begin

text \<open>
  The vocabulary the component theories share: collections of simplification rules, the text
  operations of the C++ standard library that the sources use (decimal output of an integer,
  \<open>strstr\<close>, padding, joining), and the result type of fallible operations.
  Text is \<open>string\<close>, a list of bytes, as \<open>std::string\<close> is.
\<close>

section \<open>Collections of facts\<close>

named_theorems rang_defs \<open>the operations of rang/rang.hpp\<close>
named_theorems log_defs \<open>the operations of asio/learn_asio/log.hpp\<close>
named_theorems result_simps \<open>evaluation of fallible operations\<close>

section \<open>Fallible operations\<close>

text \<open>
  An operation that reads and writes a world \<open>'w\<close> and either fails with an error \<open>'e\<close> or
  returns a value. The world is returned in both cases: an early return keeps the effects
  that came before it.
\<close>

type_synonym ('w, 'e, 'a) action = "'w \<Rightarrow> ('e + 'a) \<times> 'w"

definition ret :: "'a \<Rightarrow> ('w, 'e, 'a) action" where
  "ret x w = (Inr x, w)"

definition raise :: "'e \<Rightarrow> ('w, 'e, 'a) action" where
  "raise e w = (Inl e, w)"

definition seq :: "('w, 'e, 'a) action \<Rightarrow> ('a \<Rightarrow> ('w, 'e, 'b) action) \<Rightarrow> ('w, 'e, 'b) action" where
  "seq m k w = (case m w of (Inl e, w') \<Rightarrow> (Inl e, w') | (Inr x, w') \<Rightarrow> k x w')"

definition modify :: "('w \<Rightarrow> 'w) \<Rightarrow> ('w, 'e, unit) action" where
  "modify f w = (Inr (), f w)"

definition gets :: "('w \<Rightarrow> 'a) \<Rightarrow> ('w, 'e, 'a) action" where
  "gets f w = (Inr (f w), w)"

fun each :: "('a \<Rightarrow> ('w, 'e, unit) action) \<Rightarrow> 'a list \<Rightarrow> ('w, 'e, unit) action" where
  "each f [] = ret ()"
| "each f (x # xs) = seq (f x) (\<lambda>_. each f xs)"

lemma ret_run [simp, result_simps]: "ret x w = (Inr x, w)"
  by (simp add: ret_def)

lemma raise_run [simp, result_simps]: "raise e w = (Inl e, w)"
  by (simp add: raise_def)

lemma modify_run [simp, result_simps]: "modify f w = (Inr (), f w)"
  by (simp add: modify_def)

lemma gets_run [simp, result_simps]: "gets f w = (Inr (f w), w)"
  by (simp add: gets_def)

lemma seq_ok [simp, result_simps]: "m w = (Inr x, w') \<Longrightarrow> seq m k w = k x w'"
  by (simp add: seq_def)

lemma seq_fail [simp, result_simps]: "m w = (Inl e, w') \<Longrightarrow> seq m k w = (Inl e, w')"
  by (simp add: seq_def)

lemma seq_cases:
  "seq m k w = r \<longleftrightarrow>
     (\<exists>e w'. m w = (Inl e, w') \<and> r = (Inl e, w')) \<or> (\<exists>x w'. m w = (Inr x, w') \<and> k x w' = r)"
  by (cases "m w" rule: prod.exhaust) (auto simp: seq_def split: sum.splits)

lemma seq_InrE:
  assumes "seq m k w = (Inr y, w2)"
  obtains x w1 where "m w = (Inr x, w1)" "k x w1 = (Inr y, w2)"
  using assms by (auto simp: seq_def split: prod.splits sum.splits)

lemma seq_ret: "seq (ret x) k = k x"
  by (rule ext) (simp add: seq_def)

lemma seq_raise: "seq (raise e) k = raise e"
  by (rule ext) (simp add: seq_def)

lemma seq_modify: "seq (modify f) k w = k () (f w)"
  by (simp add: seq_def)

lemma seq_assoc: "seq (seq m f) g = seq m (\<lambda>x. seq (f x) g)"
  by (rule ext) (simp add: seq_def split: prod.splits sum.splits)

section \<open>Triples\<close>

text \<open>
  \<open>hoare P m Q E\<close>: started in a world that satisfies \<open>P\<close>, \<open>m\<close> ends with a result and world that
  satisfy \<open>Q\<close>, or with an error and world that satisfy \<open>E\<close>.
\<close>

named_theorems hoare_intros \<open>triples of operations, for (intro hoare_intros)\<close>

definition hoare :: "('w \<Rightarrow> bool) \<Rightarrow> ('w, 'e, 'a) action \<Rightarrow> ('a \<Rightarrow> 'w \<Rightarrow> bool) \<Rightarrow> ('e \<Rightarrow> 'w \<Rightarrow> bool) \<Rightarrow> bool" where
  "hoare P m Q E \<longleftrightarrow>
     (\<forall>w. P w \<longrightarrow> (case fst (m w) of Inr x \<Rightarrow> Q x (snd (m w)) | Inl e \<Rightarrow> E e (snd (m w))))"

lemma hoareI:
  assumes "\<And>w x w'. P w \<Longrightarrow> m w = (Inr x, w') \<Longrightarrow> Q x w'" "\<And>w e w'. P w \<Longrightarrow> m w = (Inl e, w') \<Longrightarrow> E e w'"
  shows "hoare P m Q E"
  unfolding hoare_def
proof (intro allI impI)
  fix w assume "P w"
  then show "case fst (m w) of Inr x \<Rightarrow> Q x (snd (m w)) | Inl e \<Rightarrow> E e (snd (m w))"
    using assms [of w] by (cases "m w"; cases "fst (m w)") simp_all
qed

lemma hoare_okD: "hoare P m Q E \<Longrightarrow> P w \<Longrightarrow> m w = (Inr x, w') \<Longrightarrow> Q x w'"
  by (auto simp: hoare_def)

lemma hoare_errorD: "hoare P m Q E \<Longrightarrow> P w \<Longrightarrow> m w = (Inl e, w') \<Longrightarrow> E e w'"
  by (auto simp: hoare_def)

lemma hoare_seq [hoare_intros]:
  assumes "hoare P m R E" "\<And>x. hoare (R x) (k x) Q E"
  shows "hoare P (seq m k) Q E"
proof (rule hoareI)
  fix w x w' assume "P w" "seq m k w = (Inr x, w')"
  then show "Q x w'"
    using assms by (auto elim!: seq_InrE dest: hoare_okD)
next
  fix w e w' assume P: "P w" and r: "seq m k w = (Inl e, w')"
  show "E e w'"
    using r hoare_errorD [OF assms(1) P] hoare_okD [OF assms(1) P] assms(2)
    by (fastforce simp: seq_cases dest: hoare_errorD)
qed

lemma hoare_seq_invariant:
  "hoare I m (\<lambda>_. I) E \<Longrightarrow> (\<And>x. hoare I (k x) (\<lambda>_. I) E) \<Longrightarrow> hoare I (seq m k) (\<lambda>_. I) E"
  by (rule hoare_seq)

lemma hoare_weaken:
  assumes "hoare P' m Q' E'" "\<And>w. P w \<Longrightarrow> P' w" "\<And>x w. Q' x w \<Longrightarrow> Q x w" "\<And>e w. E' e w \<Longrightarrow> E e w"
  shows "hoare P m Q E"
  by (rule hoareI) (use assms in \<open>blast dest: hoare_okD hoare_errorD\<close>)+

lemma hoare_ret [hoare_intros]: "hoare (Q x) (ret x) Q E"
  by (simp add: hoare_def)

lemma hoare_raise [hoare_intros]: "hoare (E e) (raise e) Q E"
  by (simp add: hoare_def)

section \<open>Text\<close>

subsection \<open>Decimal output\<close>

definition digit_char :: "nat \<Rightarrow> char" where
  "digit_char d = char_of (48 + d)"

definition is_digit :: "char \<Rightarrow> bool" where
  "is_digit c \<longleftrightarrow> 48 \<le> (of_char c :: nat) \<and> (of_char c :: nat) \<le> 57"

definition digit_val :: "char \<Rightarrow> nat" where
  "digit_val c = of_char c - 48"

text \<open>What \<open>os << n\<close> and \<open>std::format("{}", n)\<close> write for an integer \<open>n\<close>.\<close>

fun dec_nat :: "nat \<Rightarrow> string" where
  "dec_nat n = (if n < 10 then [digit_char n] else dec_nat (n div 10) @ [digit_char (n mod 10)])"

declare dec_nat.simps [simp del]

definition dec_int :: "int \<Rightarrow> string" where
  "dec_int i = (if i < 0 then CHR ''-'' # dec_nat (nat (- i)) else dec_nat (nat i))"

definition nat_of_dec :: "string \<Rightarrow> nat" where
  "nat_of_dec = foldl (\<lambda>a c. 10 * a + digit_val c) 0"

lemma digit_char_numerals [simp]:
  "digit_char 0 = CHR ''0''" "digit_char (Suc 0) = CHR ''1''" "digit_char 2 = CHR ''2''"
  "digit_char 3 = CHR ''3''" "digit_char 4 = CHR ''4''" "digit_char 5 = CHR ''5''"
  "digit_char 6 = CHR ''6''" "digit_char 7 = CHR ''7''" "digit_char 8 = CHR ''8''"
  "digit_char 9 = CHR ''9''"
  by (simp_all add: digit_char_def char_of_def bit_0)

lemma digit_char_val: "d < 10 \<Longrightarrow> digit_val (digit_char d) = d"
  by (simp add: digit_val_def digit_char_def of_char_of)

lemma digit_char_digit: "d < 10 \<Longrightarrow> is_digit (digit_char d)"
  by (simp add: is_digit_def digit_char_def of_char_of)

lemma dec_nat_digits: "c \<in> set (dec_nat n) \<Longrightarrow> is_digit c"
proof (induction n rule: dec_nat.induct)
  case (1 n)
  then show ?case
    by (cases "n < 10") (auto simp: dec_nat.simps [of n] digit_char_digit)
qed

lemma dec_nat_not_Nil [simp]: "dec_nat n \<noteq> []"
  by (simp add: dec_nat.simps [of n])

lemma nat_of_dec_dec_nat [simp]: "nat_of_dec (dec_nat n) = n"
proof (induction n rule: dec_nat.induct)
  case (1 n)
  then show ?case
    by (cases "n < 10") (auto simp: dec_nat.simps [of n] nat_of_dec_def digit_char_val)
qed

lemma dec_nat_inj: "dec_nat m = dec_nat n \<longleftrightarrow> m = n"
  by (metis nat_of_dec_dec_nat)

lemma takeWhile_dec_nat:
  "\<not> is_digit c \<Longrightarrow> takeWhile is_digit (dec_nat n @ c # r) = dec_nat n"
  by (simp add: takeWhile_append2 dec_nat_digits)

lemma dropWhile_dec_nat:
  "\<not> is_digit c \<Longrightarrow> dropWhile is_digit (dec_nat n @ c # r) = c # r"
  by (simp add: dropWhile_append2 dec_nat_digits)

subsection \<open>Searching\<close>

text \<open>
  \<open>std::strstr\<close> and \<open>std::string::find\<close>: the position of the first occurrence of the
  second text in the first, if there is one. (\<open>strstr\<close> returns a pointer, null for none.)
\<close>

fun find_sub :: "'a list \<Rightarrow> 'a list \<Rightarrow> nat option" where
  "find_sub h n =
     (if prefix n h then Some 0
      else (case h of [] \<Rightarrow> None | _ # h' \<Rightarrow> map_option Suc (find_sub h' n)))"

declare find_sub.simps [simp del]

lemma find_sub_None: "find_sub h n = None \<longleftrightarrow> \<not> sublist n h"
proof (induction h)
  case Nil
  then show ?case by (simp add: find_sub.simps)
next
  case (Cons x h)
  then show ?case
    by (auto simp: find_sub.simps [of "x # h"] sublist_Cons_right)
qed

lemma find_sub_Some_iff: "(\<exists>i. find_sub h n = Some i) \<longleftrightarrow> sublist n h"
  using find_sub_None [of h n] by (cases "find_sub h n") auto

text \<open>\<open>std::string_view::find_first_of(c)\<close>, for one character.\<close>

fun find_char :: "char \<Rightarrow> string \<Rightarrow> nat option" where
  "find_char c [] = None"
| "find_char c (x # xs) = (if x = c then Some 0 else map_option Suc (find_char c xs))"

lemma find_char_takeWhile:
  "find_char c xs = (if c \<in> set xs then Some (length (takeWhile (\<lambda>x. x \<noteq> c) xs)) else None)"
  by (induction xs) auto

lemma find_char_append: "c \<notin> set p \<Longrightarrow> find_char c (p @ c # r) = Some (length p)"
  by (induction p) auto

subsection \<open>Joining and padding\<close>

fun join :: "'a list \<Rightarrow> 'a list list \<Rightarrow> 'a list" where
  "join sep [] = []"
| "join sep [x] = x"
| "join sep (x # y # zs) = x @ sep @ join sep (y # zs)"

lemma join_Cons: "join sep (x # xs) = x @ (if xs = [] then [] else sep @ join sep xs)"
  by (cases xs) auto

text \<open>\<open>{:<n}\<close> of \<open>std::format\<close>: pad with blanks on the right to width \<open>n\<close>.\<close>

definition pad_right :: "nat \<Rightarrow> string \<Rightarrow> string" where
  "pad_right n s = s @ replicate (n - length s) CHR '' ''"

lemma length_pad_right: "length (pad_right n s) = max n (length s)"
  by (simp add: pad_right_def)

section \<open>Machine words\<close>

lemma unat_of_nat_small: "n < 2 ^ LENGTH('w) \<Longrightarrow> unat (of_nat n :: 'w::len word) = n"
  by (simp add: unsigned_of_nat take_bit_nat_eq_self)

lemma unat_minus_1: "unat (- 1 :: 'w::len word) = 2 ^ LENGTH('w) - 1"
  by (simp add: unsigned_minus_1_eq_mask mask_eq_exp_minus_1)

lemma unat_Suc_small:
  "unat (w :: 'w::len word) + 1 < 2 ^ LENGTH('w) \<Longrightarrow> unat (w + 1) = unat w + 1"
  by (simp add: unat_word_ariths(1))

end
