(* ===== verification/Rang.thy ===== *)
theory Rang
  imports Prelude
begin

text \<open>
  \<open>rang/rang.hpp\<close>, the parts every platform has and its Linux/macOS branch: the style and colour
  enumerations, the process-wide modes, the two cached terminal tests, and \<open>operator<<\<close>.
  The file's namespace-level statics (\<open>controlMode\<close>, \<open>winTermMode\<close>, the function-local
  \<open>static const bool\<close> caches) are the record \<open>rang_state\<close>; what the process reads from the
  operating system is the record \<open>environ\<close>, an argument of each operation, since it may be
  different at each call.
\<close>

section \<open>Enumerations\<close>

datatype style = Style_reset | Style_bold | Style_dim | Style_italic | Style_underline
  | Style_blink | Style_rblink | Style_reversed | Style_conceal | Style_crossed

datatype fg = Fg_black | Fg_red | Fg_green | Fg_yellow | Fg_blue | Fg_magenta | Fg_cyan
  | Fg_gray | Fg_reset

datatype bg = Bg_black | Bg_red | Bg_green | Bg_yellow | Bg_blue | Bg_magenta | Bg_cyan
  | Bg_gray | Bg_reset

datatype fgB = FgB_black | FgB_red | FgB_green | FgB_yellow | FgB_blue | FgB_magenta
  | FgB_cyan | FgB_gray

datatype bgB = BgB_black | BgB_red | BgB_green | BgB_yellow | BgB_blue | BgB_magenta
  | BgB_cyan | BgB_gray

datatype control = Control_Off | Control_Auto | Control_Force

datatype winTerm = WinTerm_Auto | WinTerm_Ansi | WinTerm_Native

text \<open>The enumerators' values, \<open>static_cast<int>\<close> of each.\<close>

fun style_val :: "style \<Rightarrow> nat" where
  "style_val Style_reset = 0"
| "style_val Style_bold = 1"
| "style_val Style_dim = 2"
| "style_val Style_italic = 3"
| "style_val Style_underline = 4"
| "style_val Style_blink = 5"
| "style_val Style_rblink = 6"
| "style_val Style_reversed = 7"
| "style_val Style_conceal = 8"
| "style_val Style_crossed = 9"

fun fg_val :: "fg \<Rightarrow> nat" where
  "fg_val Fg_black = 30"
| "fg_val Fg_red = 31"
| "fg_val Fg_green = 32"
| "fg_val Fg_yellow = 33"
| "fg_val Fg_blue = 34"
| "fg_val Fg_magenta = 35"
| "fg_val Fg_cyan = 36"
| "fg_val Fg_gray = 37"
| "fg_val Fg_reset = 39"

fun bg_val :: "bg \<Rightarrow> nat" where
  "bg_val Bg_black = 40"
| "bg_val Bg_red = 41"
| "bg_val Bg_green = 42"
| "bg_val Bg_yellow = 43"
| "bg_val Bg_blue = 44"
| "bg_val Bg_magenta = 45"
| "bg_val Bg_cyan = 46"
| "bg_val Bg_gray = 47"
| "bg_val Bg_reset = 49"

fun fgB_val :: "fgB \<Rightarrow> nat" where
  "fgB_val FgB_black = 90"
| "fgB_val FgB_red = 91"
| "fgB_val FgB_green = 92"
| "fgB_val FgB_yellow = 93"
| "fgB_val FgB_blue = 94"
| "fgB_val FgB_magenta = 95"
| "fgB_val FgB_cyan = 96"
| "fgB_val FgB_gray = 97"

fun bgB_val :: "bgB \<Rightarrow> nat" where
  "bgB_val BgB_black = 100"
| "bgB_val BgB_red = 101"
| "bgB_val BgB_green = 102"
| "bgB_val BgB_yellow = 103"
| "bgB_val BgB_blue = 104"
| "bgB_val BgB_magenta = 105"
| "bgB_val BgB_cyan = 106"
| "bgB_val BgB_gray = 107"

text \<open>
  \<open>enableStd<T>\<close> admits exactly these five types as the right operand of \<open>operator<<\<close>;
  their disjoint union is the argument of the model's template functions.
\<close>

datatype std_value = Style style | Fg fg | Bg bg | FgB fgB | BgB bgB

fun value_code :: "std_value \<Rightarrow> nat" where
  "value_code (Style s) = style_val s"
| "value_code (Fg c) = fg_val c"
| "value_code (Bg c) = bg_val c"
| "value_code (FgB c) = fgB_val c"
| "value_code (BgB c) = bgB_val c"

section \<open>State\<close>

record rang_state =
  controlMode :: control
  winTermMode :: winTerm
  supportsColor_result :: "bool option"
  cout_term :: "bool option"
  cerr_term :: "bool option"

definition rang_init :: rang_state where
  "rang_init = \<lparr>controlMode = Control_Auto, winTermMode = WinTerm_Auto,
     supportsColor_result = None, cout_term = None, cerr_term = None\<rparr>"

text \<open>
  Stream buffers are numbered. \<open>cout_rdbuf\<close>, \<open>cerr_rdbuf\<close> and \<open>clog_rdbuf\<close> are the buffers
  the three standard streams have at the time of the call (a program may have exchanged them).
\<close>

record environ =
  getenv_TERM :: "string option"
  isatty_stdout :: bool
  isatty_stderr :: bool
  cout_rdbuf :: nat
  cerr_rdbuf :: nat
  clog_rdbuf :: nat

record ostream =
  rdbuf :: nat
  written :: string

text \<open>A stream is taken to have its default formatting flags: with others \<open>operator<<\<close> would write the integer of a sequence by them.\<close>

section \<open>Operations\<close>

definition setWinTermMode :: "winTerm \<Rightarrow> rang_state \<Rightarrow> rang_state" where
  "setWinTermMode v st = st\<lparr>winTermMode := v\<rparr>"

definition setControlMode :: "control \<Rightarrow> rang_state \<Rightarrow> rang_state" where
  "setControlMode v st = st\<lparr>controlMode := v\<rparr>"

definition Terms :: "string list" where
  "Terms = [''ansi'', ''color'', ''console'', ''cygwin'', ''gnome'', ''konsole'', ''kterm'',
     ''linux'', ''msys'', ''putty'', ''rxvt'', ''screen'', ''vt100'', ''xterm'']"

definition term_supports_color :: "string option \<Rightarrow> bool" where
  "term_supports_color env_p =
     (case env_p of None \<Rightarrow> False
      | Some t \<Rightarrow> list_ex (\<lambda>term. find_sub t term \<noteq> None) Terms)"

definition supportsColor :: "environ \<Rightarrow> rang_state \<Rightarrow> bool \<times> rang_state" where
  "supportsColor e st =
     (case supportsColor_result st of
        Some b \<Rightarrow> (b, st)
      | None \<Rightarrow> (let b = term_supports_color (getenv_TERM e)
                in (b, st\<lparr>supportsColor_result := Some b\<rparr>)))"

definition isTerminal :: "environ \<Rightarrow> nat \<Rightarrow> rang_state \<Rightarrow> bool \<times> rang_state" where
  "isTerminal e osbuf st =
     (if osbuf = cout_rdbuf e then
        (case cout_term st of
           Some b \<Rightarrow> (b, st)
         | None \<Rightarrow> (isatty_stdout e, st\<lparr>cout_term := Some (isatty_stdout e)\<rparr>))
      else if osbuf = cerr_rdbuf e \<or> osbuf = clog_rdbuf e then
        (case cerr_term st of
           Some b \<Rightarrow> (b, st)
         | None \<Rightarrow> (isatty_stderr e, st\<lparr>cerr_term := Some (isatty_stderr e)\<rparr>))
      else (False, st))"

definition escape_of :: "nat \<Rightarrow> string" where
  "escape_of n = CHR 0x1B # CHR ''['' # dec_nat n @ ''m''"

definition setColor :: "ostream \<Rightarrow> std_value \<Rightarrow> ostream" where
  "setColor os v = os\<lparr>written := written os @ escape_of (value_code v)\<rparr>"

definition put_value :: "environ \<Rightarrow> ostream \<Rightarrow> std_value \<Rightarrow> rang_state \<Rightarrow> ostream \<times> rang_state" where
  "put_value e os v st =
     (case controlMode st of
        Control_Auto \<Rightarrow>
          (case supportsColor e st of
             (False, st1) \<Rightarrow> (os, st1)
           | (True, st1) \<Rightarrow>
               (case isTerminal e (rdbuf os) st1 of
                  (False, st2) \<Rightarrow> (os, st2)
                | (True, st2) \<Rightarrow> (setColor os v, st2)))
      | Control_Force \<Rightarrow> (setColor os v, st)
      | Control_Off \<Rightarrow> (os, st))"

text \<open>Text written with the ordinary \<open>operator<<\<close>.\<close>

definition put_text :: "ostream \<Rightarrow> string \<Rightarrow> ostream" where
  "put_text os s = os\<lparr>written := written os @ s\<rparr>"

declare setWinTermMode_def [rang_defs] setControlMode_def [rang_defs]
  supportsColor_def [rang_defs] isTerminal_def [rang_defs] setColor_def [rang_defs]
  put_value_def [rang_defs] put_text_def [rang_defs]

text \<open>A program's output: a sequence of values and texts on one stream, each under the
  environment of its moment. \<open>rang/main.cpp\<close> is one such sequence.\<close>

datatype item = Value std_value | Txt string

fun put_item :: "environ \<Rightarrow> ostream \<Rightarrow> item \<Rightarrow> rang_state \<Rightarrow> ostream \<times> rang_state" where
  "put_item e os (Value v) st = put_value e os v st"
| "put_item e os (Txt s) st = (put_text os s, st)"

fun put_items :: "(environ \<times> item) list \<Rightarrow> ostream \<Rightarrow> rang_state \<Rightarrow> ostream \<times> rang_state" where
  "put_items [] os st = (os, st)"
| "put_items ((e, i) # is) os st =
     (case put_item e os i st of (os', st') \<Rightarrow> put_items is os' st')"

text \<open>The output of a program that writes to several streams in turn: each step names its stream.\<close>

fun put_program :: "(environ \<times> nat \<times> item) list \<Rightarrow> (nat \<Rightarrow> ostream) \<Rightarrow> rang_state \<Rightarrow> (nat \<Rightarrow> ostream) \<times> rang_state" where
  "put_program [] oss st = (oss, st)"
| "put_program ((e, k, i) # is) oss st =
     (case put_item e (oss k) i st of (os', st') \<Rightarrow> put_program is (oss(k := os')) st')"

definition items_on :: "nat \<Rightarrow> (environ \<times> nat \<times> item) list \<Rightarrow> item list" where
  "items_on k is = map (snd \<circ> snd) (filter (\<lambda>p. fst (snd p) = k) is)"

definition main_items :: "item list" where
  "main_items =
     [Value (Style Style_reversed), Txt ''Test Text'', Value (Style Style_reset), Txt [CHR 0x0A],
      Value (Fg Fg_green), Txt ''Test Text'', Value (Fg Fg_reset), Txt [CHR 0x0A],
      Value (Bg Bg_cyan), Txt ''Test Text'', Value (Bg Bg_reset), Txt [CHR 0x0A]]"

section \<open>Reference: what the output means\<close>

text \<open>
  A terminal's reading of the output: plain characters, and escape sequences
  \<open>ESC [ n m\<close> that stand for one value each. \<open>decode\<close> fails on an escape sequence the
  library cannot have written.
\<close>

definition all_values :: "std_value list" where
  "all_values =
     map Style [Style_reset, Style_bold, Style_dim, Style_italic, Style_underline, Style_blink,
       Style_rblink, Style_reversed, Style_conceal, Style_crossed]
     @ map Fg [Fg_black, Fg_red, Fg_green, Fg_yellow, Fg_blue, Fg_magenta, Fg_cyan, Fg_gray, Fg_reset]
     @ map Bg [Bg_black, Bg_red, Bg_green, Bg_yellow, Bg_blue, Bg_magenta, Bg_cyan, Bg_gray, Bg_reset]
     @ map FgB [FgB_black, FgB_red, FgB_green, FgB_yellow, FgB_blue, FgB_magenta, FgB_cyan, FgB_gray]
     @ map BgB [BgB_black, BgB_red, BgB_green, BgB_yellow, BgB_blue, BgB_magenta, BgB_cyan, BgB_gray]"

definition value_of_code :: "nat \<Rightarrow> std_value option" where
  "value_of_code n = find (\<lambda>v. value_code v = n) all_values"

definition parse_escape :: "string \<Rightarrow> (std_value \<times> string) option" where
  "parse_escape s =
     (case s of
        [] \<Rightarrow> None
      | c # r \<Rightarrow>
          (if c \<noteq> CHR ''['' then None
           else (case dropWhile is_digit r of
                   [] \<Rightarrow> None
                 | d # r' \<Rightarrow>
                     (if d \<noteq> CHR ''m'' \<or> takeWhile is_digit r = [] then None
                      else map_option (\<lambda>v. (v, r'))
                             (value_of_code (nat_of_dec (takeWhile is_digit r)))))))"

lemma parse_escape_shorter [termination_simp]:
  assumes "parse_escape s = Some (v, r)"
  shows "length r < length s"
proof -
  obtain c t d where s: "s = c # t" and d: "dropWhile is_digit t = d # r"
    using assms by (auto simp: parse_escape_def split: list.splits if_splits)
  have "length (dropWhile is_digit t) \<le> length t" by (rule length_dropWhile_le)
  then show ?thesis using s d by simp
qed

fun decode :: "string \<Rightarrow> (char + std_value) list option" where
  "decode [] = Some []"
| "decode (c # s) =
     (if c = CHR 0x1B then
        (case parse_escape s of
           None \<Rightarrow> None
         | Some (v, r) \<Rightarrow> map_option ((#) (Inr v)) (decode r))
      else map_option ((#) (Inl c)) (decode s))"

text \<open>What an item adds to the stream when colours are on (\<open>True\<close>) or off.\<close>

fun render :: "bool \<Rightarrow> item \<Rightarrow> string" where
  "render b (Value v) = (if b then escape_of (value_code v) else [])"
| "render b (Txt s) = s"

fun item_tokens :: "item \<Rightarrow> (char + std_value) list" where
  "item_tokens (Value v) = [Inr v]"
| "item_tokens (Txt s) = map Inl s"

fun plain_item :: "item \<Rightarrow> bool" where
  "plain_item (Value v) \<longleftrightarrow> True"
| "plain_item (Txt s) \<longleftrightarrow> CHR 0x1B \<notin> set s"

definition same_buffers :: "environ \<Rightarrow> environ \<Rightarrow> bool" where
  "same_buffers e e' \<longleftrightarrow> cout_rdbuf e = cout_rdbuf e' \<and> cerr_rdbuf e = cerr_rdbuf e' \<and>
     clog_rdbuf e = clog_rdbuf e'"

definition auto_decision :: "environ \<Rightarrow> nat \<Rightarrow> rang_state \<Rightarrow> bool" where
  "auto_decision e n st \<longleftrightarrow> fst (supportsColor e st) \<and> fst (isTerminal e n st)"

text \<open>The state after an automatic decision \<open>b\<close> for buffer \<open>n\<close> has been taken.\<close>

definition latched :: "environ \<Rightarrow> nat \<Rightarrow> bool \<Rightarrow> rang_state \<Rightarrow> bool" where
  "latched e n b st \<longleftrightarrow> controlMode st = Control_Auto \<and>
     (case supportsColor_result st of
        None \<Rightarrow> False
      | Some False \<Rightarrow> \<not> b
      | Some True \<Rightarrow>
          (if n = cout_rdbuf e then cout_term st = Some b
           else if n = cerr_rdbuf e \<or> n = clog_rdbuf e then cerr_term st = Some b
           else \<not> b))"

section \<open>Lemmas\<close>

lemma value_code_inverse: "value_of_code (value_code v) = Some v"
proof (cases v)
  case (Style x)
  then show ?thesis by (cases x) (simp_all add: value_of_code_def all_values_def)
next
  case (Fg x)
  then show ?thesis by (cases x) (simp_all add: value_of_code_def all_values_def)
next
  case (Bg x)
  then show ?thesis by (cases x) (simp_all add: value_of_code_def all_values_def)
next
  case (FgB x)
  then show ?thesis by (cases x) (simp_all add: value_of_code_def all_values_def)
next
  case (BgB x)
  then show ?thesis by (cases x) (simp_all add: value_of_code_def all_values_def)
qed

lemma not_digit_m: "\<not> is_digit CHR ''m''"
  by (simp add: is_digit_def)

lemma parse_escape_of: "parse_escape (CHR ''['' # dec_nat (value_code v) @ CHR ''m'' # r) = Some (v, r)"
  by (simp add: parse_escape_def takeWhile_dec_nat dropWhile_dec_nat not_digit_m value_code_inverse)

lemma decode_escape: "decode (escape_of (value_code v) @ r) = map_option ((#) (Inr v)) (decode r)"
  using parse_escape_of [of v r] by (simp add: escape_of_def)

lemma decode_text: "CHR 0x1B \<notin> set s \<Longrightarrow> decode (s @ r) = map_option ((@) (map Inl s)) (decode r)"
  by (induction s) (cases "decode r"; auto)+

lemma decode_items:
  "list_all plain_item is \<Longrightarrow>
     decode (concat (map (render True) is)) = Some (concat (map item_tokens is))"
proof (induction "is")
  case Nil
  then show ?case by simp
next
  case (Cons i "is")
  then show ?case by (cases i) (auto simp: decode_escape decode_text)
qed

lemma rdbuf_setColor [simp]: "rdbuf (setColor os v) = rdbuf os"
  by (simp add: setColor_def)

lemma written_setColor [simp]: "written (setColor os v) = written os @ escape_of (value_code v)"
  by (simp add: setColor_def)

lemma written_put_text [simp]: "written (put_text os s) = written os @ s"
  by (simp add: put_text_def)

lemma rdbuf_put_text [simp]: "rdbuf (put_text os s) = rdbuf os"
  by (simp add: put_text_def)

lemma term_supports_color_iff:
  "term_supports_color p \<longleftrightarrow> (\<exists>t. p = Some t \<and> (\<exists>w \<in> set Terms. sublist w t))"
  by (auto simp: term_supports_color_def list_ex_iff find_sub_Some_iff find_sub_None
      split: option.splits)

lemma supportsColor_cached: "supportsColor_result st = Some c \<Longrightarrow> supportsColor e st = (c, st)"
  by (simp add: supportsColor_def)

lemma latched_supports:
  assumes "latched e n b st"
  obtains c where "supportsColor_result st = Some c" "c \<or> \<not> b"
  using assms by (cases "supportsColor_result st") (auto simp: latched_def split: bool.splits)

lemma latched_isTerminal:
  assumes "latched e n b st" "same_buffers e e'" "supportsColor_result st = Some True"
  shows "isTerminal e' n st = (b, st)"
  using assms by (simp add: latched_def same_buffers_def isTerminal_def split: if_splits)

lemma latched_put_value:
  assumes "latched e n b st" "same_buffers e e'" "rdbuf os = n"
  shows "put_value e' os v st = (if b then setColor os v else os, st)"
proof -
  obtain c where c: "supportsColor_result st = Some c" "c \<or> \<not> b"
    using assms(1) by (rule latched_supports)
  have m: "controlMode st = Control_Auto" using assms(1) by (simp add: latched_def)
  show ?thesis
  proof (cases c)
    case True
    with c assms have "isTerminal e' n st = (b, st)" by (simp add: latched_isTerminal)
    then show ?thesis
      using m c True assms(3) by (cases b) (simp_all add: put_value_def supportsColor_cached)
  next
    case False
    then show ?thesis using m c by (simp add: put_value_def supportsColor_cached)
  qed
qed

lemma supportsColor_run:
  "supportsColor e st = (c, st1) \<Longrightarrow> st1 = st\<lparr>supportsColor_result := Some c\<rparr>"
  by (auto simp: supportsColor_def Let_def split: option.splits)

lemma isTerminal_frame: "fst (isTerminal e n (st\<lparr>supportsColor_result := x\<rparr>)) = fst (isTerminal e n st)"
  by (simp add: isTerminal_def split: option.splits)

lemma isTerminal_latches:
  assumes "isTerminal e n st = (b, st')" "controlMode st = Control_Auto"
    "supportsColor_result st = Some True"
  shows "latched e n b st'"
  using assms by (auto simp: latched_def isTerminal_def split: option.splits if_splits)

lemma put_value_latches:
  assumes m: "controlMode st = Control_Auto" and d: "auto_decision e (rdbuf os) st = b"
    and r: "put_value e os v st = (os', st')"
  shows "latched e (rdbuf os) b st' \<and> os' = (if b then setColor os v else os)"
proof -
  obtain c st1 where c: "supportsColor e st = (c, st1)" by (cases "supportsColor e st")
  then have st1: "st1 = st\<lparr>supportsColor_result := Some c\<rparr>" by (rule supportsColor_run)
  show ?thesis
  proof (cases c)
    case False
    then show ?thesis using m d r c st1 by (auto simp: put_value_def auto_decision_def latched_def)
  next
    case True
    obtain t st2 where t: "isTerminal e (rdbuf os) st1 = (t, st2)" by (cases "isTerminal e (rdbuf os) st1")
    then have "t = b" using d c True st1 isTerminal_frame [of e "rdbuf os" "Some c" st]
      by (simp add: auto_decision_def)
    moreover have "latched e (rdbuf os) t st2"
      using isTerminal_latches [OF t] m st1 True by simp
    ultimately show ?thesis using m r c t True by (cases t) (auto simp: put_value_def)
  qed
qed

lemma latched_decision:
  assumes "latched e n b st" "same_buffers e e'"
  shows "auto_decision e' n st = b"
proof -
  obtain c where c: "supportsColor_result st = Some c" "c \<or> \<not> b" using assms(1) by (rule latched_supports)
  then show ?thesis
    using latched_isTerminal [OF assms] by (cases c) (simp_all add: auto_decision_def supportsColor_cached)
qed

text \<open>What has been cached stays, whatever is written to whichever stream.\<close>

definition caches_kept :: "rang_state \<Rightarrow> rang_state \<Rightarrow> bool" where
  "caches_kept st st' \<longleftrightarrow> controlMode st' = controlMode st \<and>
     (supportsColor_result st \<noteq> None \<longrightarrow> supportsColor_result st' = supportsColor_result st) \<and>
     (cout_term st \<noteq> None \<longrightarrow> cout_term st' = cout_term st) \<and> (cerr_term st \<noteq> None \<longrightarrow> cerr_term st' = cerr_term st)"

lemma put_item_keeps_caches: "put_item e os i st = (os', st') \<Longrightarrow> caches_kept st st'"
  by (cases i)
    (auto simp: caches_kept_def put_value_def supportsColor_def isTerminal_def Let_def
      split: control.splits option.splits bool.splits if_splits prod.splits)

lemma latched_kept: "latched e n b st \<Longrightarrow> caches_kept st st' \<Longrightarrow> latched e n b st'"
  unfolding latched_def caches_kept_def by (cases "supportsColor_result st") (auto split: bool.splits if_splits)

lemma rdbuf_put_item: "put_item e os i st = (os', st') \<Longrightarrow> rdbuf os' = rdbuf os"
  by (cases i) (auto simp: put_value_def split: control.splits bool.splits prod.splits)

text \<open>Once the decision for a stream has been taken, it holds for all the program writes to it, with whatever is written elsewhere in between.\<close>

lemma latched_put_program:
  assumes "latched e n b st" "\<forall>e' \<in> fst ` set is. same_buffers e e'" "rdbuf (oss k) = n"
    "put_program is oss st = (oss', st')"
  shows "written (oss' k) = written (oss k) @ concat (map (render b) (items_on k is)) \<and> latched e n b st'"
  using assms
proof (induction "is" arbitrary: oss st)
  case Nil
  then show ?case by (simp add: items_on_def)
next
  case (Cons p "is")
  obtain e1 j i where p: "p = (e1, j, i)" by (cases p)
  obtain os1 st1 where 1: "put_item e1 (oss j) i st = (os1, st1)" by (cases "put_item e1 (oss j) i st")
  have l1: "latched e n b st1" by (rule latched_kept [OF Cons.prems(1) put_item_keeps_caches [OF 1]])
  have rd: "rdbuf ((oss(j := os1)) k) = n" using rdbuf_put_item [OF 1] Cons.prems(3) by auto
  have rest: "put_program is (oss(j := os1)) st1 = (oss', st')" using Cons.prems(4) 1 by (simp add: p)
  have same: "\<forall>e' \<in> fst ` set is. same_buffers e e'" using Cons.prems(2) by simp
  note IH = Cons.IH [OF l1 same rd rest]
  have "written os1 = written (oss j) @ render b i" if "j = k"
    using that 1 latched_put_value [OF Cons.prems(1), of e1 "oss k"] Cons.prems(2,3) by (cases i) (auto simp: p)
  then show ?case using IH by (auto simp: items_on_def p)
qed

lemma put_program_decides:
  assumes "controlMode st = Control_Auto" "\<forall>e' \<in> fst ` set is. same_buffers e0 e'"
    and "put_program is oss st = (oss', st')"
  shows "\<exists>b. written (oss' k) = written (oss k) @ concat (map (render b) (items_on k is)) \<and>
    (\<forall>pre e v post. is = pre @ (e, k, Value v) # post \<longrightarrow> auto_decision e (rdbuf (oss k)) (snd (put_program pre oss st)) = b)"
  using assms
proof (induction "is" arbitrary: oss st)
  case Nil
  then show ?case by (simp add: items_on_def)
next
  case (Cons p "is")
  obtain e1 j i where p: "p = (e1, j, i)" by (cases p)
  obtain os1 st1 where 1: "put_item e1 (oss j) i st = (os1, st1)" by (cases "put_item e1 (oss j) i st")
  let ?oss = "oss(j := os1)"
  have rest: "put_program is ?oss st1 = (oss', st')" using Cons.prems(3) 1 by (simp add: p)
  have m: "controlMode st1 = Control_Auto" using put_item_keeps_caches [OF 1] Cons.prems(1) by (simp add: caches_kept_def)
  have rd: "rdbuf (?oss k) = rdbuf (oss k)" using rdbuf_put_item [OF 1] by auto
  have same: "\<forall>e' \<in> fst ` set is. same_buffers e0 e'" "same_buffers e0 e1" using Cons.prems(2) by (simp_all add: p)
  show ?case
  proof (cases "j = k \<and> (\<exists>v. i = Value v)")
    case True
    then obtain v where v: "j = k" "i = Value v" by blast
    let ?b = "auto_decision e1 (rdbuf (oss k)) st"
    have pv: "put_value e1 (oss k) v st = (os1, st1)" using 1 v by simp
    have l: "latched e1 (rdbuf (oss k)) ?b st1" "os1 = (if ?b then setColor (oss k) v else oss k)"
      using put_value_latches [OF Cons.prems(1) refl pv] by simp_all
    have same1: "\<forall>e' \<in> fst ` set is. same_buffers e1 e'" using same by (simp add: same_buffers_def)
    have w: "written (oss' k) = written os1 @ concat (map (render ?b) (items_on k is))"
      using latched_put_program [where ?k = k and ?oss = ?oss, OF l(1) same1 rd rest] v by simp
    have "auto_decision e (rdbuf (oss k)) (snd (put_program pre oss st)) = ?b"
      if d: "p # is = pre @ (e, k, Value v') # post" for pre e v' post
    proof (cases pre)
      case Nil
      then show ?thesis using d by (simp add: p)
    next
      case (Cons q pre')
      then have is': "is = pre' @ (e, k, Value v') # post" and q: "q = p" using d by simp_all
      obtain oss2 st2 where 2: "put_program pre' ?oss st1 = (oss2, st2)" by (cases "put_program pre' ?oss st1")
      have "\<forall>e' \<in> fst ` set pre'. same_buffers e1 e'" "same_buffers e1 e" using same1 is' by simp_all
      then have "latched e1 (rdbuf (oss k)) ?b st2" "same_buffers e1 e"
        using latched_put_program [where ?k = k and ?oss = ?oss and ?is = pre', OF l(1) _ rd 2] by simp_all
      then show ?thesis using latched_decision 2 by (simp add: Cons q p 1)
    qed
    then show ?thesis using w l(2) v by (intro exI [of _ ?b]) (auto simp: items_on_def p)
  next
    case False
    obtain b where b: "written (oss' k) = written (?oss k) @ concat (map (render b) (items_on k is))"
      "\<And>pre e v post. is = pre @ (e, k, Value v) # post \<Longrightarrow> auto_decision e (rdbuf (?oss k)) (snd (put_program pre ?oss st1)) = b"
      using Cons.IH [OF m same(1) rest] by blast
    have "written (?oss k) = written (oss k) @ concat (map (render b) (items_on k [p]))"
      using False 1 by (cases i) (auto simp: items_on_def p)
    moreover have "auto_decision e (rdbuf (oss k)) (snd (put_program pre oss st)) = b"
      if d: "p # is = pre @ (e, k, Value v) # post" for pre e v post
    proof (cases pre)
      case Nil
      then show ?thesis using d False by (simp add: p)
    next
      case (Cons q pre')
      then have "is = pre' @ (e, k, Value v) # post" "q = (e1, j, i)" using d by (simp_all add: p)
      then show ?thesis using b(2) rd Cons 1 by auto
    qed
    ultimately show ?thesis using b(1) by (intro exI [of _ b]) (auto simp: items_on_def)
  qed
qed

lemma put_items_fixed_mode:
  assumes "controlMode st = (if b then Control_Force else Control_Off)"
    "put_items is os st = (os', st')"
  shows "written os' = written os @ concat (map (render b \<circ> snd) is) \<and> st' = st"
  using assms
proof (induction "is" arbitrary: os)
  case Nil
  then show ?case by simp
next
  case (Cons p "is")
  obtain e1 i where p: "p = (e1, i)" by (cases p)
  then show ?case
    using Cons by (cases i) (auto simp: put_value_def split: if_splits)
qed

section \<open>Properties\<close>

text \<open>
  C19: forced colouring is readable back: what a sequence of values and plain texts writes decodes
  to exactly these values and characters, in order (distinct values have distinct sequences, and no
  sequence runs into the text after it).
\<close>

theorem forced_output_decodes:
  assumes "controlMode st = Control_Force" and "list_all plain_item (map snd is)"
    and "put_items is os st = (os', st')" and "written os = []"
  shows "decode (written os') = Some (concat (map (item_tokens \<circ> snd) is))"
proof -
  have "written os' = concat (map (render True) (map snd is))"
    using put_items_fixed_mode [of st True "is" os os' st'] assms by simp
  then show ?thesis using decode_items [OF assms(2)] by (simp add: comp_def)
qed

theorem forced_output_decodes_witness:
  "decode (written (fst (put_items
     [(\<lparr>getenv_TERM = None, isatty_stdout = False, isatty_stderr = False,
         cout_rdbuf = 0, cerr_rdbuf = 1, clog_rdbuf = 2\<rparr>, Value (Fg Fg_green)),
      (\<lparr>getenv_TERM = None, isatty_stdout = False, isatty_stderr = False,
         cout_rdbuf = 0, cerr_rdbuf = 1, clog_rdbuf = 2\<rparr>, Txt ''7m'')]
     \<lparr>rdbuf = 0, written = []\<rparr> (setControlMode Control_Force rang_init))))
   = Some [Inr (Fg Fg_green), Inl CHR ''7'', Inl CHR ''m'']"
  by (subst forced_output_decodes [where os = "\<lparr>rdbuf = 0, written = []\<rparr>"
        and st = "setControlMode Control_Force rang_init", OF _ _ surjective_pairing])
    (simp_all add: setControlMode_def)

text \<open>
  C21: in the automatic mode each stream of a program gets all its colours or none: however the program writes to its streams in turn, whatever \<open>TERM\<close>
  and the terminals answer later, as long as it does not exchange the buffers of the standard streams, either every value written to the stream
  comes out as an escape sequence or none does, as was decided for the first of them, and its texts are always written.
\<close>

theorem auto_mode_all_or_nothing:
  assumes "controlMode st = Control_Auto" and "\<forall>e' \<in> fst ` set is. same_buffers e0 e'"
    and "put_program is oss st = (oss', st')"
  shows "\<exists>b. written (oss' k) = written (oss k) @ concat (map (render b) (items_on k is)) \<and>
    (\<forall>pre e v post. is = pre @ (e, k, Value v) # post \<longrightarrow> auto_decision e (rdbuf (oss k)) (snd (put_program pre oss st)) = b)"
  using assms by (rule put_program_decides)

definition sample_environ :: "string option \<Rightarrow> environ" where
  "sample_environ t =
     \<lparr>getenv_TERM = t, isatty_stdout = True, isatty_stderr = False, cout_rdbuf = 0, cerr_rdbuf = 1, clog_rdbuf = 2\<rparr>"

definition sample_output :: "(environ \<times> nat \<times> item) list" where
  "sample_output =
     [(sample_environ (Some ''xterm-256color''), 0, Value (Fg Fg_red)),
      (sample_environ None, 1, Value (Fg Fg_green)),
      (sample_environ None, 1, Txt ''error''),
      (sample_environ None, 0, Value (Fg Fg_reset))]"

theorem auto_mode_all_or_nothing_witness:
  "written (fst (put_program sample_output (\<lambda>k. \<lparr>rdbuf = k, written = []\<rparr>) rang_init) 0) = escape_of 31 @ escape_of 39 \<and>
   written (fst (put_program sample_output (\<lambda>k. \<lparr>rdbuf = k, written = []\<rparr>) rang_init) 1) = ''error''"
proof -
  let ?oss = "\<lambda>k. \<lparr>rdbuf = k, written = []\<rparr>"
  have t: "term_supports_color (Some ''xterm-256color'')"
    by (simp add: term_supports_color_def Terms_def find_sub.simps)
  have same: "\<forall>e' \<in> fst ` set sample_output. same_buffers (sample_environ None) e'"
    by (simp add: sample_output_def sample_environ_def same_buffers_def)
  have m: "controlMode rang_init = Control_Auto" by (simp add: rang_init_def)
  note d = auto_mode_all_or_nothing [where oss = ?oss, OF m same prod.collapse [symmetric]]
  have s0: "sample_output = [] @ (sample_environ (Some ''xterm-256color''), 0, Value (Fg Fg_red)) # tl sample_output"
    "sample_output = take 1 sample_output @ (sample_environ None, 1, Value (Fg Fg_green)) # drop 2 sample_output"
    by (simp_all add: sample_output_def)
  have d0: "auto_decision (sample_environ (Some ''xterm-256color'')) 0 rang_init"
    using t by (simp add: auto_decision_def supportsColor_def isTerminal_def rang_init_def Let_def sample_environ_def)
  have d1: "\<not> auto_decision (sample_environ None) 1 (snd (put_program (take 1 sample_output) ?oss rang_init))"
    using t by (simp add: sample_output_def put_value_def auto_decision_def supportsColor_def isTerminal_def rang_init_def
        Let_def sample_environ_def)
  obtain b0 where b0: "written (fst (put_program sample_output ?oss rang_init) 0) = concat (map (render b0) (items_on 0 sample_output))" "b0"
    using d [of 0] s0(1) d0 by fastforce
  obtain b1 where b1: "written (fst (put_program sample_output ?oss rang_init) 1) = concat (map (render b1) (items_on 1 sample_output))" "\<not> b1"
    using d [of 1] s0(2) d1 by fastforce
  show ?thesis using b0 b1 by (simp add: items_on_def sample_output_def)
qed

text \<open>
  Before the cache is filled, colours are supported exactly when \<open>TERM\<close> is set and one of the
  fourteen terminal names occurs in it; afterwards the answer never changes, whatever the
  environment.
\<close>

theorem supportsColor_characterised:
  "(supportsColor_result st = None \<longrightarrow>
      (fst (supportsColor e st) \<longleftrightarrow>
         (\<exists>t. getenv_TERM e = Some t \<and> (\<exists>w \<in> set Terms. sublist w t)))) \<and>
   fst (supportsColor e' (snd (supportsColor e st))) = fst (supportsColor e st)"
  by (auto simp: supportsColor_def Let_def term_supports_color_iff split: option.splits)

theorem supportsColor_characterised_witness:
  "\<not> fst (supportsColor \<lparr>getenv_TERM = Some ''dumb'', isatty_stdout = True, isatty_stderr = True,
       cout_rdbuf = 0, cerr_rdbuf = 1, clog_rdbuf = 2\<rparr> rang_init)"
proof -
  have "supportsColor_result rang_init = None" by (simp add: rang_init_def)
  then show ?thesis
    using supportsColor_characterised [of rang_init "\<lparr>getenv_TERM = Some ''dumb'',
        isatty_stdout = True, isatty_stderr = True, cout_rdbuf = 0, cerr_rdbuf = 1, clog_rdbuf = 2\<rparr>"]
    by (auto simp: Terms_def sublist_def Cons_eq_append_conv append_eq_Cons_conv)
qed

end
