(* ===== verification/Rang_Win.thy ===== *)
theory Rang_Win
  imports Rang
begin

text \<open>
  \<open>rang/rang.hpp\<close>, its Windows branch: the emulation of the escape sequences on a native
  console. A console character has an attribute word, four bits of foreground and four of
  background; the library keeps the abstract state \<open>sgr\<close> (colours, bold, underline, inverse,
  conceal) and turns it into an attribute with \<open>SGR2Attr\<close>.
  The Windows calls are answered by the record \<open>win_api\<close>, an argument; the calls that have an
  effect on the console are logged, in order, in the state.
\<close>

unbundle bit_operations_syntax

type_synonym BYTE = "8 word"
type_synonym WORD = "16 word"
type_synonym DWORD = "32 word"

section \<open>Data\<close>

record sgr =
  fgColor :: BYTE
  bgColor :: BYTE
  bold :: BYTE
  underline :: BYTE
  inverse :: bool
  conceal :: bool

datatype AttrColor = Attr_black | Attr_red | Attr_green | Attr_yellow | Attr_blue
  | Attr_magenta | Attr_cyan | Attr_gray

fun attr_val :: "AttrColor \<Rightarrow> BYTE" where
  "attr_val Attr_black = 0"
| "attr_val Attr_red = 4"
| "attr_val Attr_green = 2"
| "attr_val Attr_yellow = 6"
| "attr_val Attr_blue = 1"
| "attr_val Attr_magenta = 5"
| "attr_val Attr_cyan = 3"
| "attr_val Attr_gray = 7"

text \<open>Constants of \<open>windows.h\<close> the code uses.\<close>

abbreviation (input) FOREGROUND_INTENSITY :: "'a::len word" where
  "FOREGROUND_INTENSITY \<equiv> 0x08"

abbreviation (input) BACKGROUND_INTENSITY :: "'a::len word" where
  "BACKGROUND_INTENSITY \<equiv> 0x80"

definition ENABLE_VIRTUAL_TERMINAL_PROCESSING :: DWORD where
  "ENABLE_VIRTUAL_TERMINAL_PROCESSING = 0x0004"

datatype handle = INVALID_HANDLE_VALUE | Handle nat

datatype std_handle = STD_OUTPUT_HANDLE | STD_ERROR_HANDLE

datatype fd = Fd_stdout | Fd_stderr

text \<open>
  The answers of the operating system. \<open>file_name_info\<close> is what
  \<open>GetFileInformationByHandleEx\<close> stores, the length in bytes and the wide characters;
  \<open>None\<close> stands for a failing call, and \<open>has_GetFileInformationByHandleEx\<close> says whether
  \<open>GetProcAddress\<close> found it.
\<close>

record win_api =
  GetStdHandle :: "std_handle \<Rightarrow> handle"
  GetConsoleMode :: "handle \<Rightarrow> DWORD option"
  SetConsoleMode :: "handle \<Rightarrow> DWORD \<Rightarrow> bool"
  GetConsoleScreenBufferInfo :: "handle \<Rightarrow> WORD option"
  has_GetFileInformationByHandleEx :: bool
  osf_handle :: "fd \<Rightarrow> handle"
  is_pipe :: "handle \<Rightarrow> bool"
  new_succeeds :: bool
  file_name_info :: "handle \<Rightarrow> (nat \<times> nat list) option"

datatype win_call =
    Flush string \<comment> \<open>the buffered text reaches the console\<close>
  | SetConsoleTextAttribute handle WORD
  | ConsoleModeSet handle DWORD

record win_state =
  modes :: rang_state
  hStdout :: "handle option"
  hStderr :: "handle option"
  cout_ansi :: "bool option"
  cerr_ansi :: "bool option"
  defaultSgr :: "sgr option"
  current_sgr :: "sgr option"
  win_log :: "win_call list"

text \<open>A stream: its buffer's identity and the text it has buffered but not yet flushed.\<close>

record wstream =
  wrdbuf :: nat
  buffered :: string

text \<open>At start no static is initialised and nothing is written.\<close>

definition win_init :: win_state where
  "win_init = \<lparr>modes = rang_init, hStdout = None, hStderr = None, cout_ansi = None,
     cerr_ansi = None, defaultSgr = None, current_sgr = None, win_log = []\<rparr>"

section \<open>Colours and attributes\<close>

definition rev_table :: "AttrColor list" where
  "rev_table = [Attr_black, Attr_red, Attr_green, Attr_yellow, Attr_blue, Attr_magenta,
     Attr_cyan, Attr_gray]"

text \<open>\<open>rev[rgb]\<close> reads outside the table for \<open>rgb \<ge> 8\<close>: \<open>None\<close>.\<close>

definition ansi2attr :: "BYTE \<Rightarrow> BYTE option" where
  "ansi2attr rgb =
     (if unat rgb < length rev_table then Some (attr_val (rev_table ! unat rgb)) else None)"

text \<open>
  The overloads of \<open>setWinSGR\<close>. The argument \<open>d\<close> is \<open>defaultState()\<close>, which every call
  finds computed (\<open>current_state()\<close>, evaluated for the second argument, has computed it).
\<close>

definition setWinSGR_bg :: "sgr \<Rightarrow> bg \<Rightarrow> sgr \<Rightarrow> sgr option" where
  "setWinSGR_bg d col state =
     (if col \<noteq> Bg_reset then
        map_option (\<lambda>a. state\<lparr>bgColor := a\<rparr>) (ansi2attr (of_nat (bg_val col) - 40))
      else Some (state\<lparr>bgColor := bgColor d\<rparr>))"

definition setWinSGR_fg :: "sgr \<Rightarrow> fg \<Rightarrow> sgr \<Rightarrow> sgr option" where
  "setWinSGR_fg d col state =
     (if col \<noteq> Fg_reset then
        map_option (\<lambda>a. state\<lparr>fgColor := a\<rparr>) (ansi2attr (of_nat (fg_val col) - 30))
      else Some (state\<lparr>fgColor := fgColor d\<rparr>))"

definition setWinSGR_bgB :: "sgr \<Rightarrow> bgB \<Rightarrow> sgr \<Rightarrow> sgr option" where
  "setWinSGR_bgB d col state =
     map_option (\<lambda>a. state\<lparr>bgColor := drop_bit 4 BACKGROUND_INTENSITY OR a\<rparr>)
       (ansi2attr (of_nat (bgB_val col) - 100))"

definition setWinSGR_fgB :: "sgr \<Rightarrow> fgB \<Rightarrow> sgr \<Rightarrow> sgr option" where
  "setWinSGR_fgB d col state =
     map_option (\<lambda>a. state\<lparr>fgColor := FOREGROUND_INTENSITY OR a\<rparr>)
       (ansi2attr (of_nat (fgB_val col) - 90))"

fun setWinSGR_style :: "sgr \<Rightarrow> style \<Rightarrow> sgr \<Rightarrow> sgr option" where
  "setWinSGR_style d Style_reset state = Some d"
| "setWinSGR_style d Style_bold state = Some (state\<lparr>bold := FOREGROUND_INTENSITY\<rparr>)"
| "setWinSGR_style d Style_underline state = Some (state\<lparr>underline := BACKGROUND_INTENSITY\<rparr>)"
| "setWinSGR_style d Style_blink state = Some (state\<lparr>underline := BACKGROUND_INTENSITY\<rparr>)"
| "setWinSGR_style d Style_reversed state = Some (state\<lparr>inverse := True\<rparr>)"
| "setWinSGR_style d Style_conceal state = Some (state\<lparr>conceal := True\<rparr>)"
| "setWinSGR_style d _ state = Some state"

fun setWinSGR :: "sgr \<Rightarrow> std_value \<Rightarrow> sgr \<Rightarrow> sgr option" where
  "setWinSGR d (Style s) = setWinSGR_style d s"
| "setWinSGR d (Fg c) = setWinSGR_fg d c"
| "setWinSGR d (Bg c) = setWinSGR_bg d c"
| "setWinSGR d (FgB c) = setWinSGR_fgB d c"
| "setWinSGR d (BgB c) = setWinSGR_bgB d c"

definition SGR2Attr :: "sgr \<Rightarrow> WORD" where
  "SGR2Attr state =
     (let f = ucast (fgColor state); b = ucast (bgColor state) in
      if conceal state then
        if inverse state then
          (let attrib = push_bit 4 f OR f in
           if bold state \<noteq> 0 then attrib OR FOREGROUND_INTENSITY OR BACKGROUND_INTENSITY else attrib)
        else
          (let attrib = push_bit 4 b OR b in
           if underline state \<noteq> 0 then attrib OR FOREGROUND_INTENSITY OR BACKGROUND_INTENSITY
           else attrib)
      else if inverse state then
        (let attrib = push_bit 4 f OR b;
             attrib = (if bold state \<noteq> 0 then attrib OR BACKGROUND_INTENSITY else attrib)
         in if underline state \<noteq> 0 then attrib OR FOREGROUND_INTENSITY else attrib)
      else f OR push_bit 4 b OR ucast (bold state) OR ucast (underline state))"

section \<open>Console operations\<close>

definition wide :: "string \<Rightarrow> nat list" where
  "wide s = map of_char s"

definition isMsysPty :: "win_api \<Rightarrow> fd \<Rightarrow> bool" where
  "isMsysPty w fd =
     (if \<not> has_GetFileInformationByHandleEx w then False
      else (let h = osf_handle w fd in
        if h = INVALID_HANDLE_VALUE then False
        else if \<not> is_pipe w h then False
        else if \<not> new_succeeds w then False
        else (case file_name_info w h of
            None \<Rightarrow> False
          | Some (FileNameLength, FileName) \<Rightarrow>
              (let name = take (FileNameLength div 2) FileName in
               if (find_sub name (wide ''msys-'') = None \<and> find_sub name (wide ''cygwin-'') = None)
                  \<or> find_sub name (wide ''-pty'') = None
               then False else True))))"

definition getConsoleHandle :: "environ \<Rightarrow> win_api \<Rightarrow> nat \<Rightarrow> win_state \<Rightarrow> handle \<times> win_state" where
  "getConsoleHandle e w osbuf st =
     (if osbuf = cout_rdbuf e then
        (case hStdout st of Some h \<Rightarrow> (h, st)
         | None \<Rightarrow> (let h = GetStdHandle w STD_OUTPUT_HANDLE in (h, st\<lparr>hStdout := Some h\<rparr>)))
      else if osbuf = cerr_rdbuf e \<or> osbuf = clog_rdbuf e then
        (case hStderr st of Some h \<Rightarrow> (h, st)
         | None \<Rightarrow> (let h = GetStdHandle w STD_ERROR_HANDLE in (h, st\<lparr>hStderr := Some h\<rparr>)))
      else (INVALID_HANDLE_VALUE, st))"

definition setWinTermAnsiColors :: "environ \<Rightarrow> win_api \<Rightarrow> nat \<Rightarrow> win_state \<Rightarrow> bool \<times> win_state" where
  "setWinTermAnsiColors e w osbuf st =
     (case getConsoleHandle e w osbuf st of (h, st1) \<Rightarrow>
        if h = INVALID_HANDLE_VALUE then (False, st1)
        else (case GetConsoleMode w h of
            None \<Rightarrow> (False, st1)
          | Some dwMode \<Rightarrow>
              (let dwMode' = dwMode OR ENABLE_VIRTUAL_TERMINAL_PROCESSING in
               if \<not> SetConsoleMode w h dwMode' then (False, st1)
               else (True, st1\<lparr>win_log := win_log st1 @ [ConsoleModeSet h dwMode']\<rparr>))))"

definition supportsAnsi :: "environ \<Rightarrow> win_api \<Rightarrow> nat \<Rightarrow> win_state \<Rightarrow> bool \<times> win_state" where
  "supportsAnsi e w osbuf st =
     (if osbuf = cout_rdbuf e then
        (case cout_ansi st of Some b \<Rightarrow> (b, st)
         | None \<Rightarrow>
             (case (if isMsysPty w Fd_stdout then (True, st) else setWinTermAnsiColors e w osbuf st)
              of (b, st1) \<Rightarrow> (b, st1\<lparr>cout_ansi := Some b\<rparr>)))
      else if osbuf = cerr_rdbuf e \<or> osbuf = clog_rdbuf e then
        (case cerr_ansi st of Some b \<Rightarrow> (b, st)
         | None \<Rightarrow>
             (case (if isMsysPty w Fd_stderr then (True, st) else setWinTermAnsiColors e w osbuf st)
              of (b, st1) \<Rightarrow> (b, st1\<lparr>cerr_ansi := Some b\<rparr>)))
      else (False, st))"

definition default_attrib :: "win_api \<Rightarrow> WORD" where
  "default_attrib w =
     (case GetConsoleScreenBufferInfo w (GetStdHandle w STD_OUTPUT_HANDLE) of
        Some a \<Rightarrow> a
      | None \<Rightarrow>
          (case GetConsoleScreenBufferInfo w (GetStdHandle w STD_ERROR_HANDLE) of
             Some a \<Rightarrow> a
           | None \<Rightarrow> 4 OR 2 OR 1))"

definition sgr_of_attrib :: "WORD \<Rightarrow> sgr" where
  "sgr_of_attrib attrib =
     \<lparr>fgColor = ucast (attrib AND 0x0F), bgColor = ucast (drop_bit 4 (attrib AND 0xF0)),
      bold = 0, underline = 0, inverse = False, conceal = False\<rparr>"

definition defaultState :: "win_api \<Rightarrow> win_state \<Rightarrow> sgr \<times> win_state" where
  "defaultState w st =
     (case defaultSgr st of
        Some d \<Rightarrow> (d, st)
      | None \<Rightarrow> (let d = sgr_of_attrib (default_attrib w) in (d, st\<lparr>defaultSgr := Some d\<rparr>)))"

definition current_state :: "win_api \<Rightarrow> win_state \<Rightarrow> sgr \<times> win_state" where
  "current_state w st =
     (case current_sgr st of
        Some s \<Rightarrow> (s, st)
      | None \<Rightarrow> (case defaultState w st of (d, st1) \<Rightarrow> (d, st1\<lparr>current_sgr := Some d\<rparr>)))"

definition setWinColorAnsi :: "wstream \<Rightarrow> std_value \<Rightarrow> wstream" where
  "setWinColorAnsi os v = os\<lparr>buffered := buffered os @ escape_of (value_code v)\<rparr>"

text \<open>\<open>None\<close> is a read outside \<open>ansi2attr\<close>'s table.\<close>

definition setWinColorNative ::
  "environ \<Rightarrow> win_api \<Rightarrow> wstream \<Rightarrow> std_value \<Rightarrow> win_state \<Rightarrow> (wstream \<times> win_state) option" where
  "setWinColorNative e w os v st =
     (case getConsoleHandle e w (wrdbuf os) st of (h, st1) \<Rightarrow>
        if h = INVALID_HANDLE_VALUE then Some (os, st1)
        else
          (case current_state w st1 of (s, st2) \<Rightarrow>
           (case defaultState w st2 of (d, st3) \<Rightarrow>
            (case setWinSGR d v s of
               None \<Rightarrow> None
             | Some s' \<Rightarrow>
                 Some (os\<lparr>buffered := []\<rparr>,
                   st3\<lparr>current_sgr := Some s',
                       win_log := win_log st3 @
                         [Flush (buffered os), SetConsoleTextAttribute h (SGR2Attr s')]\<rparr>)))))"

definition win_setColor ::
  "environ \<Rightarrow> win_api \<Rightarrow> wstream \<Rightarrow> std_value \<Rightarrow> win_state \<Rightarrow> (wstream \<times> win_state) option" where
  "win_setColor e w os v st =
     (if winTermMode (modes st) = WinTerm_Auto then
        (case supportsAnsi e w (wrdbuf os) st of (b, st1) \<Rightarrow>
           if b then Some (setWinColorAnsi os v, st1) else setWinColorNative e w os v st1)
      else if winTermMode (modes st) = WinTerm_Ansi then Some (setWinColorAnsi os v, st)
      else setWinColorNative e w os v st)"

text \<open>\<open>supportsColor\<close> is the constant true on Windows; \<open>isTerminal\<close> also accepts an msys pipe.\<close>

definition win_isTerminal :: "environ \<Rightarrow> win_api \<Rightarrow> nat \<Rightarrow> rang_state \<Rightarrow> bool \<times> rang_state" where
  "win_isTerminal e w osbuf st =
     (if osbuf = cout_rdbuf e then
        (case cout_term st of Some b \<Rightarrow> (b, st)
         | None \<Rightarrow> (let b = isatty_stdout e \<or> isMsysPty w Fd_stdout
                   in (b, st\<lparr>cout_term := Some b\<rparr>)))
      else if osbuf = cerr_rdbuf e \<or> osbuf = clog_rdbuf e then
        (case cerr_term st of Some b \<Rightarrow> (b, st)
         | None \<Rightarrow> (let b = isatty_stderr e \<or> isMsysPty w Fd_stderr
                   in (b, st\<lparr>cerr_term := Some b\<rparr>)))
      else (False, st))"

definition win_put_value ::
  "environ \<Rightarrow> win_api \<Rightarrow> wstream \<Rightarrow> std_value \<Rightarrow> win_state \<Rightarrow> (wstream \<times> win_state) option" where
  "win_put_value e w os v st =
     (case controlMode (modes st) of
        Control_Auto \<Rightarrow>
          (case win_isTerminal e w (wrdbuf os) (modes st) of
             (b, m) \<Rightarrow> if b then win_setColor e w os v (st\<lparr>modes := m\<rparr>) else Some (os, st\<lparr>modes := m\<rparr>))
      | Control_Force \<Rightarrow> win_setColor e w os v st
      | Control_Off \<Rightarrow> Some (os, st))"

section \<open>Reference: attributes and the console\<close>

text \<open>A state the library can be in: nibbles for the colours, the two flags at their bits.\<close>

definition sgr_wf :: "sgr \<Rightarrow> bool" where
  "sgr_wf s \<longleftrightarrow> fgColor s < 16 \<and> bgColor s < 16 \<and>
     (bold s = 0 \<or> bold s = FOREGROUND_INTENSITY) \<and>
     (underline s = 0 \<or> underline s = BACKGROUND_INTENSITY)"

definition fg_nibble :: "WORD \<Rightarrow> WORD" where
  "fg_nibble a = a AND 0x0F"

definition bg_nibble :: "WORD \<Rightarrow> WORD" where
  "bg_nibble a = drop_bit 4 a AND 0x0F"

definition swap_nibbles :: "WORD \<Rightarrow> WORD" where
  "swap_nibbles a = push_bit 4 (fg_nibble a) OR bg_nibble a"

text \<open>
  What the comments of the structure \<open>SGR\<close> say of an attribute: the colours with their
  intensity bits (bold for the foreground, underline for the background), exchanged by
  \<open>inverse\<close>; concealed text has the background's on both sides (the foreground's when
  inverse). The pair is the low and the high nibble of the attribute.
\<close>

definition fg_part :: "sgr \<Rightarrow> WORD" where
  "fg_part s = ucast (fgColor s) OR (if bold s \<noteq> 0 then FOREGROUND_INTENSITY else 0)"

definition bg_part :: "sgr \<Rightarrow> WORD" where
  "bg_part s = ucast (bgColor s) OR (if underline s \<noteq> 0 then FOREGROUND_INTENSITY else 0)"

fun attr_spec :: "sgr \<Rightarrow> WORD \<times> WORD" where
  "attr_spec s =
     (if conceal s then (if inverse s then (fg_part s, fg_part s) else (bg_part s, bg_part s))
      else if inverse s then (bg_part s, fg_part s) else (fg_part s, bg_part s))"

text \<open>A sequence of values applied to a state; the first out-of-range read is \<open>None\<close>.\<close>

fun sgr_run :: "(sgr \<Rightarrow> 'v \<Rightarrow> sgr \<Rightarrow> sgr option) \<Rightarrow> sgr \<Rightarrow> 'v list \<Rightarrow> sgr \<Rightarrow> sgr option" where
  "sgr_run f d [] s = Some s"
| "sgr_run f d (v # vs) s = (case f d v s of None \<Rightarrow> None | Some s' \<Rightarrow> sgr_run f d vs s')"



section \<open>The contract of the setters\<close>

text \<open>
  The interface between \<open>setWinColorNative\<close> and the overloads of \<open>setWinSGR\<close>: applied to
  well-formed states, a setter never reads outside the colour table and its result is
  well-formed.
\<close>

locale sgr_setter =
  fixes put :: "sgr \<Rightarrow> 'v \<Rightarrow> sgr \<Rightarrow> sgr option"
  assumes put_wf: "sgr_wf d \<Longrightarrow> sgr_wf s \<Longrightarrow> \<exists>s'. put d v s = Some s' \<and> sgr_wf s'"
begin

lemma run_wf: "sgr_wf d \<Longrightarrow> sgr_wf s \<Longrightarrow> \<exists>s'. sgr_run put d vs s = Some s' \<and> sgr_wf s'"
proof (induction vs arbitrary: s)
  case Nil
  then show ?case by simp
next
  case (Cons v vs)
  then obtain s1 where "put d v s = Some s1" "sgr_wf s1" using put_wf by blast
  with Cons show ?case by simp
qed

end

lemma sgr_wf_intros:
  "fgColor s < 16 \<Longrightarrow> bgColor s < 16 \<Longrightarrow> bold s = 0 \<or> bold s = 8 \<Longrightarrow>
     underline s = 0 \<or> underline s = 0x80 \<Longrightarrow> sgr_wf s"
  by (simp add: sgr_wf_def)

interpretation style_setter: sgr_setter setWinSGR_style
proof
  fix d s v
  assume "sgr_wf d" "sgr_wf s"
  then show "\<exists>s'. setWinSGR_style d v s = Some s' \<and> sgr_wf s'"
    by (cases v) (auto simp: sgr_wf_def)
qed

interpretation fg_setter: sgr_setter setWinSGR_fg
proof
  fix d s v
  assume "sgr_wf d" "sgr_wf s"
  then show "\<exists>s'. setWinSGR_fg d v s = Some s' \<and> sgr_wf s'"
    by (cases v) (auto simp: sgr_wf_def setWinSGR_fg_def ansi2attr_def rev_table_def)
qed

interpretation bg_setter: sgr_setter setWinSGR_bg
proof
  fix d s v
  assume "sgr_wf d" "sgr_wf s"
  then show "\<exists>s'. setWinSGR_bg d v s = Some s' \<and> sgr_wf s'"
    by (cases v) (auto simp: sgr_wf_def setWinSGR_bg_def ansi2attr_def rev_table_def)
qed

interpretation fgB_setter: sgr_setter setWinSGR_fgB
proof
  fix d s v
  assume "sgr_wf d" "sgr_wf s"
  then show "\<exists>s'. setWinSGR_fgB d v s = Some s' \<and> sgr_wf s'"
    by (cases v) (auto simp: sgr_wf_def setWinSGR_fgB_def ansi2attr_def rev_table_def)
qed

interpretation bgB_setter: sgr_setter setWinSGR_bgB
proof
  fix d s v
  assume "sgr_wf d" "sgr_wf s"
  then show "\<exists>s'. setWinSGR_bgB d v s = Some s' \<and> sgr_wf s'"
    by (cases v) (auto simp: sgr_wf_def setWinSGR_bgB_def ansi2attr_def rev_table_def)
qed

text \<open>The template instance for each of the five types gives the setter of their union.\<close>

interpretation value_setter: sgr_setter setWinSGR
proof
  fix d s v
  assume "sgr_wf d" "sgr_wf s"
  then show "\<exists>s'. setWinSGR d v s = Some s' \<and> sgr_wf s'"
    by (cases v)
      (simp_all add: style_setter.put_wf fg_setter.put_wf bg_setter.put_wf fgB_setter.put_wf
        bgB_setter.put_wf)
qed

section \<open>Lemmas on attributes\<close>

lemma nibble_bit:
  assumes "(x :: BYTE) < 16" "bit x n"
  shows "n < 4"
proof -
  have "x AND mask 4 = x" using assms(1) by (intro less_mask_eq) simp
  then have "bit (x AND mask 4) n" using assms(2) by simp
  then show ?thesis by (simp add: bit_simps)
qed

lemma nib_ucast: "(x::BYTE) < 16 \<Longrightarrow> (ucast x :: WORD) < 16"
  by (simp add: word_less_nat_alt unsigned_ucast_eq take_bit_eq_mod)

lemma or8: "(x::WORD) < 16 \<Longrightarrow> x OR 8 < 16"
proof -
  assume "x < 16"
  then have "x AND mask 4 = x" by (intro less_mask_eq) simp
  moreover have "(8::WORD) AND mask 4 = 8" by (simp add: mask_eq_exp_minus_1)
  ultimately have "(x OR 8) AND mask 4 = x OR 8" by (metis bit.conj_disj_distrib2)
  moreover have "(x OR 8) AND mask 4 < (16::WORD)" using and_mask_less_size [of 4 "x OR 8"] by (simp add: word_size)
  ultimately show ?thesis by simp
qed

lemma parts_small: "sgr_wf s \<Longrightarrow> fg_part s < 16" "sgr_wf s \<Longrightarrow> bg_part s < 16"
  by (auto simp: fg_part_def bg_part_def sgr_wf_def nib_ucast or8)

lemma join_parts:
  fixes f b fi bi :: WORD
  assumes "push_bit 4 fi = bi"
  shows "(push_bit 4 f OR f) OR fi OR bi = push_bit 4 (f OR fi) OR (f OR fi)"
    and "((push_bit 4 f OR b) OR bi) OR fi = push_bit 4 (f OR fi) OR (b OR fi)"
    and "(push_bit 4 f OR b) OR bi = push_bit 4 (f OR fi) OR b"
    and "(push_bit 4 f OR b) OR fi = push_bit 4 f OR (b OR fi)"
    and "f OR push_bit 4 b OR fi OR bi = push_bit 4 (b OR fi) OR (f OR fi)"
    and "f OR push_bit 4 b OR fi OR 0 = push_bit 4 b OR (f OR fi)"
    and "f OR push_bit 4 b OR 0 OR bi = push_bit 4 (b OR fi) OR f"
    and "f OR push_bit 4 b OR 0 OR 0 = push_bit 4 b OR f"
  using assms by (simp_all add: push_bit_or or.assoc or.commute or.left_commute)

lemma SGR2Attr_join:
  assumes "sgr_wf s" "attr_spec s = (lo, hi)"
  shows "SGR2Attr s = push_bit 4 hi OR lo"
proof -
  have p: "push_bit 4 8 = (0x80 :: WORD)" by simp
  have u: "ucast (0::BYTE) = (0::WORD)" "ucast (8::BYTE) = (8::WORD)" "ucast (0x80::BYTE) = (0x80::WORD)"
    "(8::BYTE) \<noteq> 0" "(0x80::BYTE) \<noteq> 0"
    by simp_all
  have f: "bold s = 0 \<or> bold s = 8" "underline s = 0 \<or> underline s = 0x80"
    using assms(1) by (simp_all add: sgr_wf_def)
  have lh: "lo = fst (attr_spec s)" "hi = snd (attr_spec s)" using assms(2) by simp_all
  have z: "x OR 0 = x" for x :: WORD by simp
  show ?thesis unfolding lh using f
    by (cases "conceal s"; cases "inverse s"; elim disjE)
      (simp_all only: SGR2Attr_def Let_def fg_part_def bg_part_def attr_spec.simps u if_True if_False
        fst_conv snd_conv not_True_eq_False not_False_eq_True simp_thms z join_parts(1-4) [OF p]
        join_parts(5-8) [OF p, unfolded z])
qed

lemma and15: "x < (16::WORD) \<Longrightarrow> x AND 15 = x"
  using less_mask_eq [of x 4] by (simp add: mask_eq_exp_minus_1)

lemma nib: assumes "lo < (16::WORD)" "hi < (16::WORD)"
  shows "fg_nibble (push_bit 4 hi OR lo) = lo" "bg_nibble (push_bit 4 hi OR lo) = hi"
proof -
  have l: "lo AND 15 = lo" and h: "hi AND 15 = hi" using assms and15 by auto
  have m: "(15::WORD) = mask 4" by (simp add: mask_eq_exp_minus_1)
  have "push_bit 4 hi AND (15::WORD) = 0"
    unfolding m by (rule bit_word_eqI) (auto simp: bit_simps)
  then show "fg_nibble (push_bit 4 hi OR lo) = lo" using l by (simp add: fg_nibble_def bit.conj_disj_distrib2)
  have "drop_bit 4 (push_bit 4 hi) AND 15 = hi AND (15::WORD)"
    unfolding m by (rule bit_word_eqI) (auto simp: bit_simps)
  moreover have "drop_bit 4 lo = 0"
    using assms(1) by (intro word_unat_eq_iff [THEN iffD2]) (simp add: unat_drop_bit_eq drop_bit_eq_div word_less_nat_alt unat_div)
  ultimately show "bg_nibble (push_bit 4 hi OR lo) = hi" using h by (simp add: bg_nibble_def drop_bit_or)
qed
lemma WORD_and_15_small: "(x :: WORD) AND 15 < 16"
  using and_mask_less_size [of 4 x] by (simp add: mask_eq_exp_minus_1 word_size)

lemma BYTE_of_nibble: "(x :: WORD) < 16 \<Longrightarrow> (ucast x :: BYTE) < 16"
  by (simp add: word_less_nat_alt unsigned_ucast_eq take_bit_eq_mod)

lemma sgr_of_attrib_wf: "sgr_wf (sgr_of_attrib a)"
proof -
  have "drop_bit 4 (a AND 0xF0) = drop_bit 4 a AND (15 :: WORD)" by (simp add: drop_bit_and)
  then show ?thesis
    by (simp add: sgr_wf_def sgr_of_attrib_def BYTE_of_nibble WORD_and_15_small)
qed

lemma SGR2Attr_nibbles:
  assumes "sgr_wf s"
  shows "fg_nibble (SGR2Attr s) = fst (attr_spec s)" "bg_nibble (SGR2Attr s) = snd (attr_spec s)"
    "SGR2Attr s = push_bit 4 (snd (attr_spec s)) OR fst (attr_spec s)"
proof -
  obtain lo hi where a: "attr_spec s = (lo, hi)" by (cases "attr_spec s")
  have "lo < 16" "hi < 16" using a parts_small [OF assms] by (auto split: if_splits)
  then show "fg_nibble (SGR2Attr s) = fst (attr_spec s)" "bg_nibble (SGR2Attr s) = snd (attr_spec s)"
    using SGR2Attr_join [OF assms a] nib [of lo hi] by (simp_all only: a fst_conv snd_conv)
  show "SGR2Attr s = push_bit 4 (snd (attr_spec s)) OR fst (attr_spec s)"
    using SGR2Attr_join [OF assms a] by (simp only: a fst_conv snd_conv)
qed

section \<open>Lemmas on the console\<close>

text \<open>The cached default and current states are well-formed.\<close>

definition win_inv :: "win_state \<Rightarrow> bool" where
  "win_inv st \<longleftrightarrow> pred_option sgr_wf (defaultSgr st) \<and> pred_option sgr_wf (current_sgr st)"

fun win_put_values ::
  "(environ \<times> win_api \<times> std_value) list \<Rightarrow> wstream \<Rightarrow> win_state \<Rightarrow> (wstream \<times> win_state) option" where
  "win_put_values [] os st = Some (os, st)"
| "win_put_values ((e, w, v) # vs) os st =
     (case win_put_value e w os v st of None \<Rightarrow> None | Some (os', st') \<Rightarrow> win_put_values vs os' st')"

lemma getConsoleHandle_frame:
  "getConsoleHandle e w n st = (h, st') \<Longrightarrow>
     defaultSgr st' = defaultSgr st \<and> current_sgr st' = current_sgr st \<and> win_log st' = win_log st"
  by (auto simp: getConsoleHandle_def Let_def split: if_splits option.splits)

lemma defaultState_inv:
  assumes "defaultState w st = (d, st')" "win_inv st"
  shows "sgr_wf d \<and> win_inv st' \<and> win_log st' = win_log st"
  using assms by (auto simp: defaultState_def Let_def win_inv_def sgr_of_attrib_wf split: option.splits)

lemma current_state_inv:
  assumes "current_state w st = (s, st')" "win_inv st"
  shows "sgr_wf s \<and> win_inv st' \<and> win_log st' = win_log st"
proof (cases "current_sgr st")
  case None
  obtain d st1 where d: "defaultState w st = (d, st1)" by (cases "defaultState w st")
  from defaultState_inv [OF this assms(2)] show ?thesis
    using assms d None by (auto simp: current_state_def win_inv_def)
next
  case (Some a)
  then show ?thesis using assms by (auto simp: current_state_def win_inv_def)
qed

lemma setWinColorNative_step:
  assumes "win_inv st"
  obtains (invalid) st1 where "getConsoleHandle e w (wrdbuf os) st = (INVALID_HANDLE_VALUE, st1)"
      "setWinColorNative e w os v st = Some (os, st1)" "win_inv st1" "win_log st1 = win_log st"
    | (written) h s' st1 where "fst (getConsoleHandle e w (wrdbuf os) st) = h"
      "h \<noteq> INVALID_HANDLE_VALUE" "sgr_wf s'" "win_inv st1" "current_sgr st1 = Some s'"
      "setWinColorNative e w os v st = Some (os\<lparr>buffered := []\<rparr>, st1)"
      "win_log st1 = win_log st @ [Flush (buffered os), SetConsoleTextAttribute h (SGR2Attr s')]"
proof -
  obtain h st1 where h: "getConsoleHandle e w (wrdbuf os) st = (h, st1)"
    by (cases "getConsoleHandle e w (wrdbuf os) st")
  from getConsoleHandle_frame [OF this] assms
  have i1: "win_inv st1" and l1: "win_log st1 = win_log st" by (simp_all add: win_inv_def)
  show thesis
  proof (cases "h = INVALID_HANDLE_VALUE")
    case True
    with h i1 l1 show thesis by (intro invalid [of st1]) (simp_all add: setWinColorNative_def)
  next
    case False
    obtain s st2 where s: "current_state w st1 = (s, st2)" by (cases "current_state w st1")
    from current_state_inv [OF this i1] have i2: "win_inv st2" "sgr_wf s" "win_log st2 = win_log st"
      using l1 by simp_all
    obtain d st3 where d: "defaultState w st2 = (d, st3)" by (cases "defaultState w st2")
    from defaultState_inv [OF this i2(1)] have i3: "win_inv st3" "sgr_wf d" "win_log st3 = win_log st"
      using i2(3) by simp_all
    from value_setter.put_wf [OF i3(2) i2(2)] obtain s' where s': "setWinSGR d v s = Some s'" "sgr_wf s'"
      by blast
    show thesis
      by (rule written [of h s' "st3\<lparr>current_sgr := Some s',
            win_log := win_log st3 @ [Flush (buffered os), SetConsoleTextAttribute h (SGR2Attr s')]\<rparr>"])
        (use h False s d s' i3 in \<open>simp_all add: setWinColorNative_def win_inv_def\<close>)
  qed
qed

lemma setWinColorNative_inv:
  assumes "win_inv st"
  shows "\<exists>os' st'. setWinColorNative e w os v st = Some (os', st') \<and> win_inv st'"
  using assms by (rule setWinColorNative_step [of st e w os v]) auto

lemma setWinTermAnsiColors_inv:
  "setWinTermAnsiColors e w n st = (b, st') \<Longrightarrow> win_inv st \<Longrightarrow> win_inv st'"
  using getConsoleHandle_frame [of e w n st]
  by (auto simp: setWinTermAnsiColors_def Let_def win_inv_def split: prod.splits if_splits option.splits)

lemma supportsAnsi_inv:
  "supportsAnsi e w n st = (b, st') \<Longrightarrow> win_inv st \<Longrightarrow> win_inv st'"
  using setWinTermAnsiColors_inv [of e w n st]
  by (auto simp: supportsAnsi_def win_inv_def split: prod.splits if_splits option.splits)

lemma win_setColor_inv:
  assumes "win_inv st"
  shows "\<exists>os' st'. win_setColor e w os v st = Some (os', st') \<and> win_inv st'"
  using assms supportsAnsi_inv [of e w "wrdbuf os" st]
  by (auto simp: win_setColor_def setWinColorNative_inv split: prod.splits)

lemma win_put_value_inv:
  assumes "win_inv st"
  shows "\<exists>os' st'. win_put_value e w os v st = Some (os', st') \<and> win_inv st'"
  using assms
  by (auto simp: win_put_value_def win_inv_def win_setColor_inv [unfolded win_inv_def]
      split: prod.splits control.splits)



text \<open>A console for the witnesses: a native one, grey on black.\<close>

definition sample_environ :: environ where
  "sample_environ = \<lparr>getenv_TERM = None, isatty_stdout = True, isatty_stderr = True,
     cout_rdbuf = 0, cerr_rdbuf = 1, clog_rdbuf = 2\<rparr>"

definition sample_api :: win_api where
  "sample_api = \<lparr>GetStdHandle = (\<lambda>_. Handle 1), GetConsoleMode = (\<lambda>_. None),
     SetConsoleMode = (\<lambda>_ _. False), GetConsoleScreenBufferInfo = (\<lambda>_. Some 7),
     has_GetFileInformationByHandleEx = False, osf_handle = (\<lambda>_. Handle 1),
     is_pipe = (\<lambda>_. False), new_succeeds = True, file_name_info = (\<lambda>_. None)\<rparr>"

lemma win_inv_init: "win_inv win_init"
  by (simp add: win_inv_def win_init_def)

section \<open>Properties\<close>

text \<open>
  C10: the attribute of every well-formed state has the documented meaning: its low nibble is the
  foreground with the bold bit and its high nibble the background with the underline bit,
  exchanged when inverse; concealed text has equal nibbles; no bit above the eighth is set.
\<close>

theorem SGR2Attr_meaning:
  assumes "sgr_wf s"
  shows "fg_nibble (SGR2Attr s) = fst (attr_spec s) \<and> bg_nibble (SGR2Attr s) = snd (attr_spec s) \<and>
    SGR2Attr s = push_bit 4 (bg_nibble (SGR2Attr s)) OR fg_nibble (SGR2Attr s)"
  using SGR2Attr_nibbles [OF assms] by simp

theorem SGR2Attr_meaning_witness:
  "bg_nibble (SGR2Attr \<lparr>fgColor = 4, bgColor = 1, bold = 8, underline = 0, inverse = True,
     conceal = False\<rparr>) = 12"
  using SGR2Attr_meaning [of "\<lparr>fgColor = 4, bgColor = 1, bold = 8, underline = 0, inverse = True,
     conceal = False\<rparr>"]
  by (simp add: sgr_wf_def fg_part_def bg_part_def)

text \<open>
  C22: whatever the values, the streams' buffers and the answers of the operating system, a
  sequence of values on Windows never reads outside the colour table, and it keeps the cached
  states well-formed.
\<close>

theorem win_put_values_safe:
  assumes "win_inv st"
  shows "\<exists>os' st'. win_put_values vs os st = Some (os', st') \<and> win_inv st'"
  using assms
proof (induction vs arbitrary: os st)
  case Nil
  then show ?case by simp
next
  case (Cons p vs)
  obtain e w v where p: "p = (e, w, v)" by (cases p)
  from win_put_value_inv [OF Cons.prems] obtain os1 st1
    where "win_put_value e w os v st = Some (os1, st1)" "win_inv st1" by blast
  with Cons.IH p show ?case by simp
qed

theorem win_put_values_safe_witness:
  "\<exists>os' st'. win_put_values
     [(sample_environ, sample_api, Fg Fg_cyan), (sample_environ, sample_api, BgB BgB_red),
      (sample_environ, sample_api, Style Style_reset)]
     \<lparr>wrdbuf = 0, buffered = ''x''\<rparr> win_init = Some (os', st') \<and> win_inv st'"
  by (rule win_put_values_safe [OF win_inv_init])



text \<open>
  \<open>ansi2attr\<close> exchanges the red and the blue bit of an ANSI colour and keeps the green one,
  for the eight colours, and is undefined on every other byte.
\<close>

theorem ansi2attr_swaps_red_blue:
  "(case ansi2attr c of
      None \<Rightarrow> 8 \<le> c
    | Some a \<Rightarrow> c < 8 \<and> a < 8 \<and> (\<forall>n < 3. bit a n = bit c (2 - n)))"
proof (cases "unat c < 8")
  case True
  then have "unat c \<in> {0, 1, 2, 3, 4, 5, 6, 7}" by auto
  then have c: "c = 0 \<or> c = 1 \<or> c = 2 \<or> c = 3 \<or> c = 4 \<or> c = 5 \<or> c = 6 \<or> c = 7"
    by (simp add: word_unat_eq_iff)
  have "(\<forall>n < 3. P n) \<longleftrightarrow> P 0 \<and> P 1 \<and> P (2 :: nat)" for P
    by (auto simp: numeral_3_eq_3 numeral_2_eq_2 less_Suc_eq)
  with c show ?thesis
    by (elim disjE) (simp_all add: ansi2attr_def rev_table_def)
next
  case False
  then show ?thesis by (simp add: ansi2attr_def rev_table_def word_le_nat_alt)
qed

end
