(* ===== verification/Printing.thy ===== *)
theory Printing
  imports Prelude
begin

text \<open>
  \<open>asio/learn_asio/print.hpp\<close>: the generic printer. \<open>print_to\<close> chooses a branch at compile time
  from the properties of the argument's type (the concepts of the header); the types the branches
  are for are the constructors of \<open>cval\<close>. The output stream is the text written so far.
  The rendering of floating point numbers by \<open>operator<<\<close> is an argument, \<open>fl\<close>.
  \<open>asio/tests/test_print.cpp\<close> adds a custom printer and a formatter, modelled at the end.
\<close>

section \<open>Types and their concepts\<close>

text \<open>
  What the chain of \<open>if constexpr\<close> asks of a type \<open>T\<close>, in the order of the chain.
\<close>

record traits =
  convertible_to_string_view :: bool
  integral :: bool
  same_as_bool :: bool
  floating_point :: bool
  is_mappable_v :: bool
  is_iterable_v :: bool
  is_variant_v :: bool
  is_optional_v :: bool
  same_as_nullopt :: bool
  is_tuple_v :: bool
  has_printer_print_v :: bool

datatype branch = Quoted | Plain | Boolean | Mapping | Iterable | Variant | Optional | Nullopt
  | Tuple | Custom | Unprintable

definition print_branch :: "traits \<Rightarrow> branch" where
  "print_branch t =
     (if convertible_to_string_view t then Quoted
      else if (integral t \<and> \<not> same_as_bool t) \<or> floating_point t then Plain
      else if same_as_bool t then Boolean
      else if is_mappable_v t then Mapping
      else if is_iterable_v t then Iterable
      else if is_variant_v t then Variant
      else if is_optional_v t then Optional
      else if same_as_nullopt t then Nullopt
      else if is_tuple_v t then Tuple
      else if has_printer_print_v t then Custom
      else Unprintable)"

text \<open>
  Values by the kind of their type: text (\<open>const char *\<close>, \<open>std::string\<close>, \<open>std::string_view\<close>),
  characters and other integers, booleans, floating point numbers, maps, sequences
  (\<open>vector\<close>, \<open>list\<close>, \<open>set\<close>), \<open>std::array\<close>, variants (\<open>None\<close>: valueless by exception),
  optionals, \<open>nullopt\<close>, tuples and pairs, types with a \<open>print_custom::printer\<close> (which writes
  literal text and prints values), and types with none of these, by their name.
\<close>

datatype 'f cval =
    CStr string
  | CChar char
  | CInt int
  | CBool bool
  | CFloat 'f
  | CMap "('f cval \<times> 'f cval) list"
  | CSeq "'f cval list"
  | CArray "'f cval list"
  | CVariant "'f cval option"
  | COptional "'f cval option"
  | CNullopt
  | CTuple "'f cval list"
  | CCustom "(string + 'f cval) list"
  | COther string

definition no_traits :: traits where
  "no_traits = \<lparr>convertible_to_string_view = False, integral = False, same_as_bool = False,
     floating_point = False, is_mappable_v = False, is_iterable_v = False, is_variant_v = False,
     is_optional_v = False, same_as_nullopt = False, is_tuple_v = False,
     has_printer_print_v = False\<rparr>"

text \<open>
  The concepts these types satisfy. A string is iterable too, a map is iterable too, and
  \<open>std::tuple_size\<close> is defined for \<open>std::array\<close> too: the order of the chain decides.
\<close>

fun traits_of :: "'f cval \<Rightarrow> traits" where
  "traits_of (CStr s) = no_traits\<lparr>convertible_to_string_view := True, is_iterable_v := True\<rparr>"
| "traits_of (CChar c) = no_traits\<lparr>integral := True\<rparr>"
| "traits_of (CInt i) = no_traits\<lparr>integral := True\<rparr>"
| "traits_of (CBool b) = no_traits\<lparr>integral := True, same_as_bool := True\<rparr>"
| "traits_of (CFloat f) = no_traits\<lparr>floating_point := True\<rparr>"
| "traits_of (CMap m) = no_traits\<lparr>is_mappable_v := True, is_iterable_v := True\<rparr>"
| "traits_of (CSeq xs) = no_traits\<lparr>is_iterable_v := True\<rparr>"
| "traits_of (CArray xs) = no_traits\<lparr>is_iterable_v := True, is_tuple_v := True\<rparr>"
| "traits_of (CVariant v) = no_traits\<lparr>is_variant_v := True\<rparr>"
| "traits_of (COptional v) = no_traits\<lparr>is_optional_v := True\<rparr>"
| "traits_of CNullopt = no_traits\<lparr>same_as_nullopt := True\<rparr>"
| "traits_of (CTuple xs) = no_traits\<lparr>is_tuple_v := True\<rparr>"
| "traits_of (CCustom ps) = no_traits\<lparr>has_printer_print_v := True\<rparr>"
| "traits_of (COther n) = no_traits"

section \<open>Printing\<close>

datatype print_error = bad_variant_access

type_synonym 'a printing = "(string, print_error, 'a) action"

definition put :: "string \<Rightarrow> unit printing" where
  "put s = modify (\<lambda>out. out @ s)"

function (sequential) print_to :: "('f \<Rightarrow> string) \<Rightarrow> 'f cval \<Rightarrow> unit printing"
  and print_elems :: "('f \<Rightarrow> string) \<Rightarrow> bool \<Rightarrow> 'f cval list \<Rightarrow> unit printing"
  and print_pairs :: "('f \<Rightarrow> string) \<Rightarrow> bool \<Rightarrow> ('f cval \<times> 'f cval) list \<Rightarrow> unit printing"
  and print_pieces :: "('f \<Rightarrow> string) \<Rightarrow> (string + 'f cval) list \<Rightarrow> unit printing" where
  "print_to fl (CStr s) = put (''\"'' @ s @ ''\"'')"
| "print_to fl (CChar c) = put [c]"
| "print_to fl (CInt i) = put (dec_int i)"
| "print_to fl (CFloat f) = put (fl f)"
| "print_to fl (CBool b) = put (if b then ''true'' else ''false'')"
| "print_to fl (CMap m) =
     seq (put ''{'') (\<lambda>_. seq (print_pairs fl True m) (\<lambda>_. put ''}''))"
| "print_to fl (CSeq xs) =
     seq (put ''['') (\<lambda>_. seq (print_elems fl True xs) (\<lambda>_. put '']''))"
| "print_to fl (CArray xs) =
     seq (put ''['') (\<lambda>_. seq (print_elems fl True xs) (\<lambda>_. put '']''))"
| "print_to fl (CVariant None) = raise bad_variant_access"
| "print_to fl (CVariant (Some v)) = print_to fl v"
| "print_to fl (COptional (Some v)) = print_to fl v"
| "print_to fl (COptional None) = put ''nullopt''"
| "print_to fl CNullopt = put ''nullopt''"
| "print_to fl (CTuple xs) =
     seq (put ''('') (\<lambda>_. seq (print_elems fl True xs) (\<lambda>_. put '')''))"
| "print_to fl (CCustom ps) = print_pieces fl ps"
| "print_to fl (COther n) = put (''unprintable type '' @ n)"
| "print_elems fl first [] = ret ()"
| "print_elems fl first (x # xs) =
     seq (if first then ret () else put '', '') (\<lambda>_.
     seq (print_to fl x) (\<lambda>_. print_elems fl False xs))"
| "print_pairs fl first [] = ret ()"
| "print_pairs fl first ((k, v) # m) =
     seq (if first then ret () else put '', '') (\<lambda>_.
     seq (seq (print_to fl k) (\<lambda>_. seq (put '': '') (\<lambda>_. print_to fl v)))
       (\<lambda>_. print_pairs fl False m))"
| "print_pieces fl [] = ret ()"
| "print_pieces fl (Inl s # ps) = seq (put s) (\<lambda>_. print_pieces fl ps)"
| "print_pieces fl (Inr v # ps) = seq (print_to fl v) (\<lambda>_. print_pieces fl ps)"
  by pat_completeness auto

termination
  by (relation "measure (case_sum
        (case_sum (\<lambda>(fl, v). size v) (\<lambda>(fl, b, xs). size_list size xs))
        (case_sum (\<lambda>(fl, b, m). size_list (size_prod size size) m)
                  (\<lambda>(fl, ps). size_list (size_sum (\<lambda>_. 0) size) ps)))") auto

text \<open>\<open>print(t, ts...)\<close> on \<open>std::cout\<close>, and \<open>P(t)\<close>, which prints to a string stream.\<close>

fun print_rest :: "('f \<Rightarrow> string) \<Rightarrow> bool \<Rightarrow> 'f cval list \<Rightarrow> unit printing" where
  "print_rest fl first [] = ret ()"
| "print_rest fl first (t # ts) =
     seq (if first then ret () else put '' '') (\<lambda>_.
     seq (print_to fl t) (\<lambda>_. print_rest fl False ts))"

definition print :: "('f \<Rightarrow> string) \<Rightarrow> 'f cval \<Rightarrow> 'f cval list \<Rightarrow> unit printing" where
  "print fl t ts =
     seq (print_to fl t) (\<lambda>_. seq (print_rest fl False ts) (\<lambda>_. put [CHR 0x0A]))"

definition P_text :: "('f \<Rightarrow> string) \<Rightarrow> 'f cval \<Rightarrow> print_error + string" where
  "P_text fl t = (case print_to fl t [] of (Inl e, _) \<Rightarrow> Inl e | (Inr _, s) \<Rightarrow> Inr s)"

section \<open>Type names\<close>

text \<open>
  \<open>name_of\<close> cuts the type's name out of \<open>__PRETTY_FUNCTION__\<close>. Positions are \<open>size_t\<close>: a failed
  search is \<open>npos\<close>, and adding 2 to it wraps around. \<open>substr\<close> throws \<open>out_of_range\<close>
  (\<open>None\<close>) beyond the end.
\<close>

definition npos :: "64 word" where
  "npos = - 1"

definition find_first_of :: "char \<Rightarrow> string \<Rightarrow> 64 word" where
  "find_first_of c s = (case find_char c s of None \<Rightarrow> npos | Some i \<Rightarrow> of_nat i)"

definition find_last_of :: "char \<Rightarrow> string \<Rightarrow> 64 word" where
  "find_last_of c s =
     (case find_char c (rev s) of None \<Rightarrow> npos | Some i \<Rightarrow> of_nat (length s - 1 - i))"

definition substr :: "64 word \<Rightarrow> 64 word \<Rightarrow> string \<Rightarrow> string option" where
  "substr pos n s = (if length s < unat pos then None else Some (take (unat n) (drop (unat pos) s)))"

definition name_of_clang :: "string \<Rightarrow> string option" where
  "name_of_clang pretty =
     Option.bind (substr (find_last_of CHR ''='' pretty + 2) npos pretty)
       (\<lambda>sv. substr 0 (of_nat (length sv) - 1) sv)"

definition name_of_gcc :: "string \<Rightarrow> string option" where
  "name_of_gcc pretty =
     Option.bind (substr (find_first_of CHR ''='' pretty + 2) npos pretty)
       (\<lambda>sv. substr 0 (find_first_of CHR '';'' sv) sv)"

section \<open>The additions of test_print.cpp\<close>

record Person =
  name :: string
  age :: int

definition person_pieces :: "Person \<Rightarrow> (string + 'f cval) list" where
  "person_pieces p = [Inl ''{'', Inr (CStr (name p)), Inl '', '', Inr (CInt (age p)), Inl ''}'']"

text \<open>
  \<open>std::formatter<std::vector<T>>::format\<close>: \<open>item\<close> is what \<open>std::format("{}", item)\<close> gives.
\<close>

fun format_items :: "('a \<Rightarrow> string) \<Rightarrow> bool \<Rightarrow> 'a list \<Rightarrow> unit printing" where
  "format_items item first [] = ret ()"
| "format_items item first (x # xs) =
     seq (if first then ret () else put '', '') (\<lambda>_.
     seq (put (item x)) (\<lambda>_. format_items item False xs))"

definition format_vector :: "('a \<Rightarrow> string) \<Rightarrow> 'a list \<Rightarrow> string" where
  "format_vector item xs = ''['' @ snd (format_items item True xs []) @ '']''"

section \<open>Separated loops\<close>

text \<open>
  Every loop of the printer writes a separator between elements, with a flag for the first one.
  \<open>print_elems\<close>, \<open>print_pairs\<close>, the pack of \<open>print\<close> and the loop of the \<open>std::formatter\<close> are
  instances, so the facts about them are proved once.
\<close>

locale separated_loop =
  fixes sep :: string
    and elem :: "'a \<Rightarrow> unit printing"
    and loop :: "bool \<Rightarrow> 'a list \<Rightarrow> unit printing"
  assumes loop_Nil: "loop first [] = ret ()"
    and loop_Cons: "loop first (x # xs) =
      seq (if first then ret () else put sep) (\<lambda>_. seq (elem x) (\<lambda>_. loop False xs))"
begin

definition lead :: "bool \<Rightarrow> 'a list \<Rightarrow> string" where
  "lead first xs = (if first \<or> xs = [] then [] else sep)"

lemma loop_writes:
  assumes "\<And>x out. x \<in> set xs \<Longrightarrow> elem x out = (Inr (), out @ t x)"
  shows "loop first xs out = (Inr (), out @ lead first xs @ join sep (map t xs))"
  using assms
proof (induction xs arbitrary: first out)
  case Nil
  then show ?case by (simp add: loop_Nil lead_def)
next
  case (Cons x xs)
  have e: "elem x out' = (Inr (), out' @ t x)" for out' by (simp add: Cons.prems)
  have r: "loop False xs out' = (Inr (), out' @ lead False xs @ join sep (map t xs))" for out'
    using Cons by simp
  show ?case
    by (cases first; cases "xs = []") (simp_all add: loop_Nil loop_Cons put_def e r lead_def join_Cons)
qed

lemma loop_fails:
  assumes ok: "\<And>x out. x \<in> set ys \<Longrightarrow> elem x out = (Inr (), out @ t x)"
    and fail: "\<And>out. \<exists>s. elem y out = (Inl e, out @ s)"
  shows "\<exists>s. loop first (ys @ y # zs) out = (Inl e, out @ s)"
  using ok
proof (induction ys arbitrary: first out)
  case Nil
  obtain s where "elem y (if first then out else out @ sep) = (Inl e, (if first then out else out @ sep) @ s)"
    using fail by blast
  then show ?case by (cases first) (simp_all add: loop_Cons put_def)
next
  case (Cons x ys)
  have e: "elem x out' = (Inr (), out' @ t x)" for out' by (simp add: Cons.prems)
  have r: "\<exists>s. loop False (ys @ y # zs) out' = (Inl e, out' @ s)" for out'
    using Cons by simp
  let ?o = "(if first then out else out @ sep) @ t x"
  obtain s where s: "loop False (ys @ y # zs) ?o = (Inl e, ?o @ s)"
    using r by blast
  have "loop first ((x # ys) @ y # zs) out = loop False (ys @ y # zs) ?o"
    by (cases first) (simp_all add: loop_Cons put_def e)
  then show ?case using s by auto
qed

end

interpretation elems: separated_loop "'', ''" "print_to fl" "print_elems fl" for fl
  by unfold_locales simp_all

definition print_pair :: "('f \<Rightarrow> string) \<Rightarrow> 'f cval \<times> 'f cval \<Rightarrow> unit printing" where
  "print_pair fl p = seq (print_to fl (fst p)) (\<lambda>_. seq (put '': '') (\<lambda>_. print_to fl (snd p)))"

interpretation pairs: separated_loop "'', ''" "print_pair fl" "print_pairs fl" for fl
proof unfold_locales
  show "print_pairs fl first (x # xs) = seq (if first then ret () else put '', '')
      (\<lambda>_. seq (print_pair fl x) (\<lambda>_. print_pairs fl False xs))" for first x xs
    by (cases x) (simp add: print_pair_def)
qed simp

interpretation rest: separated_loop "'' ''" "print_to fl" "print_rest fl" for fl
  by unfold_locales simp_all

interpretation items: separated_loop "'', ''" "\<lambda>x. put (item x)" "format_items item" for item
  by unfold_locales simp_all

section \<open>What is printed\<close>

text \<open>The text of a value, and whether printing it meets a variant without a value.\<close>

fun rendering :: "('f \<Rightarrow> string) \<Rightarrow> 'f cval \<Rightarrow> string" where
  "rendering fl (CStr s) = ''\"'' @ s @ ''\"''"
| "rendering fl (CChar c) = [c]"
| "rendering fl (CInt i) = dec_int i"
| "rendering fl (CBool b) = (if b then ''true'' else ''false'')"
| "rendering fl (CFloat f) = fl f"
| "rendering fl (CMap m) =
     ''{'' @ join '', '' (map (\<lambda>(k, v). rendering fl k @ '': '' @ rendering fl v) m) @ ''}''"
| "rendering fl (CSeq xs) = ''['' @ join '', '' (map (rendering fl) xs) @ '']''"
| "rendering fl (CArray xs) = ''['' @ join '', '' (map (rendering fl) xs) @ '']''"
| "rendering fl (CVariant v) = (case v of None \<Rightarrow> [] | Some x \<Rightarrow> rendering fl x)"
| "rendering fl (COptional v) = (case v of None \<Rightarrow> ''nullopt'' | Some x \<Rightarrow> rendering fl x)"
| "rendering fl CNullopt = ''nullopt''"
| "rendering fl (CTuple xs) = ''('' @ join '', '' (map (rendering fl) xs) @ '')''"
| "rendering fl (CCustom ps) =
     concat (map (\<lambda>p. case p of Inl s \<Rightarrow> s | Inr v \<Rightarrow> rendering fl v) ps)"
| "rendering fl (COther n) = ''unprintable type '' @ n"

fun valueless :: "'f cval \<Rightarrow> bool" where
  "valueless (CMap m) \<longleftrightarrow> list_ex (\<lambda>(k, v). valueless k \<or> valueless v) m"
| "valueless (CSeq xs) \<longleftrightarrow> list_ex valueless xs"
| "valueless (CArray xs) \<longleftrightarrow> list_ex valueless xs"
| "valueless (CVariant v) \<longleftrightarrow> (case v of None \<Rightarrow> True | Some x \<Rightarrow> valueless x)"
| "valueless (COptional v) \<longleftrightarrow> (case v of None \<Rightarrow> False | Some x \<Rightarrow> valueless x)"
| "valueless (CTuple xs) \<longleftrightarrow> list_ex valueless xs"
| "valueless (CCustom ps) \<longleftrightarrow> list_ex (\<lambda>p. case p of Inl s \<Rightarrow> False | Inr v \<Rightarrow> valueless v) ps"
| "valueless _ \<longleftrightarrow> False"

lemma print_pieces_writes:
  assumes "\<And>v out. Inr v \<in> set ps \<Longrightarrow> print_to fl v out = (Inr (), out @ rendering fl v)"
  shows "print_pieces fl ps out =
    (Inr (), out @ concat (map (\<lambda>p. case p of Inl s \<Rightarrow> s | Inr v \<Rightarrow> rendering fl v) ps))"
  using assms
proof (induction ps arbitrary: out)
  case Nil
  then show ?case by simp
next
  case (Cons p ps)
  then show ?case by (cases p) (simp_all add: put_def)
qed

lemma print_to_writes:
  "\<not> valueless v \<Longrightarrow> print_to fl v out = (Inr (), out @ rendering fl v)"
proof (induction v arbitrary: out)
  case (CMap m)
  have p: "print_pair fl p out' = (Inr (), out' @ (case p of (k, v) \<Rightarrow> rendering fl k @ '': '' @ rendering fl v))"
    if "p \<in> set m" for p out'
  proof -
    obtain a b where ab: "p = (a, b)" by (cases p)
    have "\<not> valueless a" "\<not> valueless b"
      using CMap.prems that by (auto simp: ab list_ex_iff)
    then show ?thesis
      using CMap.IH(1) [OF that, of a] CMap.IH(2) [OF that, of b]
      by (simp add: ab print_pair_def put_def)
  qed
  show ?case
    by (simp add: put_def pairs.loop_writes [of m fl, OF p] pairs.lead_def)
next
  case (CSeq xs)
  have p: "print_to fl x out' = (Inr (), out' @ rendering fl x)" if "x \<in> set xs" for x out'
    using CSeq that by (auto simp: list_ex_iff)
  show ?case
    by (simp add: put_def elems.loop_writes [of xs fl, OF p] elems.lead_def)
next
  case (CArray xs)
  have p: "print_to fl x out' = (Inr (), out' @ rendering fl x)" if "x \<in> set xs" for x out'
    using CArray that by (auto simp: list_ex_iff)
  show ?case
    by (simp add: put_def elems.loop_writes [of xs fl, OF p] elems.lead_def)
next
  case (CTuple xs)
  have p: "print_to fl x out' = (Inr (), out' @ rendering fl x)" if "x \<in> set xs" for x out'
    using CTuple that by (auto simp: list_ex_iff)
  show ?case
    by (simp add: put_def elems.loop_writes [of xs fl, OF p] elems.lead_def)
next
  case (CVariant v)
  then show ?case by (cases v) simp_all
next
  case (COptional v)
  then show ?case by (cases v) (simp_all add: put_def)
next
  case (CCustom ps)
  have p: "print_to fl x out' = (Inr (), out' @ rendering fl x)" if "Inr x \<in> set ps" for x out'
    using CCustom.IH [of "Inr x" x] CCustom.prems that by (auto simp: list_ex_iff)
  show ?case
    by (simp add: print_pieces_writes p)
qed (simp_all add: put_def)

lemma print_list_fails:
  assumes v: "list_ex valueless xs"
    and IH: "\<And>x out. x \<in> set xs \<Longrightarrow> valueless x \<Longrightarrow> \<exists>s. print_to fl x out = (Inl bad_variant_access, out @ s)"
  shows "\<exists>s. print_elems fl first xs out = (Inl bad_variant_access, out @ s)"
proof -
  obtain ys y zs where xs: "xs = ys @ y # zs" "valueless y" "\<forall>x\<in>set ys. \<not> valueless x"
    using v split_list_first_prop [of xs valueless] by (auto simp: list_ex_iff)
  show ?thesis
    unfolding xs(1) using xs IH [of y]
    by (intro elems.loop_fails [where t = "rendering fl"]) (simp_all add: print_to_writes)
qed

lemma print_pair_fails:
  assumes "valueless k \<or> valueless v"
    and "valueless k \<Longrightarrow> (\<And>out. \<exists>s. print_to fl k out = (Inl bad_variant_access, out @ s))"
    and "valueless v \<Longrightarrow> (\<And>out. \<exists>s. print_to fl v out = (Inl bad_variant_access, out @ s))"
  shows "\<exists>s. print_pair fl (k, v) out = (Inl bad_variant_access, out @ s)"
proof (cases "valueless k")
  case True
  then obtain s where "print_to fl k out = (Inl bad_variant_access, out @ s)"
    using assms(2) by blast
  then show ?thesis by (simp add: print_pair_def)
next
  case False
  then obtain s where
    "print_to fl v (out @ rendering fl k @ '': '') =
      (Inl bad_variant_access, (out @ rendering fl k @ '': '') @ s)"
    using assms by blast
  then show ?thesis
    using False by (simp add: print_pair_def put_def print_to_writes)
qed

lemma print_pairs_fails:
  assumes v: "list_ex (\<lambda>(k, v). valueless k \<or> valueless v) m"
    and IH: "\<And>k v out. (k, v) \<in> set m \<Longrightarrow> valueless k \<Longrightarrow> \<exists>s. print_to fl k out = (Inl bad_variant_access, out @ s)"
      "\<And>k v out. (k, v) \<in> set m \<Longrightarrow> valueless v \<Longrightarrow> \<exists>s. print_to fl v out = (Inl bad_variant_access, out @ s)"
  shows "\<exists>s. print_pairs fl first m out = (Inl bad_variant_access, out @ s)"
proof -
  let ?Q = "\<lambda>(k, v). valueless k \<or> valueless v"
  let ?t = "\<lambda>p. rendering fl (fst p) @ '': '' @ rendering fl (snd p)"
  obtain ys p zs where m: "m = ys @ p # zs" "?Q p" "\<forall>x\<in>set ys. \<not> ?Q x"
    using v split_list_first_prop [of m ?Q] by (auto simp: list_ex_iff)
  obtain k v where p: "p = (k, v)" by (cases p)
  have ok: "print_pair fl q out' = (Inr (), out' @ ?t q)" if "q \<in> set ys" for q out'
    proof -
    obtain a b where q: "q = (a, b)" by (cases q)
    have "\<not> valueless a" "\<not> valueless b" using that m(3) q by auto
    then show ?thesis by (simp add: q print_pair_def put_def print_to_writes)
  qed
  have bad: "\<exists>s. print_pair fl p out' = (Inl bad_variant_access, out' @ s)" for out'
    unfolding p using m(2) IH(1) [of k v] IH(2) [of k v]
    by (intro print_pair_fails) (simp_all add: m(1) p)
  show ?thesis
    unfolding m(1) by (rule pairs.loop_fails [where t = ?t]) (use ok bad in auto)
qed

lemma print_pieces_fails:
  assumes v: "list_ex (\<lambda>p. case p of Inl s \<Rightarrow> False | Inr v \<Rightarrow> valueless v) ps"
    and IH: "\<And>x out. Inr x \<in> set ps \<Longrightarrow> valueless x \<Longrightarrow> \<exists>s. print_to fl x out = (Inl bad_variant_access, out @ s)"
  shows "\<exists>s. print_pieces fl ps out = (Inl bad_variant_access, out @ s)"
  using assms
proof (induction ps arbitrary: out)
  case Nil
  then show ?case by simp
next
  case (Cons p ps)
  have r: "\<exists>s. print_pieces fl ps out' = (Inl bad_variant_access, out' @ s)"
    if "list_ex (\<lambda>p. case p of Inl s \<Rightarrow> False | Inr v \<Rightarrow> valueless v) ps" for out'
    using Cons.IH that Cons.prems(2) by simp
  show ?case
  proof (cases p)
    case (Inl s)
    obtain s' where "print_pieces fl ps (out @ s) = (Inl bad_variant_access, (out @ s) @ s')"
      using Cons.prems(1) Inl r [of "out @ s"] by auto
    then show ?thesis by (simp add: Inl put_def)
  next
    case (Inr v)
    show ?thesis
    proof (cases "valueless v")
      case True
      then obtain s' where "print_to fl v out = (Inl bad_variant_access, out @ s')"
        using Cons.prems(2) [of v] Inr by auto
      then show ?thesis by (simp add: Inr)
    next
      case False
      obtain s' where
        "print_pieces fl ps (out @ rendering fl v) = (Inl bad_variant_access, (out @ rendering fl v) @ s')"
        using Cons.prems(1) Inr False r [of "out @ rendering fl v"] by auto
      then show ?thesis using False by (simp add: Inr print_to_writes)
    qed
  qed
qed

lemma print_to_fails:
  "valueless v \<Longrightarrow> \<exists>s. print_to fl v out = (Inl bad_variant_access, out @ s)"
proof (induction v arbitrary: out)
  case (CMap m)
  have "\<exists>s. print_pairs fl True m (out @ ''{'') = (Inl bad_variant_access, (out @ ''{'') @ s)"
    using CMap by (intro print_pairs_fails) force+
  then show ?case by (auto simp: put_def)
next
  case (CSeq xs)
  have "\<exists>s. print_elems fl True xs (out @ ''['') = (Inl bad_variant_access, (out @ ''['') @ s)"
    using CSeq by (intro print_list_fails) auto
  then show ?case by (auto simp: put_def)
next
  case (CArray xs)
  have "\<exists>s. print_elems fl True xs (out @ ''['') = (Inl bad_variant_access, (out @ ''['') @ s)"
    using CArray by (intro print_list_fails) auto
  then show ?case by (auto simp: put_def)
next
  case (CTuple xs)
  have "\<exists>s. print_elems fl True xs (out @ ''('') = (Inl bad_variant_access, (out @ ''('') @ s)"
    using CTuple by (intro print_list_fails) auto
  then show ?case by (auto simp: put_def)
next
  case (CVariant v)
  then show ?case by (cases v) simp_all
next
  case (COptional v)
  then show ?case by (cases v) simp_all
next
  case (CCustom ps)
  have "\<exists>s. print_to fl x out' = (Inl bad_variant_access, out' @ s)"
    if "Inr x \<in> set ps" "valueless x" for x out'
    using CCustom.IH [of "Inr x" x] that by simp
  then show ?case
    using CCustom.prems print_pieces_fails [of ps fl out] by simp
qed simp_all

section \<open>Properties of the printer\<close>

text \<open>C20: \<open>P\<close> throws \<open>bad_variant_access\<close> exactly when the value contains, at a place that is
  printed, a variant without a value; otherwise it returns the rendering of the value.\<close>

theorem P_text_total:
  "P_text fl v = (if valueless v then Inl bad_variant_access else Inr (rendering fl v))"
  using print_to_fails [of v fl "[]"] print_to_writes [of v fl "[]"]
  by (auto simp: P_text_def)

lemma print_rest_writes:
  assumes "\<forall>t\<in>set ts. \<not> valueless t"
  shows "print_rest fl False ts out =
    (Inr (), out @ concat (map (\<lambda>t. '' '' @ rendering fl t) ts))"
  using assms by (induction ts arbitrary: out) (simp_all add: put_def print_to_writes)

lemma join_blank: "x @ concat (map (\<lambda>t. sep @ f t) ts) = join sep (x # map f ts)"
proof (induction ts arbitrary: x)
  case (Cons t ts)
  show ?case using Cons [of "f t"] by simp
qed simp

text \<open>\<open>print(t, ts...)\<close> of values that can be printed appends one line to the output: the
  renderings of the arguments, separated by blanks, and a newline.\<close>

theorem print_line:
  assumes "\<forall>v\<in>set (t # ts). \<not> valueless v"
  shows "print fl t ts out = (Inr (), out @ join '' '' (map (rendering fl) (t # ts)) @ [CHR 0x0A])"
  using assms
  by (simp add: print_def print_to_writes print_rest_writes put_def
      flip: join_blank [of "rendering fl t" "'' ''" "rendering fl"])

theorem print_line_witness:
  "print (\<lambda>f. ''3.14'') (CStr ''hello'') [CChar CHR ''a'', CFloat ()] ''> '' =
     (Inr (), ''> \"hello\" a 3.14'' @ [CHR 0x0A])"
  by (subst print_line) simp_all

text \<open>The \<open>std::formatter\<close> for vectors joins the formatted items with the same separators.\<close>

lemma format_vector_text:
  "format_vector item xs = ''['' @ join '', '' (map item xs) @ '']''"
  by (simp add: format_vector_def items.loop_writes [where t = item] put_def items.lead_def)

lemma vector_of_integers_same_text:
  "rendering fl (CSeq (map CInt is)) = format_vector dec_int is"
  by (simp add: format_vector_text comp_def)

lemma person_text:
  "rendering fl (CCustom (person_pieces p)) =
     ''{\"'' @ name p @ ''\", '' @ dec_int (age p) @ ''}''"
  by (simp add: person_pieces_def)

text \<open>Quotes are not escaped: one text with \<open>", "\<close> in it prints as two texts do.\<close>

lemma quotes_are_not_escaped:
  "rendering fl (CSeq [CStr (a @ ''\", \"'' @ b)]) = rendering fl (CSeq [CStr a, CStr b])"
  by simp

lemma traits_dispatch:
  "print_branch (traits_of v) =
     (case v of CStr _ \<Rightarrow> Quoted | CChar _ \<Rightarrow> Plain | CInt _ \<Rightarrow> Plain | CFloat _ \<Rightarrow> Plain
      | CBool _ \<Rightarrow> Boolean | CMap _ \<Rightarrow> Mapping | CSeq _ \<Rightarrow> Iterable | CArray _ \<Rightarrow> Iterable
      | CVariant _ \<Rightarrow> Variant | COptional _ \<Rightarrow> Optional | CNullopt \<Rightarrow> Nullopt | CTuple _ \<Rightarrow> Tuple
      | CCustom _ \<Rightarrow> Custom | COther _ \<Rightarrow> Unprintable)"
  by (cases v) (simp_all add: print_branch_def no_traits_def)

section \<open>Type names\<close>

lemma find_first_of_found:
  assumes "c \<notin> set pre"
  shows "find_first_of c (pre @ c # post) = of_nat (length pre)"
  using assms by (simp add: find_first_of_def find_char_append)

lemma find_last_of_found:
  assumes "c \<notin> set post"
  shows "find_last_of c (pre @ c # post) = of_nat (length pre)"
  proof -
  have "find_char c (rev (pre @ c # post)) = Some (length post)"
    using find_char_append [of c "rev post" "rev pre"] assms by simp
  then show ?thesis by (simp add: find_last_of_def)
qed

lemma len64: "LENGTH(64) = 64"
  by simp

lemma unat_pos_2:
  assumes "n + 2 < 2 ^ 64"
  shows "unat (of_nat n + 2 :: 64 word) = n + 2"
proof -
  have "(of_nat n + 2 :: 64 word) = of_nat (n + 2)" by simp
  then show ?thesis using assms by (simp only: unat_of_nat_small len64)
qed

lemma unat_npos: "unat npos = 2 ^ 64 - 1"
  by (simp add: npos_def unat_minus_1)

lemma substr_from:
  assumes "length s < 2 ^ 64" "unat pos \<le> length s"
  shows "substr pos npos s = Some (drop (unat pos) s)"
  using assms by (simp add: substr_def unat_npos)

text \<open>From a \<open>__PRETTY_FUNCTION__\<close> of the form gcc writes, with no \<open>=\<close> before the one of
  \<open>T = \<close> and no semicolon in the type, \<open>name_of\<close> cuts out exactly the type's name, whatever
  follows it.\<close>

theorem name_of_gcc_names:
  assumes pre: "CHR ''='' \<notin> set pre" and ty: "CHR '';'' \<notin> set ty"
    and len: "length (pre @ ''= '' @ ty @ '';'' @ post) < 2 ^ 64"
  shows "name_of_gcc (pre @ ''= '' @ ty @ '';'' @ post) = Some ty"
proof -
  let ?s = "pre @ ''= '' @ ty @ '';'' @ post"
  have p: "unat (find_first_of CHR ''='' ?s + 2) = length pre + 2"
    using pre len find_first_of_found [of "CHR ''=''" pre "CHR '' '' # ty @ '';'' @ post"]
    by (simp add: unat_pos_2)
  have "substr (find_first_of CHR ''='' ?s + 2) npos ?s = Some (ty @ '';'' @ post)"
    using len by (subst substr_from) (simp_all only: p, simp_all)
  moreover have "substr 0 (find_first_of CHR '';'' (ty @ '';'' @ post)) (ty @ '';'' @ post) = Some ty"
    using ty len find_first_of_found [of "CHR '';''" ty post]
    by (simp add: substr_def unat_of_nat_small)
  ultimately show ?thesis by (simp add: name_of_gcc_def)
qed

theorem name_of_gcc_names_witness:
  "name_of_gcc (''constexpr auto print_detail::name_of() [with T '' @ ''= '' @ ''Person'' @ '';'' @
     '' std::string_view = std::basic_string_view<char>]'') = Some ''Person''"
  by (rule name_of_gcc_names) simp_all

text \<open>From a \<open>__PRETTY_FUNCTION__\<close> of the form clang writes, ending in \<open>T = \<close>, a type
  without \<open>=\<close>, and a bracket, \<open>name_of\<close> cuts out exactly the type's name.\<close>

theorem name_of_clang_names:
  assumes ty: "CHR ''='' \<notin> set ty" and len: "length (pre @ ''= '' @ ty @ '']'') < 2 ^ 64"
  shows "name_of_clang (pre @ ''= '' @ ty @ '']'') = Some ty"
proof -
  let ?s = "pre @ ''= '' @ ty @ '']''"
  have p: "unat (find_last_of CHR ''='' ?s + 2) = length pre + 2"
    using ty len find_last_of_found [of "CHR ''=''" "CHR '' '' # ty @ '']''" pre]
    by (simp add: unat_pos_2)
  have "substr (find_last_of CHR ''='' ?s + 2) npos ?s = Some (ty @ '']'')"
    using len by (subst substr_from) (simp_all only: p, simp_all)
  moreover have "(of_nat (length (ty @ '']'')) - 1 :: 64 word) = of_nat (length ty)" by simp
  moreover have "substr 0 (of_nat (length ty)) (ty @ '']'') = Some ty"
    using len by (simp add: substr_def unat_of_nat_small)
  ultimately show ?thesis by (simp add: name_of_clang_def del: of_nat_add)
qed

theorem name_of_clang_names_witness:
  "name_of_clang (''auto print_detail::name_of() [T '' @ ''= '' @ ''Person'' @ '']'') = Some ''Person''"
  by (rule name_of_clang_names) simp_all

section \<open>Reading a rendering back\<close>

text \<open>
  Values whose rendering can be read back: texts without quotes, integers, booleans, and
  sequences, tuples and maps of them. (A character prints as itself, an optional as its value,
  an array as a vector: those lose their kind.)
\<close>

fun readable :: "'f cval \<Rightarrow> bool" where
  "readable (CStr s) \<longleftrightarrow> CHR ''\"'' \<notin> set s"
| "readable (CInt i) \<longleftrightarrow> True"
| "readable (CBool b) \<longleftrightarrow> True"
| "readable (CSeq xs) \<longleftrightarrow> list_all readable xs"
| "readable (CTuple xs) \<longleftrightarrow> list_all readable xs"
| "readable (CMap m) \<longleftrightarrow> list_all (\<lambda>(k, v). readable k \<and> readable v) m"
| "readable _ \<longleftrightarrow> False"

definition read_atom :: "string \<Rightarrow> ('f cval \<times> string) option" where
  "read_atom s =
     (if prefix ''true'' s then Some (CBool True, drop 4 s)
      else if prefix ''false'' s then Some (CBool False, drop 5 s)
      else if prefix ''-'' s then
        Some (CInt (- int (nat_of_dec (takeWhile is_digit (tl s)))), dropWhile is_digit (tl s))
      else if s \<noteq> [] \<and> is_digit (hd s) then
        Some (CInt (int (nat_of_dec (takeWhile is_digit s))), dropWhile is_digit s)
      else None)"

fun read_val :: "nat \<Rightarrow> string \<Rightarrow> ('f cval \<times> string) option"
  and read_vals :: "nat \<Rightarrow> char \<Rightarrow> bool \<Rightarrow> string \<Rightarrow> ('f cval list \<times> string) option"
  and read_pairs :: "nat \<Rightarrow> bool \<Rightarrow> string \<Rightarrow> (('f cval \<times> 'f cval) list \<times> string) option" where
  "read_val 0 s = None"
| "read_val (Suc n) s =
     (case s of [] \<Rightarrow> None | c # r \<Rightarrow>
        if c = CHR ''\"'' then
          Some (CStr (takeWhile (\<lambda>x. x \<noteq> CHR ''\"'') r), tl (dropWhile (\<lambda>x. x \<noteq> CHR ''\"'') r))
        else if c = CHR ''['' then map_option (\<lambda>(xs, q). (CSeq xs, q)) (read_vals n CHR '']'' True r)
        else if c = CHR ''('' then map_option (\<lambda>(xs, q). (CTuple xs, q)) (read_vals n CHR '')'' True r)
        else if c = CHR ''{'' then map_option (\<lambda>(m, q). (CMap m, q)) (read_pairs n True r)
        else read_atom s)"
| "read_vals 0 close first s = None"
| "read_vals (Suc n) close first s =
     (if prefix [close] s then Some ([], tl s)
      else Option.bind (read_val n (if first then s else drop 2 s)) (\<lambda>(x, q).
           map_option (\<lambda>(xs, r). (x # xs, r)) (read_vals n close False q)))"
| "read_pairs 0 first s = None"
| "read_pairs (Suc n) first s =
     (if prefix ''}'' s then Some ([], tl s)
      else Option.bind (read_val n (if first then s else drop 2 s)) (\<lambda>(k, q).
           Option.bind (read_val n (drop 2 q)) (\<lambda>(v, r).
           map_option (\<lambda>(m, t). ((k, v) # m, t)) (read_pairs n False r))))"

text \<open>Enough fuel for a value: one for each node and each element on the way down.\<close>

fun fuel :: "'f cval \<Rightarrow> nat" where
  "fuel (CSeq xs) = Suc (Suc (sum_list (map (\<lambda>x. Suc (fuel x)) xs)))"
| "fuel (CTuple xs) = Suc (Suc (sum_list (map (\<lambda>x. Suc (fuel x)) xs)))"
| "fuel (CMap m) = Suc (Suc (sum_list (map (\<lambda>(k, v). Suc (fuel k + fuel v)) m)))"
| "fuel _ = 1"

definition undigit :: "string \<Rightarrow> bool" where
  "undigit s \<longleftrightarrow> (case s of [] \<Rightarrow> True | c # _ \<Rightarrow> \<not> is_digit c)"

lemma undigit_simps [simp]: "undigit []" "undigit (c # s) \<longleftrightarrow> \<not> is_digit c"
  by (simp_all add: undigit_def)

lemma is_digit_hd: "is_digit (hd (dec_nat n))"
  using dec_nat_digits [of "hd (dec_nat n)" n] by simp

lemma span_digits:
  assumes "undigit q"
  shows "takeWhile is_digit (dec_nat n @ q) = dec_nat n"
    and "dropWhile is_digit (dec_nat n @ q) = q"
  using assms dec_nat_digits [of _ n]
  by (cases q; simp add: takeWhile_append2 dropWhile_append2)+

lemma punctuation_no_digit [simp]:
  "\<not> is_digit CHR '',''" "\<not> is_digit CHR '':''" "\<not> is_digit CHR '']''" "\<not> is_digit CHR '')''"
  "\<not> is_digit CHR ''}''" "\<not> is_digit CHR ''t''" "\<not> is_digit CHR ''f''" "\<not> is_digit CHR ''-''"
  "\<not> is_digit CHR ''['' " "\<not> is_digit CHR ''(''" "\<not> is_digit CHR ''{''" "\<not> is_digit CHR ''\"''"
  by (simp_all add: is_digit_def)

lemma dec_nat_hd:
  obtains c r where "dec_nat n = c # r" "is_digit c"
  using is_digit_hd [of n] by (cases "dec_nat n") auto

lemma read_atom_int:
  assumes "undigit q"
  shows "read_atom (dec_int i @ q) = Some (CInt i, q)"
proof (cases "i < 0")
  case True
  then show ?thesis using assms by (simp add: read_atom_def dec_int_def span_digits)
next
  case False
  obtain c r where c: "dec_nat (nat i) = c # r" "is_digit c" by (rule dec_nat_hd)
  have ne: "c \<noteq> CHR ''t''" "c \<noteq> CHR ''f''" "c \<noteq> CHR ''-''" using c(2) by auto
  have "read_atom (dec_nat (nat i) @ q) =
      Some (CInt (int (nat_of_dec (takeWhile is_digit (dec_nat (nat i) @ q)))),
            dropWhile is_digit (dec_nat (nat i) @ q))"
    using c ne by (simp add: read_atom_def)
  then show ?thesis using False assms by (simp add: dec_int_def span_digits)
qed

lemma dec_int_hd:
  obtains c r where "dec_int i = c # r" "is_digit c \<or> c = CHR ''-''"
proof (cases "i < 0")
  case False
  obtain c r where "dec_nat (nat i) = c # r" "is_digit c" by (rule dec_nat_hd)
  then show thesis using that False by (simp add: dec_int_def)
qed (use that in \<open>simp add: dec_int_def\<close>)

text \<open>The first character of a rendering is not one that ends a list.\<close>

lemma rendering_hd:
  assumes "readable v"
  obtains c r where "rendering fl v = c # r" "c \<noteq> CHR '']''" "c \<noteq> CHR '')''" "c \<noteq> CHR ''}''"
proof (cases v)
  case (CInt i)
  obtain c r where "dec_int i = c # r" "is_digit c \<or> c = CHR ''-''" by (rule dec_int_hd)
  moreover from this have "c \<noteq> CHR '']''" "c \<noteq> CHR '')''" "c \<noteq> CHR ''}''" by auto
  ultimately show thesis using that CInt by simp
next
  case (CBool b)
  then show thesis using that by (cases b) simp_all
qed (use assms that in \<open>auto split: if_splits\<close>)

lemma span_quote:
  assumes "c \<notin> set s"
  shows "takeWhile (\<lambda>x. x \<noteq> c) (s @ c # q) = s" "dropWhile (\<lambda>x. x \<noteq> c) (s @ c # q) = c # q"
  using assms by (induction s) auto

definition tail_text :: "bool \<Rightarrow> string list \<Rightarrow> string" where
  "tail_text first ts = (if first \<or> ts = [] then [] else '', '') @ join '', '' ts"

lemma tail_text_Nil [simp]: "tail_text first [] = []"
  by (simp add: tail_text_def)

lemma tail_text_Cons:
  "tail_text first (t # ts) = (if first then [] else '', '') @ t @ tail_text False ts"
  by (simp add: tail_text_def join_Cons)

lemma undigit_tail_text [simp]: "undigit (tail_text False ts @ c # q) \<longleftrightarrow> ts \<noteq> [] \<or> \<not> is_digit c"
  by (cases ts) (simp_all add: tail_text_Cons)

lemma read_vals_tail:
  assumes "\<And>x n q. x \<in> set xs \<Longrightarrow> fuel x \<le> n \<Longrightarrow> undigit q \<Longrightarrow> read_val n (rendering fl x @ q) = Some (x, q)"
    and "list_all readable xs" and close: "close = CHR '']'' \<or> close = CHR '')''"
    and "sum_list (map (\<lambda>x. Suc (fuel x)) xs) < n"
  shows "read_vals n close first (tail_text first (map (rendering fl) xs) @ close # q) = Some (xs, q)"
  using assms
proof (induction xs arbitrary: n first)
  case Nil
  then show ?case by (cases n) simp_all
next
  case (Cons x xs)
  obtain m where n: "n = Suc m" using Cons.prems(4) by (cases n) auto
  let ?t = "tail_text False (map (rendering fl) xs) @ close # q"
  have "readable x" using Cons.prems(2) by simp
  obtain c r where c: "rendering fl x = c # r" "c \<noteq> CHR '']''" "c \<noteq> CHR '')''"
    using rendering_hd [OF \<open>readable x\<close>, of fl] by blast
  have "undigit ?t" using close by auto
  then have v: "read_val m (rendering fl x @ ?t) = Some (x, ?t)"
    using Cons.prems(1,4) n by simp
  have r: "read_vals m close False ?t = Some (xs, q)"
    using Cons.prems n by (intro Cons.IH) auto
  show ?case
    using v r c close by (cases first) (auto simp: n tail_text_Cons)
qed

lemma read_pairs_tail:
  assumes "\<And>k v n q. (k, v) \<in> set m \<Longrightarrow> fuel k \<le> n \<Longrightarrow> undigit q \<Longrightarrow> read_val n (rendering fl k @ q) = Some (k, q)"
    and "\<And>k v n q. (k, v) \<in> set m \<Longrightarrow> fuel v \<le> n \<Longrightarrow> undigit q \<Longrightarrow> read_val n (rendering fl v @ q) = Some (v, q)"
    and "list_all (\<lambda>(k, v). readable k \<and> readable v) m"
    and "sum_list (map (\<lambda>(k, v). Suc (fuel k + fuel v)) m) < n"
  shows "read_pairs n first
     (tail_text first (map (\<lambda>(k, v). rendering fl k @ '': '' @ rendering fl v) m) @ CHR ''}'' # q) = Some (m, q)"
  using assms
proof (induction m arbitrary: n first)
  case Nil
  then show ?case by (cases n) simp_all
next
  case (Cons p m)
  obtain k v where p: "p = (k, v)" by (cases p)
  obtain i where n: "n = Suc i" using Cons.prems(4) by (cases n) auto
  let ?t = "tail_text False (map (\<lambda>(k, v). rendering fl k @ '': '' @ rendering fl v) m) @ CHR ''}'' # q"
  have "readable k" using Cons.prems(3) p by simp
  obtain c r where c: "rendering fl k = c # r" "c \<noteq> CHR ''}''"
    using rendering_hd [OF \<open>readable k\<close>, of fl] by blast
  have k: "read_val i (rendering fl k @ '': '' @ rendering fl v @ ?t) = Some (k, '': '' @ rendering fl v @ ?t)"
    using Cons.prems(1) [of k v] Cons.prems(4) n p by simp
  have v: "read_val i (rendering fl v @ ?t) = Some (v, ?t)"
    using Cons.prems(2) [of k v] Cons.prems(4) n p by simp
  have r: "read_pairs i False ?t = Some (m, q)"
  proof (rule Cons.IH)
    fix k v n q assume kv: "(k, v) \<in> set m" "undigit q"
    show "read_val n (rendering fl k @ q) = Some (k, q)" if "fuel k \<le> n"
      using Cons.prems(1) [of k v] kv that by simp
    show "read_val n (rendering fl v @ q) = Some (v, q)" if "fuel v \<le> n"
      using Cons.prems(2) [of k v] kv that by simp
  qed (use Cons.prems(3,4) n p in auto)
  show ?case
    using k v r c by (cases first) (auto simp: n p tail_text_Cons)
qed

lemma read_rendering:
  "readable v \<Longrightarrow> undigit q \<Longrightarrow> fuel v \<le> n \<Longrightarrow> read_val n (rendering fl v @ q) = Some (v, q)"
proof (induction v arbitrary: n q)
  case (CStr s)
  then show ?case
    by (cases n) (auto simp: span_quote)
next
  case (CInt i)
  obtain c r where c: "dec_int i = c # r" "is_digit c \<or> c = CHR ''-''" by (rule dec_int_hd)
  then have ne: "c \<noteq> CHR ''\"''" "c \<noteq> CHR ''[''" "c \<noteq> CHR ''(''" "c \<noteq> CHR ''{''" by auto
  have "read_val (Suc m) (dec_int i @ q) = Some (CInt i, q)" for m
    using c(1) ne read_atom_int [OF CInt.prems(2), of i] by simp
  then show ?case using CInt.prems(3) by (cases n) (simp_all del: read_val.simps(2))
next
  case (CBool b)
  then show ?case by (cases n; cases b) (simp_all add: read_atom_def)
next
  case (CSeq xs)
  obtain m where n: "n = Suc m" using CSeq.prems(3) by (cases n) auto
  have "read_vals m CHR '']'' True (tail_text True (map (rendering fl) xs) @ CHR '']'' # q) = Some (xs, q)"
    using CSeq n by (intro read_vals_tail) (auto simp: list_all_iff)
  then show ?case by (simp add: n tail_text_def)
next
  case (CTuple xs)
  obtain m where n: "n = Suc m" using CTuple.prems(3) by (cases n) auto
  have "read_vals m CHR '')'' True (tail_text True (map (rendering fl) xs) @ CHR '')'' # q) = Some (xs, q)"
    using CTuple n by (intro read_vals_tail) (auto simp: list_all_iff)
  then show ?case by (simp add: n tail_text_def)
next
  case (CMap m)
  obtain i where n: "n = Suc i" using CMap.prems(3) by (cases n) auto
  have "read_pairs i True
     (tail_text True (map (\<lambda>(k, v). rendering fl k @ '': '' @ rendering fl v) m) @ CHR ''}'' # q) = Some (m, q)"
  proof (rule read_pairs_tail)
    fix k v n q assume "(k, v) \<in> set m" "fuel k \<le> n" "undigit q"
    then show "read_val n (rendering fl k @ q) = Some (k, q)"
      using CMap.IH(1) [of "(k, v)" k] CMap.prems(1) by (force simp: list_all_iff)
  next
    fix k v n q assume "(k, v) \<in> set m" "fuel v \<le> n" "undigit q"
    then show "read_val n (rendering fl v @ q) = Some (v, q)"
      using CMap.IH(2) [of "(k, v)" v] CMap.prems(1) by (force simp: list_all_iff)
  qed (use CMap.prems n in auto)
  then show ?case by (simp add: n tail_text_def)
qed simp_all

lemma readable_not_valueless: "readable v \<Longrightarrow> \<not> valueless v"
  by (induction v) (auto simp: list_all_iff list_ex_iff)

text \<open>C11: printing texts without quotes, integers, booleans and sequences, tuples and maps of
  them loses nothing: a reader recovers the value from what \<open>P\<close> returns, all of it.\<close>

theorem printed_values_read_back:
  assumes "readable v"
  shows "\<exists>s. P_text fl v = Inr s \<and> read_val (fuel v) s = Some (v, [])"
  using assms read_rendering [of v "[]" "fuel v" fl] readable_not_valueless [OF assms]
  by (auto simp: P_text_def print_to_writes)

theorem printed_values_read_back_witness:
  "\<exists>s. P_text (\<lambda>f :: unit. []) (CMap [(CStr ''k'', CSeq [CInt (- 12), CTuple [CBool False]])]) = Inr s \<and>
     read_val (fuel (CMap [(CStr ''k'', CSeq [CInt (- 12), CTuple [CBool False :: unit cval]])])) s =
     Some (CMap [(CStr ''k'', CSeq [CInt (- 12), CTuple [CBool False :: unit cval]])], [])"
  by (rule printed_values_read_back) simp

lemma printing_injective:
  assumes "readable v" "readable w" "P_text fl v = P_text fl w"
  shows "v = w"
proof -
  have r: "rendering fl v = rendering fl w"
    using assms(3) readable_not_valueless [OF assms(1)] readable_not_valueless [OF assms(2)]
    by (simp add: P_text_def print_to_writes)
  have a: "read_val (fuel v + fuel w) (rendering fl w @ []) = Some (v, [])"
    unfolding r [symmetric] by (rule read_rendering [OF assms(1)]) (rule undigit_simps, rule le_add1)
  have b: "read_val (fuel v + fuel w) (rendering fl w @ []) = Some (w, [])"
    by (rule read_rendering [OF assms(2)]) (rule undigit_simps, rule le_add2)
  have "Some (v, []) = Some (w, ([] :: string))"
    by (rule trans [OF a [symmetric] b])
  then show ?thesis by (rule option.inject [THEN iffD1, THEN prod.inject [THEN iffD1], THEN conjunct1])
qed

end
