(* ===== verification/Tasks.thy ===== *)
theory Tasks
  imports Prelude
begin

text \<open>
  \<open>asio/benchmark/task.hpp\<close> and \<open>runtime.hpp\<close>: the coroutine type \<open>Task\<close>, its promise, and \<open>spawn\<close>.
  Coroutine frames live on a heap and are named by handles; destroying a frame removes it, and
  handles are not reused, so that every later use of one is seen. The bodies of the coroutines are
  a parameter: the facts about \<open>Task\<close> hold for all bodies.
\<close>

section \<open>Coroutine frames\<close>

datatype hazard = use_after_free | double_free | resumed_when_done | early_resume | no_value
  | terminated | undefined_access

text \<open>
  Where a coroutine is: at local state \<open>'l\<close> with the value its last \<open>co_await\<close> gave; suspended
  awaiting the task with a handle; suspended awaiting a callback; at its final suspend point.
\<close>

datatype ('l, 'v) point = At 'l "'v option" | WaitTask 'l nat | WaitIO 'l | Done

text \<open>The frame with its promise: \<open>caller_\<close> and, in \<open>TaskPromise<T>\<close>, \<open>value_\<close>.\<close>

record ('l, 'v) frame =
  caller :: "nat option"
  promise_value :: "'v option"
  point :: "('l, 'v) point"

record ('l, 'v) heap =
  frames :: "nat \<Rightarrow> ('l, 'v) frame option"
  fresh :: nat

definition empty_heap :: "('l, 'v) heap" where
  "empty_heap = \<lparr>frames = (\<lambda>h. None), fresh = 0\<rparr>"

text \<open>
  Calling a coroutine allocates its frame, makes the return object from the promise and suspends
  at once (\<open>get_return_object\<close>, \<open>initial_suspend\<close>).
\<close>

definition create :: "'l \<Rightarrow> ('l, 'v) heap \<Rightarrow> nat \<times> ('l, 'v) heap" where
  "create l H =
     (fresh H, H\<lparr>frames := (frames H)(fresh H \<mapsto> \<lparr>caller = None, promise_value = None, point = At l None\<rparr>),
                 fresh := Suc (fresh H)\<rparr>)"

definition destroy :: "nat \<Rightarrow> ('l, 'v) heap \<Rightarrow> hazard + ('l, 'v) heap" where
  "destroy h H =
     (if frames H h = None then Inl double_free else Inr (H\<lparr>frames := (frames H)(h := None)\<rparr>))"

definition done_handle :: "nat \<Rightarrow> ('l, 'v) heap \<Rightarrow> hazard + bool" where
  "done_handle h H =
     (case frames H h of None \<Rightarrow> Inl use_after_free | Some f \<Rightarrow> Inr (point f = Done))"

definition set_frame :: "nat \<Rightarrow> ('l, 'v) frame \<Rightarrow> ('l, 'v) heap \<Rightarrow> ('l, 'v) heap" where
  "set_frame h f H = H\<lparr>frames := (frames H)(h \<mapsto> f)\<rparr>"

section \<open>Task\<close>

text \<open>A \<open>Task\<close> is its \<open>handle_\<close>, which may be null.\<close>

type_synonym task = "nat option"

definition destruct_Task :: "task \<Rightarrow> ('l, 'v) heap \<Rightarrow> hazard + ('l, 'v) heap" where
  "destruct_Task t H = (case t of None \<Rightarrow> Inr H | Some h \<Rightarrow> destroy h H)"

text \<open>Move construction and move assignment return the new task and what is left of the other.\<close>

definition move_Task :: "task \<Rightarrow> task \<times> task" where
  "move_Task other = (other, None)"

definition assign_Task :: "bool \<Rightarrow> task \<Rightarrow> task \<Rightarrow> task \<times> task" where
  "assign_Task same this other = (if \<not> same then (other, None) else (this, other))"

definition take_Task :: "task \<Rightarrow> hazard + (nat \<times> task)" where
  "take_Task t = (case t of None \<Rightarrow> Inl terminated | Some h \<Rightarrow> Inr (h, None))"

text \<open>The awaitable of \<open>operator co_await\<close>.\<close>

definition await_ready :: "task \<Rightarrow> ('l, 'v) heap \<Rightarrow> hazard + bool" where
  "await_ready callee H = (case callee of None \<Rightarrow> Inr True | Some h \<Rightarrow> done_handle h H)"

definition await_suspend :: "task \<Rightarrow> nat \<Rightarrow> ('l, 'v) heap \<Rightarrow> hazard + (nat \<times> ('l, 'v) heap)" where
  "await_suspend callee p H =
     (case callee of None \<Rightarrow> Inl undefined_access | Some h \<Rightarrow>
        (case frames H h of None \<Rightarrow> Inl use_after_free
         | Some f \<Rightarrow> Inr (h, set_frame h (f\<lparr>caller := Some p\<rparr>) H)))"

definition await_resume :: "task \<Rightarrow> ('l, 'v) heap \<Rightarrow> hazard + 'v" where
  "await_resume callee H =
     (case callee of None \<Rightarrow> Inl undefined_access | Some h \<Rightarrow>
        (case frames H h of None \<Rightarrow> Inl use_after_free
         | Some f \<Rightarrow> (case promise_value f of None \<Rightarrow> Inl no_value | Some v \<Rightarrow> Inr v)))"

text \<open>
  \<open>return_value\<close> and the final suspend: the frame is left at its final suspend point, then
  \<open>FinalAwaiter\<close> names the coroutine to continue with, the caller, or with no caller destroys the
  frame and continues with the no-op coroutine (\<open>None\<close>).
\<close>

definition return_value :: "nat \<Rightarrow> 'v \<Rightarrow> ('l, 'v) frame \<Rightarrow> ('l, 'v) heap \<Rightarrow> ('l, 'v) heap" where
  "return_value h v f H = set_frame h (f\<lparr>promise_value := Some v, point := Done\<rparr>) H"

definition final_await_suspend ::
  "nat \<Rightarrow> ('l, 'v) heap \<Rightarrow> hazard + (nat option \<times> ('l, 'v) heap)" where
  "final_await_suspend callee H =
     (case frames H callee of None \<Rightarrow> Inl use_after_free
      | Some f \<Rightarrow>
         (if caller f \<noteq> None then Inr (caller f, H)
          else (case destroy callee H of Inl e \<Rightarrow> Inl e | Inr H' \<Rightarrow> Inr (None, H'))))"

section \<open>Running coroutines\<close>

text \<open>
  What a coroutine does next: \<open>co_await\<close> a call of another coroutine (the state it starts in),
  \<open>co_await\<close> an operation that calls back, \<open>spawn\<close> a coroutine, \<open>co_return\<close>, throw, or run
  into undefined behaviour. The states given are those to continue in.
\<close>

datatype ('l, 'o, 'v) act = Call 'l 'l | Wait 'o 'l | Spawn 'l 'l | Return 'v | Throw | Undef

type_synonym ('l, 'o, 'v, 'w) bodies = "'l \<Rightarrow> 'v option \<Rightarrow> 'w \<Rightarrow> ('l, 'o, 'v) act \<times> 'w"

text \<open>
  The machine: the heap, the stack of \<open>resume\<close> calls (the innermost first), the callbacks that are
  registered, each with the handle it will resume, and the rest of the program's state.
\<close>

record ('l, 'o, 'v, 'w) machine =
  mem :: "('l, 'v) heap"
  stack :: "nat list"
  pending :: "(nat \<times> 'o) list"
  world :: 'w

text \<open>
  \<open>co_await f(...)\<close> in the coroutine \<open>h\<close>: the callee is created; unless it is ready it gets \<open>h\<close> as
  its caller and control passes to it directly. The temporary \<open>Task\<close> stays in the frame of \<open>h\<close>.
\<close>

definition do_call ::
  "nat \<Rightarrow> ('l, 'v) frame \<Rightarrow> nat list \<Rightarrow> 'l \<Rightarrow> 'l \<Rightarrow> ('l, 'o, 'v, 'w) machine \<Rightarrow>
   hazard + ('l, 'o, 'v, 'w) machine" where
  "do_call h f st l k m =
     (case create l (mem m) of (c, H) \<Rightarrow>
      let H1 = set_frame h (f\<lparr>point := WaitTask k c\<rparr>) H in
      (case await_ready (Some c) H1 of
         Inl e \<Rightarrow> Inl e
       | Inr True \<Rightarrow> Inr (m\<lparr>mem := H1, stack := h # st\<rparr>)
       | Inr False \<Rightarrow>
          (case await_suspend (Some c) h H1 of
             Inl e \<Rightarrow> Inl e
           | Inr (next, H2) \<Rightarrow> Inr (m\<lparr>mem := H2, stack := next # st\<rparr>))))"

text \<open>\<open>spawn(f(...))\<close>: take the handle out of the task and resume it, on top of \<open>h\<close>.\<close>

definition spawn :: "task \<Rightarrow> nat list \<Rightarrow> hazard + nat list" where
  "spawn t st = (case take_Task t of Inl e \<Rightarrow> Inl e | Inr (h, t') \<Rightarrow> Inr (h # st))"

definition do_spawn ::
  "nat \<Rightarrow> ('l, 'v) frame \<Rightarrow> nat list \<Rightarrow> 'l \<Rightarrow> 'l \<Rightarrow> ('l, 'o, 'v, 'w) machine \<Rightarrow>
   hazard + ('l, 'o, 'v, 'w) machine" where
  "do_spawn h f st l k m =
     (case create l (mem m) of (c, H) \<Rightarrow>
      (case spawn (Some c) (h # st) of
         Inl e \<Rightarrow> Inl e
       | Inr st' \<Rightarrow> Inr (m\<lparr>mem := set_frame h (f\<lparr>point := At k None\<rparr>) H, stack := st'\<rparr>)))"

definition do_return ::
  "nat \<Rightarrow> ('l, 'v) frame \<Rightarrow> nat list \<Rightarrow> 'v \<Rightarrow> ('l, 'o, 'v, 'w) machine \<Rightarrow>
   hazard + ('l, 'o, 'v, 'w) machine" where
  "do_return h f st v m =
     (case final_await_suspend h (return_value h v f (mem m)) of
        Inl e \<Rightarrow> Inl e
      | Inr (None, H) \<Rightarrow> Inr (m\<lparr>mem := H, stack := st\<rparr>)
      | Inr (Some next, H) \<Rightarrow> Inr (m\<lparr>mem := H, stack := next # st\<rparr>))"

text \<open>
  After the callee's end: \<open>await_resume\<close> reads its result, and at the end of the full expression
  the temporary \<open>Task\<close> destroys the callee.
\<close>

definition do_resume ::
  "nat \<Rightarrow> ('l, 'v) frame \<Rightarrow> 'l \<Rightarrow> nat \<Rightarrow> ('l, 'o, 'v, 'w) machine \<Rightarrow>
   hazard + ('l, 'o, 'v, 'w) machine" where
  "do_resume h f k c m =
     (case await_resume (Some c) (mem m) of
        Inl e \<Rightarrow> Inl e
      | Inr v \<Rightarrow> (case destruct_Task (Some c) (mem m) of
          Inl e \<Rightarrow> Inl e
        | Inr H \<Rightarrow> Inr (m\<lparr>mem := set_frame h (f\<lparr>point := At k (Some v)\<rparr>) H\<rparr>)))"

definition step ::
  "('l, 'o, 'v, 'w) bodies \<Rightarrow> ('l, 'o, 'v, 'w) machine \<Rightarrow> hazard + ('l, 'o, 'v, 'w) machine" where
  "step body m =
     (case stack m of [] \<Rightarrow> Inr m | h # st \<Rightarrow>
       (case frames (mem m) h of None \<Rightarrow> Inl use_after_free | Some f \<Rightarrow>
         (case point f of
            Done \<Rightarrow> Inl resumed_when_done
          | WaitIO k \<Rightarrow> Inl early_resume
          | WaitTask k c \<Rightarrow> do_resume h f k c m
          | At l v \<Rightarrow>
             (case body l v (world m) of (a, w) \<Rightarrow>
              let m' = m\<lparr>world := w\<rparr> in
              (case a of
                 Call l' k \<Rightarrow> do_call h f st l' k m'
               | Spawn l' k \<Rightarrow> do_spawn h f st l' k m'
               | Wait o' k \<Rightarrow>
                   Inr (m'\<lparr>mem := set_frame h (f\<lparr>point := WaitIO k\<rparr>) (mem m'),
                           stack := st, pending := pending m' @ [(h, o')]\<rparr>)
               | Return v' \<Rightarrow> do_return h f st v' m'
               | Throw \<Rightarrow> Inl terminated
               | Undef \<Rightarrow> Inl undefined_access)))))"

text \<open>
  The callback of operation number \<open>i\<close>, called by the event loop when no coroutine is running:
  \<open>set_resume_value\<close> stores the result in the awaiter, then the handle is resumed.
\<close>

definition complete ::
  "nat \<Rightarrow> 'v \<Rightarrow> ('l, 'o, 'v, 'w) machine \<Rightarrow> hazard + ('l, 'o, 'v, 'w) machine" where
  "complete i v m =
     (case pending m ! i of (h, o') \<Rightarrow>
       (case frames (mem m) h of None \<Rightarrow> Inl use_after_free | Some f \<Rightarrow>
         (case point f of
            WaitIO k \<Rightarrow>
              Inr (m\<lparr>mem := set_frame h (f\<lparr>point := At k (Some v)\<rparr>) (mem m),
                     stack := [h], pending := take i (pending m) @ drop (Suc i) (pending m)\<rparr>)
          | _ \<Rightarrow> Inl use_after_free)))"

text \<open>\<open>spawn\<close> from outside any coroutine.\<close>

definition start :: "'l \<Rightarrow> ('l, 'o, 'v, 'w) machine \<Rightarrow> hazard + ('l, 'o, 'v, 'w) machine" where
  "start l m =
     (case create l (mem m) of (c, H) \<Rightarrow>
      (case spawn (Some c) (stack m) of
         Inl e \<Rightarrow> Inl e
       | Inr st \<Rightarrow> Inr (m\<lparr>mem := H, stack := st\<rparr>)))"

definition machine_init :: "'w \<Rightarrow> ('l, 'o, 'v, 'w) machine" where
  "machine_init w = \<lparr>mem = empty_heap, stack = [], pending = [], world = w\<rparr>"

section \<open>The invariant of the machine\<close>

text \<open>
  Every frame is below the next fresh handle; a coroutine and the task it awaits point at each
  other, the callee being younger; a frame is on the stack of running coroutines, registered for
  a callback, awaiting a task, or finished with the caller about to take its result.
\<close>

type_synonym ('l, 'v) store = "nat \<Rightarrow> ('l, 'v) frame option"

definition below :: "('l, 'v) store \<Rightarrow> nat \<Rightarrow> bool" where
  "below F n \<longleftrightarrow> (\<forall>h f. F h = Some f \<longrightarrow> h < n)"

definition callees_ok :: "('l, 'v) store \<Rightarrow> bool" where
  "callees_ok F \<longleftrightarrow> (\<forall>h f k c. F h = Some f \<and> point f = WaitTask k c \<longrightarrow>
     h < c \<and> (\<exists>g. F c = Some g \<and> caller g = Some h))"

definition callers_ok :: "('l, 'v) store \<Rightarrow> bool" where
  "callers_ok F \<longleftrightarrow> (\<forall>h f p. F h = Some f \<and> caller f = Some p \<longrightarrow>
     (\<exists>g k. F p = Some g \<and> point g = WaitTask k h))"

definition place_ok :: "nat \<Rightarrow> ('l, 'v) frame \<Rightarrow> nat list \<Rightarrow> (nat \<times> 'o) list \<Rightarrow> bool" where
  "place_ok h f st pend \<longleftrightarrow>
     (case point f of
        At l v \<Rightarrow> h \<in> set st
      | WaitIO k \<Rightarrow> h \<in> fst ` set pend
      | WaitTask k c \<Rightarrow> True
      | Done \<Rightarrow> promise_value f \<noteq> None \<and> (\<exists>p st'. caller f = Some p \<and> st = p # st'))"

definition placed :: "('l, 'v) store \<Rightarrow> nat list \<Rightarrow> (nat \<times> 'o) list \<Rightarrow> bool" where
  "placed F st pend \<longleftrightarrow> (\<forall>h f. F h = Some f \<longrightarrow> place_ok h f st pend)"

definition stack_ok :: "('l, 'v) store \<Rightarrow> nat list \<Rightarrow> bool" where
  "stack_ok F st \<longleftrightarrow> distinct st \<and>
     (case st of [] \<Rightarrow> True
      | h # st' \<Rightarrow>
          (\<exists>f. F h = Some f \<and>
             ((\<exists>l v. point f = At l v) \<or>
              (\<exists>k c g. point f = WaitTask k c \<and> F c = Some g \<and> point g = Done))) \<and>
          (\<forall>i\<in>set st'. \<exists>f l v. F i = Some f \<and> point f = At l v))"

definition pending_ok :: "('l, 'v) store \<Rightarrow> (nat \<times> 'o) list \<Rightarrow> bool" where
  "pending_ok F pend \<longleftrightarrow> distinct (map fst pend) \<and>
     (\<forall>h\<in>fst ` set pend. \<exists>f k. F h = Some f \<and> point f = WaitIO k)"

definition store_inv :: "('l, 'v) store \<Rightarrow> nat \<Rightarrow> nat list \<Rightarrow> (nat \<times> 'o) list \<Rightarrow> bool" where
  "store_inv F n st pend \<longleftrightarrow> below F n \<and> callees_ok F \<and> callers_ok F \<and> placed F st pend \<and>
     stack_ok F st \<and> pending_ok F pend"

definition machine_inv :: "('l, 'o, 'v, 'w) machine \<Rightarrow> bool" where
  "machine_inv m \<longleftrightarrow> store_inv (frames (mem m)) (fresh (mem m)) (stack m) (pending m)"

lemmas store_parts = below_def callees_ok_def callers_ok_def placed_def stack_ok_def pending_ok_def

subsection \<open>Every kind of step keeps it\<close>

text \<open>While a coroutine runs, no other one is at its end.\<close>

lemma running_none_done:
  assumes "store_inv F n (h # st) pend" "F h = Some f" "point f = At l v" "F i = Some g"
  shows "point g \<noteq> Done"
proof
  assume d: "point g = Done"
  have "place_ok i g (h # st) pend"
    using assms(1,4) by (simp add: store_inv_def placed_def)
  then have "caller g = Some h" using d by (simp add: place_ok_def)
  then obtain f' k where "F h = Some f'" "point f' = WaitTask k i"
    using assms(1,4) unfolding store_inv_def callers_ok_def by blast
  then show False using assms(2,3) by simp
qed

lemma place_ok_mono:
  assumes "place_ok h f st pend" "point f \<noteq> Done" "set st \<subseteq> set st'" "fst ` set pend \<subseteq> fst ` set pend'"
  shows "place_ok h f st' pend'"
  using assms by (auto simp: place_ok_def split: point.splits)

lemma inv_call:
  assumes "store_inv F n (h # st) pend" "F h = Some f" "point f = At l v"
  shows "store_inv (F(n \<mapsto> \<lparr>caller = Some h, promise_value = None, point = At l' None\<rparr>,
      h \<mapsto> f\<lparr>point := WaitTask k n\<rparr>)) (Suc n) (n # st) pend"
proof -
  have F: "below F n" "callees_ok F" "callers_ok F" "placed F (h # st) pend" "stack_ok F (h # st)"
      "pending_ok F pend"
    using assms(1) by (simp_all add: store_inv_def)
  have hn: "h < n" using F(1) assms(2) by (simp add: below_def)
  have new: "F n = None" using F(1) by (metis below_def not_None_eq less_irrefl)
  let ?F = "F(n \<mapsto> \<lparr>caller = Some h, promise_value = None, point = At l' None\<rparr>, h \<mapsto> f\<lparr>point := WaitTask k n\<rparr>)"
  have "below ?F (Suc n)" using F(1) hn by (auto simp: below_def less_Suc_eq)
  moreover have "callees_ok ?F"
    using F(2) hn new assms(2,3) by (fastforce simp: callees_ok_def)
  moreover have "callers_ok ?F"
    using F(3) hn new assms(2,3) by (fastforce simp: callers_ok_def)
  moreover have "placed ?F (n # st) pend"
    unfolding placed_def
  proof (intro allI impI)
    fix i g assume g: "?F i = Some g"
    show "place_ok i g (n # st) pend"
    proof (cases "i = h \<or> i = n")
      case True
      then show ?thesis using g hn by (auto simp: place_ok_def)
    next
      case False
      then have "F i = Some g" using g by simp
      then have "place_ok i g (h # st) pend" "point g \<noteq> Done"
        using F(4) running_none_done [OF assms] by (auto simp: placed_def)
      then show ?thesis using False by (auto simp: place_ok_def split: point.splits)
    qed
  qed
  moreover have "stack_ok ?F (n # st)"
    using F(5) hn new assms(2,3) by (fastforce simp: stack_ok_def)
  moreover have "pending_ok ?F pend"
    using F(6) hn new assms(2,3) by (fastforce simp: pending_ok_def)
  ultimately show ?thesis by (simp add: store_inv_def)
qed

lemma inv_spawn:
  assumes "store_inv F n (h # st) pend" "F h = Some f" "point f = At l v"
  shows "store_inv (F(n \<mapsto> \<lparr>caller = None, promise_value = None, point = At l' None\<rparr>,
      h \<mapsto> f\<lparr>point := At k None\<rparr>)) (Suc n) (n # h # st) pend"
proof -
  have F: "below F n" "callees_ok F" "callers_ok F" "placed F (h # st) pend" "stack_ok F (h # st)"
      "pending_ok F pend"
    using assms(1) by (simp_all add: store_inv_def)
  have hn: "h < n" using F(1) assms(2) by (simp add: below_def)
  have new: "F n = None" using F(1) by (metis below_def not_None_eq less_irrefl)
  let ?F = "F(n \<mapsto> \<lparr>caller = None, promise_value = None, point = At l' None\<rparr>, h \<mapsto> f\<lparr>point := At k None\<rparr>)"
  have "below ?F (Suc n)" using F(1) hn by (auto simp: below_def less_Suc_eq)
  moreover have "callees_ok ?F"
    using F(2) hn new assms(2,3) by (fastforce simp: callees_ok_def)
  moreover have "callers_ok ?F"
    using F(3) hn new assms(2,3) by (fastforce simp: callers_ok_def)
  moreover have "placed ?F (n # h # st) pend"
    unfolding placed_def
  proof (intro allI impI)
    fix i g assume g: "?F i = Some g"
    show "place_ok i g (n # h # st) pend"
    proof (cases "i = h \<or> i = n")
      case True
      then show ?thesis using g hn by (auto simp: place_ok_def)
    next
      case False
      then have "F i = Some g" using g by simp
      then have "place_ok i g (h # st) pend" "point g \<noteq> Done"
        using F(4) running_none_done [OF assms] by (auto simp: placed_def)
      then show ?thesis by (rule place_ok_mono) auto
    qed
  qed
  moreover have "stack_ok ?F (n # h # st)"
    using F(5) hn new assms(2,3) by (fastforce simp: stack_ok_def)
  moreover have "pending_ok ?F pend"
    using F(6) hn new assms(2,3) by (fastforce simp: pending_ok_def)
  ultimately show ?thesis by (simp add: store_inv_def)
qed

lemma inv_wait:
  assumes "store_inv F n (h # st) pend" "F h = Some f" "point f = At l v"
  shows "store_inv (F(h \<mapsto> f\<lparr>point := WaitIO k\<rparr>)) n st (pend @ [(h, o')])"
proof -
  have F: "below F n" "callees_ok F" "callers_ok F" "placed F (h # st) pend" "stack_ok F (h # st)"
      "pending_ok F pend"
    using assms(1) by (simp_all add: store_inv_def)
  let ?F = "F(h \<mapsto> f\<lparr>point := WaitIO k\<rparr>)"
  have new: "h \<notin> fst ` set pend" using F(6) assms(2,3) by (force simp: pending_ok_def)
  have "below ?F n" using F(1) assms(2) by (auto simp: below_def)
  moreover have "callees_ok ?F"
    using F(2) assms(2,3) by (fastforce simp: callees_ok_def)
  moreover have "callers_ok ?F"
    using F(3) assms(2,3) by (fastforce simp: callers_ok_def)
  moreover have "placed ?F st (pend @ [(h, o')])"
    unfolding placed_def
  proof (intro allI impI)
    fix i g assume g: "?F i = Some g"
    show "place_ok i g st (pend @ [(h, o')])"
    proof (cases "i = h")
      case True
      then show ?thesis using g by (auto simp: place_ok_def)
    next
      case False
      then have "F i = Some g" using g by simp
      then have "place_ok i g (h # st) pend" "point g \<noteq> Done"
        using F(4) running_none_done [OF assms] by (auto simp: placed_def)
      then show ?thesis using False by (auto simp: place_ok_def split: point.splits)
    qed
  qed
  moreover have "stack_ok ?F st"
    using F(5) by (cases st) (auto simp: stack_ok_def)
  moreover have "pending_ok ?F (pend @ [(h, o')])"
    using F(6) new assms(2,3) by (force simp: pending_ok_def)
  ultimately show ?thesis by (simp add: store_inv_def)
qed

lemma inv_finish:
  assumes "store_inv F n (h # st) pend" "F h = Some f" "point f = At l v" "caller f = None"
  shows "store_inv (F(h := None)) n st pend"
proof -
  have F: "below F n" "callees_ok F" "callers_ok F" "placed F (h # st) pend" "stack_ok F (h # st)"
      "pending_ok F pend"
    using assms(1) by (simp_all add: store_inv_def)
  let ?F = "F(h := None)"
  have "below ?F n" using F(1) by (auto simp: below_def)
  moreover have "callees_ok ?F"
    using F(2) assms(2,4) by (fastforce simp: callees_ok_def)
  moreover have "callers_ok ?F"
    using F(3) assms(2,3) by (fastforce simp: callers_ok_def)
  moreover have "placed ?F st pend"
    unfolding placed_def
  proof (intro allI impI)
    fix i g assume g: "?F i = Some g"
    then have i: "i \<noteq> h" "F i = Some g" by (auto split: if_splits)
    then have "place_ok i g (h # st) pend" "point g \<noteq> Done"
      using F(4) running_none_done [OF assms(1-3)] by (auto simp: placed_def)
    then show "place_ok i g st pend" using i by (auto simp: place_ok_def split: point.splits)
  qed
  moreover have "stack_ok ?F st"
    using F(5) by (cases st) (auto simp: stack_ok_def)
  moreover have "pending_ok ?F pend"
    using F(6) assms(2,3) by (force simp: pending_ok_def)
  ultimately show ?thesis by (simp add: store_inv_def)
qed

lemma inv_return:
  assumes "store_inv F n (h # st) pend" "F h = Some f" "point f = At l v" "caller f = Some p"
  shows "store_inv (F(h \<mapsto> f\<lparr>promise_value := Some r, point := Done\<rparr>)) n (p # st) pend"
proof -
  have F: "below F n" "callees_ok F" "callers_ok F" "placed F (h # st) pend" "stack_ok F (h # st)"
      "pending_ok F pend"
    using assms(1) by (simp_all add: store_inv_def)
  let ?F = "F(h \<mapsto> f\<lparr>promise_value := Some r, point := Done\<rparr>)"
  obtain g k where p: "F p = Some g" "point g = WaitTask k h"
    using F(3) assms(2,4) unfolding callers_ok_def by blast
  have ph: "p \<noteq> h" using p assms(2,3) by auto
  have "below ?F n" using F(1) assms(2) by (auto simp: below_def)
  moreover have "callees_ok ?F"
    using F(2) assms(2,3) by (fastforce simp: callees_ok_def)
  moreover have "callers_ok ?F"
    using F(3) assms(2,3) by (fastforce simp: callers_ok_def)
  moreover have "placed ?F (p # st) pend"
    unfolding placed_def
  proof (intro allI impI)
    fix i g' assume g: "?F i = Some g'"
    show "place_ok i g' (p # st) pend"
    proof (cases "i = h")
      case True
      then show ?thesis using g assms(4) by (auto simp: place_ok_def)
    next
      case False
      then have "F i = Some g'" using g by simp
      then have "place_ok i g' (h # st) pend" "point g' \<noteq> Done"
        using F(4) running_none_done [OF assms(1-3)] by (auto simp: placed_def)
      then show ?thesis using False by (auto simp: place_ok_def split: point.splits)
    qed
  qed
  moreover have "p \<notin> set st" using F(5) p by (fastforce simp: stack_ok_def)
  then have "stack_ok ?F (p # st)"
    using F(5) p ph by (fastforce simp: stack_ok_def)
  moreover have "pending_ok ?F pend"
    using F(6) assms(2,3) by (fastforce simp: pending_ok_def)
  ultimately show ?thesis by (simp add: store_inv_def)
qed

lemma inv_resume:
  assumes "store_inv F n (h # st) pend" "F h = Some f" "point f = WaitTask k c"
  shows "\<exists>g r. F c = Some g \<and> promise_value g = Some r \<and> h \<noteq> c \<and>
    store_inv (F(c := None, h \<mapsto> f\<lparr>point := At k v\<rparr>)) n (h # st) pend"
proof -
  have F: "below F n" "callees_ok F" "callers_ok F" "placed F (h # st) pend" "stack_ok F (h # st)"
      "pending_ok F pend"
    using assms(1) by (simp_all add: store_inv_def)
  let ?F = "F(c := None, h \<mapsto> f\<lparr>point := At k v\<rparr>)"
  obtain g where g: "F c = Some g" "point g = Done"
    using F(5) assms(2,3) by (auto simp: stack_ok_def)
  have hc: "h \<noteq> c" using g assms(2,3) by auto
  have cg: "caller g = Some h" using F(2) g(1) assms(2,3) unfolding callees_ok_def by (metis option.inject)
  have "promise_value g \<noteq> None"
    using F(4) g by (fastforce simp: placed_def place_ok_def)
  then obtain r where r: "promise_value g = Some r" by blast
  have "below ?F n" using F(1) assms(2) by (auto simp: below_def)
  moreover have "callees_ok ?F"
    unfolding callees_ok_def
  proof (intro allI impI)
    fix i f' k' c' assume i: "?F i = Some f' \<and> point f' = WaitTask k' c'"
    then have o: "i \<noteq> h" "i \<noteq> c" "F i = Some f'" by (auto split: if_splits)
    then obtain g' where g': "i < c'" "F c' = Some g'" "caller g' = Some i"
      using F(2) i unfolding callees_ok_def by blast
    have "c' \<noteq> c" using g' g cg o by auto
    then show "i < c' \<and> (\<exists>g. ?F c' = Some g \<and> caller g = Some i)"
      using g' assms(2) by auto
  qed
  moreover have "callers_ok ?F"
    unfolding callers_ok_def
  proof (intro allI impI)
    fix i f' p assume i: "?F i = Some f' \<and> caller f' = Some p"
    then have "i \<noteq> c" using hc by (auto split: if_splits)
    obtain f0 where f0: "F i = Some f0" "caller f0 = Some p"
      using i assms(2) by (auto split: if_splits)
    then obtain g' k' where g': "F p = Some g'" "point g' = WaitTask k' i"
      using F(3) unfolding callers_ok_def by blast
    have "p \<noteq> h" "p \<noteq> c" using g' assms(2,3) \<open>i \<noteq> c\<close> g by auto
    then show "\<exists>g k. ?F p = Some g \<and> point g = WaitTask k i" using g' by auto
  qed
  moreover have "placed ?F (h # st) pend"
    unfolding placed_def
  proof (intro allI impI)
    fix i g' assume i: "?F i = Some g'"
    show "place_ok i g' (h # st) pend"
    proof (cases "i = h")
      case True
      then show ?thesis using i by (auto simp: place_ok_def)
    next
      case False
      then show ?thesis using i F(4) by (auto simp: placed_def split: if_splits)
    qed
  qed
  moreover have "c \<notin> set st" using F(5) g by (fastforce simp: stack_ok_def)
  then have "stack_ok ?F (h # st)"
    using F(5) hc by (fastforce simp: stack_ok_def)
  moreover have "pending_ok ?F pend"
    using F(6) assms(2,3) g by (fastforce simp: pending_ok_def)
  ultimately show ?thesis using g(1) r hc by (auto simp: store_inv_def)
qed

lemma inv_complete:
  assumes "store_inv F n [] pend" "i < length pend" "pend ! i = (h, o')"
  shows "\<exists>f k. F h = Some f \<and> point f = WaitIO k \<and>
    store_inv (F(h \<mapsto> f\<lparr>point := At k v\<rparr>)) n [h] (take i pend @ drop (Suc i) pend)"
proof -
  have F: "below F n" "callees_ok F" "callers_ok F" "placed F [] pend" "stack_ok F []"
      "pending_ok F pend"
    using assms(1) by (simp_all add: store_inv_def)
  have pend: "pend = take i pend @ (h, o') # drop (Suc i) pend"
    using assms(2,3) by (metis id_take_nth_drop)
  obtain xs ys where xy: "pend = xs @ (h, o') # ys" "take i pend = xs" "drop (Suc i) pend = ys"
    using pend by blast
  obtain f k where f: "F h = Some f" "point f = WaitIO k"
    using F(6) by (auto simp: pending_ok_def xy(1))
  let ?F = "F(h \<mapsto> f\<lparr>point := At k v\<rparr>)"
  have d: "h \<notin> fst ` set (xs @ ys)" "distinct (map fst (xs @ ys))"
    using F(6) by (auto simp: pending_ok_def xy(1))
  have "below ?F n" using F(1) f by (auto simp: below_def)
  moreover have "callees_ok ?F" using F(2) f by (fastforce simp: callees_ok_def)
  moreover have "callers_ok ?F" using F(3) f by (fastforce simp: callers_ok_def)
  moreover have "placed ?F [h] (xs @ ys)"
    unfolding placed_def
  proof (intro allI impI)
    fix j g assume g: "?F j = Some g"
    show "place_ok j g [h] (xs @ ys)"
    proof (cases "j = h")
      case True
      then show ?thesis using g by (auto simp: place_ok_def)
    next
      case False
      then have "place_ok j g [] pend" using F(4) g by (simp add: placed_def)
      then show ?thesis using False by (auto simp: place_ok_def xy(1) split: point.splits)
    qed
  qed
  moreover have "stack_ok ?F [h]" by (auto simp: stack_ok_def)
  moreover have "\<exists>f' k. ?F j = Some f' \<and> point f' = WaitIO k" if j: "j \<in> fst ` set (xs @ ys)" for j
  proof -
    have "j \<noteq> h" using j d(1) by auto
    moreover have "j \<in> fst ` set pend" using j xy(1) by auto
    ultimately show ?thesis using F(6) unfolding pending_ok_def by auto
  qed
  then have "pending_ok ?F (xs @ ys)" using d(2) by (simp add: pending_ok_def)
  ultimately show ?thesis using f by (auto simp: store_inv_def xy(2,3))
qed

lemma inv_start:
  assumes "store_inv F n [] pend"
  shows "store_inv (F(n \<mapsto> \<lparr>caller = None, promise_value = None, point = At l None\<rparr>)) (Suc n) [n] pend"
proof -
  have F: "below F n" "callees_ok F" "callers_ok F" "placed F [] pend" "pending_ok F pend"
    using assms by (simp_all add: store_inv_def)
  have new: "F n = None" using F(1) by (metis below_def not_None_eq less_irrefl)
  let ?F = "F(n \<mapsto> \<lparr>caller = None, promise_value = None, point = At l None\<rparr>)"
  have "below ?F (Suc n)" using F(1) by (auto simp: below_def less_Suc_eq)
  moreover have "callees_ok ?F" using F(2) new by (fastforce simp: callees_ok_def)
  moreover have "callers_ok ?F" using F(3) new by (fastforce simp: callers_ok_def)
  moreover have "placed ?F [n] pend"
    unfolding placed_def
  proof (intro allI impI)
    fix j g assume g: "?F j = Some g"
    show "place_ok j g [n] pend"
    proof (cases "j = n")
      case True
      then show ?thesis using g by (auto simp: place_ok_def)
    next
      case False
      then have "place_ok j g [] pend" using F(4) g by (simp add: placed_def)
      moreover from this have "point g \<noteq> Done" by (auto simp: place_ok_def)
      ultimately show ?thesis by (rule place_ok_mono) auto
    qed
  qed
  moreover have "stack_ok ?F [n]" by (auto simp: stack_ok_def)
  moreover have "pending_ok ?F pend" using F(5) new by (fastforce simp: pending_ok_def)
  ultimately show ?thesis by (simp add: store_inv_def)
qed

section \<open>Safety\<close>

lemma step_empty: "stack m = [] \<Longrightarrow> step body m = Inr m"
  by (simp add: step_def)

lemma create_eq [simp]:
  "create l H = (fresh H, H\<lparr>frames := (frames H)(fresh H \<mapsto> \<lparr>caller = None, promise_value = None, point = At l None\<rparr>),
     fresh := Suc (fresh H)\<rparr>)"
  by (simp add: create_def)

lemma frames_below:
  assumes "machine_inv m"
  shows "frames (mem m) (fresh (mem m)) = None"
  using assms unfolding machine_inv_def store_inv_def below_def by (metis not_None_eq less_irrefl)

lemma do_call_eq:
  assumes "frames (mem m) (fresh (mem m)) = None" "frames (mem m) h = Some f"
  shows "do_call h f st l k m =
    Inr (m\<lparr>mem := (mem m)\<lparr>frames := (frames (mem m))(fresh (mem m) \<mapsto>
               \<lparr>caller = Some h, promise_value = None, point = At l None\<rparr>,
               h \<mapsto> f\<lparr>point := WaitTask k (fresh (mem m))\<rparr>), fresh := Suc (fresh (mem m))\<rparr>,
          stack := fresh (mem m) # st\<rparr>)"
proof -
  have "fresh (mem m) \<noteq> h" using assms by auto
  then show ?thesis
    by (simp add: do_call_def set_frame_def await_ready_def done_handle_def await_suspend_def Let_def)
       (simp add: fun_upd_twist)
qed

lemma do_spawn_eq:
  "do_spawn h f st l k m =
    Inr (m\<lparr>mem := (mem m)\<lparr>frames := (frames (mem m))(fresh (mem m) \<mapsto>
               \<lparr>caller = None, promise_value = None, point = At l None\<rparr>,
               h \<mapsto> f\<lparr>point := At k None\<rparr>), fresh := Suc (fresh (mem m))\<rparr>,
          stack := fresh (mem m) # h # st\<rparr>)"
  by (simp add: do_spawn_def spawn_def take_Task_def set_frame_def)

lemma do_return_None:
  assumes "frames (mem m) h = Some f" "caller f = None"
  shows "do_return h f st v m =
    Inr (m\<lparr>mem := (mem m)\<lparr>frames := (frames (mem m))(h := None)\<rparr>, stack := st\<rparr>)"
  using assms by (simp add: do_return_def return_value_def final_await_suspend_def destroy_def set_frame_def)

lemma do_return_Some:
  assumes "frames (mem m) h = Some f" "caller f = Some p"
  shows "do_return h f st v m =
    Inr (m\<lparr>mem := (mem m)\<lparr>frames := (frames (mem m))(h \<mapsto> f\<lparr>promise_value := Some v, point := Done\<rparr>)\<rparr>,
           stack := p # st\<rparr>)"
  using assms by (simp add: do_return_def return_value_def final_await_suspend_def set_frame_def)

lemma do_resume_eq:
  assumes "frames (mem m) c = Some g" "promise_value g = Some r" "h \<noteq> c"
  shows "do_resume h f k c m =
    Inr (m\<lparr>mem := (mem m)\<lparr>frames := (frames (mem m))(c := None, h \<mapsto> f\<lparr>point := At k (Some r)\<rparr>)\<rparr>\<rparr>)"
  using assms by (simp add: do_resume_def await_resume_def destruct_Task_def destroy_def set_frame_def)

definition body_fault :: "('l, 'o, 'v, 'w) bodies \<Rightarrow> ('l, 'o, 'v, 'w) machine \<Rightarrow> hazard \<Rightarrow> bool" where
  "body_fault body m e \<longleftrightarrow>
     (\<exists>h st f l v. stack m = h # st \<and> frames (mem m) h = Some f \<and> point f = At l v \<and>
        ((e = terminated \<and> fst (body l v (world m)) = Throw) \<or>
         (e = undefined_access \<and> fst (body l v (world m)) = Undef)))"

text \<open>What a machine does next: nothing, go on after a task it has awaited, or run a coroutine from where it is.\<close>

lemma stepE:
  assumes "machine_inv m"
  obtains (idle) "stack m = []"
    | (task) h st f k c where "stack m = h # st" "frames (mem m) h = Some f" "point f = WaitTask k c"
    | (at) h st f l v where "stack m = h # st" "frames (mem m) h = Some f" "point f = At l v"
proof (cases "stack m")
  case Nil
  then show thesis by (rule idle)
next
  case (Cons h st)
  then have "store_inv (frames (mem m)) (fresh (mem m)) (h # st) (pending m)" using assms by (simp add: machine_inv_def)
  then obtain f where "frames (mem m) h = Some f" "(\<exists>l v. point f = At l v) \<or> (\<exists>k c. point f = WaitTask k c)"
    by (auto simp: store_inv_def stack_ok_def)
  then show thesis using task at Cons by blast
qed

lemma machine_storeD: "machine_inv m \<Longrightarrow> stack m = st \<Longrightarrow> store_inv (frames (mem m)) (fresh (mem m)) st (pending m)"
  by (simp add: machine_inv_def)

lemma step_after_task:
  assumes "machine_inv m" "stack m = h # st" "frames (mem m) h = Some f" "point f = WaitTask k c"
  obtains g r where "frames (mem m) c = Some g" "promise_value g = Some r" "h \<noteq> c"
    "store_inv ((frames (mem m))(c := None, h \<mapsto> f\<lparr>point := At k (Some r)\<rparr>)) (fresh (mem m)) (h # st) (pending m)"
    "step body m = Inr (m\<lparr>mem := (mem m)\<lparr>frames := (frames (mem m))(c := None, h \<mapsto> f\<lparr>point := At k (Some r)\<rparr>)\<rparr>\<rparr>)"
proof -
  obtain g r where g: "frames (mem m) c = Some g" "promise_value g = Some r" "h \<noteq> c"
      "store_inv ((frames (mem m))(c := None, h \<mapsto> f\<lparr>point := At k (Some r)\<rparr>)) (fresh (mem m)) (h # st) (pending m)"
    using inv_resume [OF machine_storeD [OF assms(1,2)] assms(3,4)] by (metis option.inject)
  then show thesis
    using that do_resume_eq [OF g(1-3), of f k] by (simp add: step_def assms(2-4))
qed

lemma step_at:
  assumes "stack m = h # st" "frames (mem m) h = Some f" "point f = At l v" "body l v (world m) = (a, w)"
  shows "step body m = (case a of
      Call l' k \<Rightarrow> do_call h f st l' k (m\<lparr>world := w\<rparr>)
    | Spawn l' k \<Rightarrow> do_spawn h f st l' k (m\<lparr>world := w\<rparr>)
    | Wait o' k \<Rightarrow> Inr (m\<lparr>world := w, mem := set_frame h (f\<lparr>point := WaitIO k\<rparr>) (mem m), stack := st,
          pending := pending m @ [(h, o')]\<rparr>)
    | Return v' \<Rightarrow> do_return h f st v' (m\<lparr>world := w\<rparr>)
    | Throw \<Rightarrow> Inl terminated
    | Undef \<Rightarrow> Inl undefined_access)"
  by (cases a) (simp_all add: step_def assms Let_def)

lemma step_call:
  assumes "machine_inv m" "stack m = h # st" "frames (mem m) h = Some f" "point f = At l v" "body l v (world m) = (Call l' k, w)"
  shows "step body m = Inr (m\<lparr>world := w, mem := (mem m)\<lparr>frames := (frames (mem m))(fresh (mem m) \<mapsto>
      \<lparr>caller = Some h, promise_value = None, point = At l' None\<rparr>, h \<mapsto> f\<lparr>point := WaitTask k (fresh (mem m))\<rparr>),
      fresh := Suc (fresh (mem m))\<rparr>, stack := fresh (mem m) # st\<rparr>)"
  using do_call_eq [of "m\<lparr>world := w\<rparr>" h f st l' k] frames_below [OF assms(1)] assms(3)
  by (simp add: step_at [where body = body, OF assms(2-5)])

lemma step_inv_at:
  assumes inv: "machine_inv m" and at: "stack m = h # st" "frames (mem m) h = Some f" "point f = At l v"
  shows "case step body m of Inl e \<Rightarrow> body_fault body m e | Inr m' \<Rightarrow> machine_inv m'"
proof -
  note s = machine_storeD [OF inv at(1)]
  obtain a w where a: "body l v (world m) = (a, w)" by (cases "body l v (world m)")
  note e = step_at [where body = body, OF at a]
  show ?thesis
  proof (cases a)
    case (Call l' k)
    then show ?thesis
      using inv_call [OF s at(2,3)] step_call [where body = body, OF inv at] a by (simp add: machine_inv_def)
  next
    case (Wait o' k)
    then show ?thesis using inv_wait [OF s at(2,3)] by (simp add: e machine_inv_def set_frame_def)
  next
    case (Spawn l' k)
    then show ?thesis using inv_spawn [OF s at(2,3)] by (simp add: e do_spawn_eq machine_inv_def)
  next
    case (Return r)
    show ?thesis
    proof (cases "caller f")
      case None
      then show ?thesis
        using inv_finish [OF s at(2,3) None] do_return_None [of "m\<lparr>world := w\<rparr>" h f st r] at(2)
        by (simp add: e Return machine_inv_def)
    next
      case (Some p)
      then show ?thesis
        using inv_return [OF s at(2,3) Some] do_return_Some [of "m\<lparr>world := w\<rparr>" h f p st r] at(2)
        by (simp add: e Return machine_inv_def)
    qed
  qed (use at a in \<open>auto simp: e body_fault_def\<close>)
qed

lemma step_inv:
  assumes inv: "machine_inv m"
  shows "case step body m of Inl e \<Rightarrow> body_fault body m e | Inr m' \<Rightarrow> machine_inv m'"
  using inv
proof (cases rule: stepE)
  case idle
  then show ?thesis using inv by (simp add: step_empty)
next
  case (task h st f k c)
  show ?thesis by (rule step_after_task [where body = body, OF inv task]) (simp add: machine_inv_def task(1))
next
  case (at h st f l v)
  then show ?thesis by (rule step_inv_at [OF inv])
qed

lemma complete_inv:
  assumes "machine_inv m" "stack m = []" "i < length (pending m)"
  shows "\<exists>m'. complete i v m = Inr m' \<and> machine_inv m' \<and> world m' = world m"
proof -
  obtain h o' where p: "pending m ! i = (h, o')" by (cases "pending m ! i")
  obtain f k where f: "frames (mem m) h = Some f" "point f = WaitIO k"
      "store_inv ((frames (mem m))(h \<mapsto> f\<lparr>point := At k (Some v)\<rparr>)) (fresh (mem m)) [h]
         (take i (pending m) @ drop (Suc i) (pending m))"
    using inv_complete [of _ _ "pending m" i h o'] assms p by (metis machine_inv_def)
  then show ?thesis by (simp add: complete_def p machine_inv_def set_frame_def)
qed

lemma start_inv:
  assumes "machine_inv m" "stack m = []"
  shows "\<exists>m'. start l m = Inr m' \<and> machine_inv m' \<and> world m' = world m"
  using assms inv_start [of "frames (mem m)" "fresh (mem m)" "pending m" l]
  by (simp add: start_def spawn_def take_Task_def machine_inv_def)

lemma machine_init_inv: "machine_inv (machine_init w)"
  by (simp add: machine_inv_def machine_init_def empty_heap_def store_inv_def store_parts)

text \<open>The states a program can get into: coroutines are spawned from outside, callbacks come in any
  order and with any results, and the running coroutines take steps.\<close>

inductive reaches :: "('l, 'o, 'v, 'w) bodies \<Rightarrow> 'w \<Rightarrow> ('l, 'o, 'v, 'w) machine \<Rightarrow> bool"
  for body :: "('l, 'o, 'v, 'w) bodies" and w :: 'w where
  reaches_init: "reaches body w (machine_init w)"
| reaches_start: "reaches body w m \<Longrightarrow> stack m = [] \<Longrightarrow> start l m = Inr m' \<Longrightarrow> reaches body w m'"
| reaches_step: "reaches body w m \<Longrightarrow> step body m = Inr m' \<Longrightarrow> reaches body w m'"
| reaches_complete: "reaches body w m \<Longrightarrow> stack m = [] \<Longrightarrow> i < length (pending m) \<Longrightarrow>
    complete i v m = Inr m' \<Longrightarrow> reaches body w m'"

lemma reaches_inv: "reaches body w m \<Longrightarrow> machine_inv m"
proof (induction rule: reaches.induct)
  case reaches_init
  then show ?case by (rule machine_init_inv)
next
  case (reaches_start m l m')
  then show ?case using start_inv [of m l] by auto
next
  case (reaches_step m m')
  then show ?case using step_inv [of m body] by simp
next
  case (reaches_complete m i v m')
  then show ?case using complete_inv [of m i v] by auto
qed

text \<open>C1: whatever the coroutines do, in whatever order callbacks come and with whatever results, no
  step uses or destroys a frame that is gone, resumes a finished or a waiting coroutine, or reads a
  result that is not there: a step fails only where a body itself throws or is undefined, and a
  callback never fails.\<close>

theorem tasks_are_memory_safe:
  assumes "reaches body w m"
  shows "(\<forall>e. step body m = Inl e \<longrightarrow> body_fault body m e) \<and>
    (stack m = [] \<longrightarrow> (\<forall>i v e. i < length (pending m) \<longrightarrow> complete i v m \<noteq> Inl e))"
proof -
  have inv: "machine_inv m" by (rule reaches_inv [OF assms])
  show ?thesis
  proof (intro conjI allI impI)
    fix e assume "step body m = Inl e"
    then show "body_fault body m e" using step_inv [OF inv, of body] by simp
  next
    fix i v e assume "stack m = []" "i < length (pending m)"
    then show "complete i v m \<noteq> Inl e" using complete_inv [OF inv, of i v] by auto
  qed
qed

text \<open>C5: when no coroutine is running, every frame is that of a coroutine awaiting a task or
  registered for a callback; and when no callback is registered either, every frame that was ever
  allocated has been destroyed.\<close>

theorem tasks_do_not_leak:
  assumes "reaches body w m" "stack m = []"
  shows "(\<forall>h f. frames (mem m) h = Some f \<longrightarrow> (\<exists>k c. point f = WaitTask k c) \<or> h \<in> fst ` set (pending m)) \<and>
    (pending m = [] \<longrightarrow> frames (mem m) = (\<lambda>h. None))"
proof
  have s: "store_inv (frames (mem m)) (fresh (mem m)) [] (pending m)"
    using reaches_inv [OF assms(1)] assms(2) by (simp add: machine_inv_def)
  show a: "\<forall>h f. frames (mem m) h = Some f \<longrightarrow> (\<exists>k c. point f = WaitTask k c) \<or> h \<in> fst ` set (pending m)"
  proof (intro allI impI)
    fix h f assume "frames (mem m) h = Some f"
    then have "place_ok h f [] (pending m)" using s by (simp add: store_inv_def placed_def)
    then show "(\<exists>k c. point f = WaitTask k c) \<or> h \<in> fst ` set (pending m)"
      by (auto simp: place_ok_def split: point.splits)
  qed
  show "pending m = [] \<longrightarrow> frames (mem m) = (\<lambda>h. None)"
  proof (intro impI ext)
    fix h assume p: "pending m = []"
    show "frames (mem m) h = None"
    proof (induction "fresh (mem m) - h" arbitrary: h rule: less_induct)
      case less
      show ?case
      proof (rule ccontr)
        assume "frames (mem m) h \<noteq> None"
        then obtain f where f: "frames (mem m) h = Some f" by blast
        then obtain k c where k: "point f = WaitTask k c" using a p by fastforce
        then have "h < c" "frames (mem m) c \<noteq> None" "h < fresh (mem m)"
          using s f unfolding store_inv_def callees_ok_def below_def by blast+
        then show False using less [of c] by simp
      qed
    qed
  qed
qed

section \<open>Running to a suspension\<close>

text \<open>At most \<open>n\<close> steps, until no coroutine is running.\<close>

fun run_steps :: "nat \<Rightarrow> ('l, 'o, 'v, 'w) bodies \<Rightarrow> ('l, 'o, 'v, 'w) machine \<Rightarrow>
    hazard + ('l, 'o, 'v, 'w) machine" where
  "run_steps 0 body m = Inr m"
| "run_steps (Suc n) body m =
     (if stack m = [] then Inr m
      else (case step body m of Inl e \<Rightarrow> Inl e | Inr m' \<Rightarrow> run_steps n body m'))"

lemma reaches_run_steps:
  "reaches body w m \<Longrightarrow> run_steps n body m = Inr m' \<Longrightarrow> reaches body w m'"
  by (induction n arbitrary: m) (auto split: if_splits sum.splits intro: reaches_step)

text \<open>A body for evaluation: 0 awaits 1, which waits for a callback and returns what it gets; then
  0 stores it in the world and returns.\<close>

fun sample_body :: "(nat, unit, nat, nat) bodies" where
  "sample_body l v w =
     (if l = 0 then (Call 1 2, w) else if l = 1 then (Wait () 3, w)
      else if l = 2 then (Return 0, the v) else (Return (the v), w))"

definition sample_waiting :: "(nat, unit, nat, nat) machine" where
  "sample_waiting =
     \<lparr>mem = \<lparr>frames = [0 \<mapsto> \<lparr>caller = None, promise_value = None, point = WaitTask 2 1\<rparr>,
                     1 \<mapsto> \<lparr>caller = Some 0, promise_value = None, point = WaitIO 3\<rparr>], fresh = 2\<rparr>,
      stack = [], pending = [(1, ())], world = 0\<rparr>"

definition sample_finished :: "(nat, unit, nat, nat) machine" where
  "sample_finished =
     \<lparr>mem = \<lparr>frames = (\<lambda>h. None), fresh = 2\<rparr>, stack = [], pending = [], world = 7\<rparr>"

lemmas machine_defs = step_def do_call_def do_resume_def do_return_def do_spawn_def spawn_def take_Task_def
  set_frame_def await_ready_def done_handle_def await_suspend_def await_resume_def destruct_Task_def
  destroy_def return_value_def final_await_suspend_def complete_def start_def machine_init_def
  empty_heap_def create_def

lemma sample_reaches_waiting: "reaches sample_body 0 sample_waiting"
proof -
  obtain m where m: "start 0 (machine_init 0) = Inr m" "run_steps 5 sample_body m = Inr sample_waiting"
    by (simp add: machine_defs numeral_eq_Suc sample_waiting_def Let_def fun_upd_twist)
  then have "reaches sample_body 0 m"
    by (intro reaches_start [OF reaches_init _ m(1)]) (simp add: machine_init_def)
  then show ?thesis using m(2) by (rule reaches_run_steps)
qed

lemma sample_reaches_finished: "reaches sample_body 0 sample_finished"
proof -
  obtain m where m: "complete 0 7 sample_waiting = Inr m" "run_steps 5 sample_body m = Inr sample_finished"
    by (simp add: machine_defs numeral_eq_Suc sample_waiting_def sample_finished_def Let_def fun_upd_twist)
  have "reaches sample_body 0 m"
    by (rule reaches_complete [OF sample_reaches_waiting _ _ m(1)]) (simp_all add: sample_waiting_def)
  then show ?thesis using m(2) by (rule reaches_run_steps)
qed

theorem tasks_are_memory_safe_witness:
  "\<forall>e. complete 0 7 sample_waiting \<noteq> Inl e"
proof -
  have "stack sample_waiting = []" "0 < length (pending sample_waiting)" by (simp_all add: sample_waiting_def)
  then show ?thesis using tasks_are_memory_safe [OF sample_reaches_waiting] by blast
qed

theorem tasks_do_not_leak_witness: "frames (mem sample_finished) = (\<lambda>h. None)"
  using tasks_do_not_leak [OF sample_reaches_finished] by (simp add: sample_finished_def)

section \<open>Hazards outside the protocol\<close>

text \<open>
  \<open>Task\<close> offers two more operations, which \<open>benchmark_mt.cpp\<close> does not use: move assignment, and
  \<open>resume\<close> on a task that stays an owner.
\<close>

text \<open>Move assignment drops the handle the target had: after destroying both tasks the target's
  old frame is still allocated.\<close>

theorem move_assignment_leaks:
  assumes "frames H h \<noteq> None" "frames H g \<noteq> None" "h \<noteq> g"
    and "assign_Task False (Some h) (Some g) = (this, other)"
  shows "\<exists>H1. destruct_Task other H = Inr H \<and> destruct_Task this H = Inr H1 \<and>
    frames H1 g = None \<and> frames H1 h \<noteq> None"
  using assms by (auto simp: assign_Task_def destruct_Task_def destroy_def)

theorem move_assignment_leaks_witness:
  "\<exists>H1. destruct_Task (Some 1) (snd (create 5 (snd (create 4 (empty_heap :: (nat, nat) heap))))) = Inr H1 \<and>
    frames H1 1 = None \<and> frames H1 0 \<noteq> None"
  using move_assignment_leaks [of "snd (create 5 (snd (create 4 (empty_heap :: (nat, nat) heap))))" 0 1
      "Some 1" None]
  by (simp add: create_def empty_heap_def assign_Task_def)

lemma move_construction_keeps_one_owner:
  "move_Task t = (u, t') \<Longrightarrow> u = t \<and> t' = None \<and> destruct_Task t' H = Inr H"
  by (auto simp: move_Task_def destruct_Task_def)

lemma self_assignment: "assign_Task True t t = (t, t)"
  by (simp add: assign_Task_def)

definition resume_Task :: "task \<Rightarrow> nat list \<Rightarrow> hazard + nat list" where
  "resume_Task t st = (case t of None \<Rightarrow> Inl undefined_access | Some h \<Rightarrow> Inr (h # st))"

text \<open>A task whose body returns at once, resumed by its owner, is destroyed by \<open>FinalAwaiter\<close>, and
  again by the destructor of the owner.\<close>

theorem resumed_task_is_destroyed_twice:
  assumes "fst (body l None w) = Return v"
    and "create l (mem m) = (c, H)" "resume_Task (Some c) [] = Inr st" "world m = w"
    and "step body (m\<lparr>mem := H, stack := st\<rparr>) = Inr m'"
  shows "stack m' = [] \<and> destruct_Task (Some c) (mem m') = Inl double_free"
proof -
  obtain w' where "body l None w = (Return v, w')" using assms(1) by (cases "body l None w") simp
  then show ?thesis
    using assms(2-) by (auto simp: machine_defs resume_Task_def Let_def)
qed

theorem resumed_task_is_destroyed_twice_witness:
  "destruct_Task (Some 0) (\<lparr>frames = (\<lambda>h. None), fresh = 1\<rparr> :: (nat, nat) heap) = Inl double_free"
proof -
  have "step (\<lambda>l v w. (Return 3, w))
     ((machine_init 0 :: (nat, unit, nat, nat) machine)\<lparr>mem := snd (create 0 empty_heap), stack := [0]\<rparr>) =
     Inr (machine_init 0\<lparr>mem := \<lparr>frames = (\<lambda>h. None), fresh = 1\<rparr>\<rparr>)"
    by (simp add: machine_defs Let_def)
  from resumed_task_is_destroyed_twice [OF _ _ _ _ this, of 0 0 3 0]
  show ?thesis by (simp add: machine_defs resume_Task_def)
qed

section \<open>The contract of the coroutine bodies\<close>

text \<open>
  What the machine asks of the bodies it runs, and what it gives in return: a body that is entered
  with an acceptable value at each local state, in a world that satisfies an invariant, keeps the
  invariant, goes on only to states that accept what they will get there, and is never undefined.
  \<open>accepts l v\<close>: the value with which state \<open>l\<close> may be entered; \<open>returns l r\<close>: what a coroutine
  at \<open>l\<close> may finally return; \<open>answers o r\<close>: what a callback of the operation \<open>o\<close> may give.
\<close>

fun act_ok ::
  "('l \<Rightarrow> 'v option \<Rightarrow> bool) \<Rightarrow> ('l \<Rightarrow> 'v \<Rightarrow> bool) \<Rightarrow> ('o \<Rightarrow> 'v \<Rightarrow> bool) \<Rightarrow> 'l \<Rightarrow> ('l, 'o, 'v) act \<Rightarrow> bool"
where
  "act_ok accepts returns answers l (Call l' k) \<longleftrightarrow>
     accepts l' None \<and> (\<forall>r. returns l' r \<longrightarrow> accepts k (Some r)) \<and> (\<forall>r. returns k r \<longrightarrow> returns l r)"
| "act_ok accepts returns answers l (Wait o' k) \<longleftrightarrow>
     (\<forall>r. answers o' r \<longrightarrow> accepts k (Some r)) \<and> (\<forall>r. returns k r \<longrightarrow> returns l r)"
| "act_ok accepts returns answers l (Spawn l' k) \<longleftrightarrow>
     accepts l' None \<and> accepts k None \<and> (\<forall>r. returns k r \<longrightarrow> returns l r)"
| "act_ok accepts returns answers l (Return r) \<longleftrightarrow> returns l r"
| "act_ok accepts returns answers l Throw \<longleftrightarrow> True"
| "act_ok accepts returns answers l Undef \<longleftrightarrow> False"

text \<open>The runs of a program from a given state, with callbacks that give what they may.\<close>

inductive runs ::
  "('o \<Rightarrow> 'v \<Rightarrow> bool) \<Rightarrow> ('l, 'o, 'v, 'w) bodies \<Rightarrow> ('l, 'o, 'v, 'w) machine \<Rightarrow>
   ('l, 'o, 'v, 'w) machine \<Rightarrow> bool"
  for answers body m0 where
  runs_refl: "runs answers body m0 m0"
| runs_step: "runs answers body m0 m \<Longrightarrow> step body m = Inr m' \<Longrightarrow> runs answers body m0 m'"
| runs_complete: "runs answers body m0 m \<Longrightarrow> stack m = [] \<Longrightarrow> i < length (pending m) \<Longrightarrow>
    pending m ! i = (h, o') \<Longrightarrow> answers o' v \<Longrightarrow> complete i v m = Inr m' \<Longrightarrow> runs answers body m0 m'"

lemma runs_run_steps:
  "runs answers body m0 m \<Longrightarrow> run_steps n body m = Inr m' \<Longrightarrow> runs answers body m0 m'"
  by (induction n arbitrary: m) (auto split: if_splits sum.splits intro: runs_step)

locale task_client =
  fixes body :: "('l, 'o, 'v, 'w) bodies"
    and accepts :: "'l \<Rightarrow> 'v option \<Rightarrow> bool"
    and returns :: "'l \<Rightarrow> 'v \<Rightarrow> bool"
    and answers :: "'o \<Rightarrow> 'v \<Rightarrow> bool"
    and good :: "'w \<Rightarrow> bool"
  assumes body_ok: "accepts l v \<Longrightarrow> good w \<Longrightarrow> body l v w = (a, w') \<Longrightarrow>
      good w' \<and> act_ok accepts returns answers l a"
begin

definition gives :: "('l, 'v) frame \<Rightarrow> 'v \<Rightarrow> bool" where
  "gives f r \<longleftrightarrow> (case point f of At l v \<Rightarrow> returns l r | WaitTask k c \<Rightarrow> returns k r
     | WaitIO k \<Rightarrow> returns k r | Done \<Rightarrow> promise_value f = Some r)"

definition typed :: "('l, 'v) store \<Rightarrow> (nat \<times> 'o) list \<Rightarrow> bool" where
  "typed F pend \<longleftrightarrow> (\<forall>h f. F h = Some f \<longrightarrow>
     (case point f of
        At l v \<Rightarrow> accepts l v
      | WaitTask k c \<Rightarrow> (\<forall>g r. F c = Some g \<and> gives g r \<longrightarrow> accepts k (Some r))
      | WaitIO k \<Rightarrow> (\<forall>o' r. (h, o') \<in> set pend \<and> answers o' r \<longrightarrow> accepts k (Some r))
      | Done \<Rightarrow> True))"

definition client_inv :: "('l, 'o, 'v, 'w) machine \<Rightarrow> bool" where
  "client_inv m \<longleftrightarrow> machine_inv m \<and> typed (frames (mem m)) (pending m) \<and> good (world m)"

lemma typedD_task: "typed F pend \<Longrightarrow> F h = Some f \<Longrightarrow> point f = WaitTask k c \<Longrightarrow>
    F c = Some g \<Longrightarrow> gives g r \<Longrightarrow> accepts k (Some r)"
  unfolding typed_def by fastforce

lemma typedD_at: "typed F pend \<Longrightarrow> F h = Some f \<Longrightarrow> point f = At l v \<Longrightarrow> accepts l v"
  unfolding typed_def by fastforce

lemma typedD_io: "typed F pend \<Longrightarrow> F h = Some f \<Longrightarrow> point f = WaitIO k \<Longrightarrow>
    (h, o') \<in> set pend \<Longrightarrow> answers o' r \<Longrightarrow> accepts k (Some r)"
  unfolding typed_def by fastforce

lemma typedI:
  assumes "\<And>h f l v. F h = Some f \<Longrightarrow> point f = At l v \<Longrightarrow> accepts l v"
    and "\<And>h f k c g r. F h = Some f \<Longrightarrow> point f = WaitTask k c \<Longrightarrow> F c = Some g \<Longrightarrow> gives g r \<Longrightarrow>
        accepts k (Some r)"
    and "\<And>h f k o' r. F h = Some f \<Longrightarrow> point f = WaitIO k \<Longrightarrow> (h, o') \<in> set pend \<Longrightarrow> answers o' r \<Longrightarrow>
        accepts k (Some r)"
  shows "typed F pend"
  unfolding typed_def using assms by (auto split: point.splits)

text \<open>Replacing a frame by one that gives no more than it does.\<close>

lemma typed_replace:
  assumes t: "typed F pend" and f: "F h = Some f" and less: "\<And>r. gives f' r \<Longrightarrow> gives f r"
    and at: "\<And>l v. point f' = At l v \<Longrightarrow> accepts l v"
    and task: "\<And>k c g r. point f' = WaitTask k c \<Longrightarrow> (F(h \<mapsto> f')) c = Some g \<Longrightarrow> gives g r \<Longrightarrow> accepts k (Some r)"
    and io: "\<And>k o' r. point f' = WaitIO k \<Longrightarrow> (h, o') \<in> set pend \<Longrightarrow> answers o' r \<Longrightarrow> accepts k (Some r)"
  shows "typed (F(h \<mapsto> f')) pend"
proof (rule typedI)
  fix i g l v assume i: "(F(h \<mapsto> f')) i = Some g" "point g = At l v"
  show "accepts l v"
    using i at typedD_at [OF t, of i g l v] by (cases "i = h") auto
next
  fix i g k c g' r
  assume i: "(F(h \<mapsto> f')) i = Some g" "point g = WaitTask k c" "(F(h \<mapsto> f')) c = Some g'" "gives g' r"
  show "accepts k (Some r)"
  proof (cases "i = h")
    case True
    then have "point f' = WaitTask k c" using i by simp
    then show ?thesis using task [of k c g' r] i(3,4) by blast
  next
    case False
    obtain g0 where "F c = Some g0" "gives g0 r"
      using i(3,4) f less by (cases "c = h") auto
    then show ?thesis using typedD_task [OF t, of i g k c g0 r] i False by simp
  qed
next
  fix i g k o' r
  assume i: "(F(h \<mapsto> f')) i = Some g" "point g = WaitIO k" "(i, o') \<in> set pend" "answers o' r"
  show "accepts k (Some r)"
    using i io typedD_io [OF t, of i g k o' r] by (cases "i = h") auto
qed

text \<open>A new frame, whose handle nobody awaits.\<close>

lemma typed_new:
  assumes t: "typed F pend" and new: "F n = None" and c: "callees_ok F" and at: "accepts l None"
  shows "typed (F(n \<mapsto> \<lparr>caller = p, promise_value = None, point = At l None\<rparr>)) pend"
proof (rule typedI)
  let ?F = "F(n \<mapsto> \<lparr>caller = p, promise_value = None, point = At l None\<rparr>)"
  fix i g l' v assume "?F i = Some g" "point g = At l' v"
  then show "accepts l' v"
    using at typedD_at [OF t, of i g l' v] by (cases "i = n") auto
next
  let ?F = "F(n \<mapsto> \<lparr>caller = p, promise_value = None, point = At l None\<rparr>)"
  fix i g k c g' r
  assume i: "?F i = Some g" "point g = WaitTask k c" "?F c = Some g'" "gives g' r"
  then have "i \<noteq> n" by auto
  then have "F i = Some g" using i by simp
  moreover from this have "c \<noteq> n" using c i(2) new unfolding callees_ok_def by fastforce
  ultimately show "accepts k (Some r)" using typedD_task [OF t, of i g k c g' r] i by simp
next
  let ?F = "F(n \<mapsto> \<lparr>caller = p, promise_value = None, point = At l None\<rparr>)"
  fix i g k o' r
  assume i: "?F i = Some g" "point g = WaitIO k" "(i, o') \<in> set pend" "answers o' r"
  then show "accepts k (Some r)"
    using typedD_io [OF t, of i g k o' r] by (cases "i = n") auto
qed

lemma typed_remove: "typed F pend \<Longrightarrow> typed (F(c := None)) pend"
  by (rule typedI) (auto split: if_splits intro: typedD_at typedD_task typedD_io)

lemma typed_pending:
  assumes "typed F pend" "set pend' \<subseteq> set pend"
  shows "typed F pend'"
  using assms by (intro typedI) (auto intro: typedD_at typedD_task typedD_io)

lemma typed_register:
  assumes t: "typed F pend" and h: "F h = Some f" "\<forall>k. point f \<noteq> WaitIO k"
  shows "typed F (pend @ [(h, o')])"
proof (rule typedI)
  fix i g k q r
  assume i: "F i = Some g" "point g = WaitIO k" "(i, q) \<in> set (pend @ [(h, o')])" "answers q r"
  have "i \<noteq> h" using i h by auto
  then show "accepts k (Some r)" using typedD_io [OF t, of i g k q r] i by simp
qed (use t in \<open>auto intro: typedD_at typedD_task\<close>)

lemma not_Undefined: "act_ok accepts returns answers l a \<Longrightarrow> a \<noteq> Undef"
  by auto

lemma gives_Call [simp]: "gives (f\<lparr>point := WaitTask k c\<rparr>) r \<longleftrightarrow> returns k r"
  by (simp add: gives_def)

lemma gives_At [simp]: "gives (f\<lparr>point := At k v\<rparr>) r \<longleftrightarrow> returns k r"
  "gives \<lparr>caller = p, promise_value = q, point = At k v\<rparr> r \<longleftrightarrow> returns k r"
  by (simp_all add: gives_def)

lemma gives_IO [simp]: "gives (f\<lparr>point := WaitIO k\<rparr>) r \<longleftrightarrow> returns k r"
  by (simp add: gives_def)

lemma typed_call:
  assumes "typed F pend" "F h = Some f" "point f = At l v" "F n = None" "callees_ok F"
    and a: "act_ok accepts returns answers l (Call l' k)"
  shows "typed (F(n \<mapsto> \<lparr>caller = p, promise_value = None, point = At l' None\<rparr>,
      h \<mapsto> f\<lparr>point := WaitTask k n\<rparr>)) pend"
proof (rule typed_replace)
  show "typed (F(n \<mapsto> \<lparr>caller = p, promise_value = None, point = At l' None\<rparr>)) pend"
    using assms by (intro typed_new) simp_all
  have hn: "h \<noteq> n" using assms(2,4) by auto
  then show "(F(n \<mapsto> \<lparr>caller = p, promise_value = None, point = At l' None\<rparr>)) h = Some f"
    using assms(2) by simp
  show "gives f r" if "gives (f\<lparr>point := WaitTask k n\<rparr>) r" for r
    using that a assms(3) by (simp add: gives_def)
  show "accepts k' (Some r)"
    if "point (f\<lparr>point := WaitTask k n\<rparr>) = WaitTask k' c"
      "(F(n \<mapsto> \<lparr>caller = p, promise_value = None, point = At l' None\<rparr>, h \<mapsto> f\<lparr>point := WaitTask k n\<rparr>)) c = Some g"
      "gives g r" for k' c g r
    using that hn a by auto
qed simp_all

lemma typed_spawn:
  assumes "typed F pend" "F h = Some f" "point f = At l v" "F n = None" "callees_ok F"
    and a: "act_ok accepts returns answers l (Spawn l' k)"
  shows "typed (F(n \<mapsto> \<lparr>caller = p, promise_value = None, point = At l' None\<rparr>,
      h \<mapsto> f\<lparr>point := At k None\<rparr>)) pend"
proof (rule typed_replace)
  show "typed (F(n \<mapsto> \<lparr>caller = p, promise_value = None, point = At l' None\<rparr>)) pend"
    using assms by (intro typed_new) simp_all
  show "(F(n \<mapsto> \<lparr>caller = p, promise_value = None, point = At l' None\<rparr>)) h = Some f"
    using assms(2,4) by auto
  show "gives f r" if "gives (f\<lparr>point := At k None\<rparr>) r" for r
    using that a assms(3) by (simp add: gives_def)
qed (use a in simp_all)

lemma typed_wait:
  assumes "typed F pend" "F h = Some f" "point f = At l v" "h \<notin> fst ` set pend"
    and a: "act_ok accepts returns answers l (Wait o' k)"
  shows "typed (F(h \<mapsto> f\<lparr>point := WaitIO k\<rparr>)) (pend @ [(h, o')])"
proof (rule typed_replace)
  show "typed F (pend @ [(h, o')])" using assms(1-3) by (auto intro: typed_register)
  show "gives f r" if "gives (f\<lparr>point := WaitIO k\<rparr>) r" for r
    using that a assms(3) by (simp add: gives_def)
  show "accepts k' (Some r)"
    if "point (f\<lparr>point := WaitIO k\<rparr>) = WaitIO k'" "(h, q) \<in> set (pend @ [(h, o')])" "answers q r" for k' q r
  proof -
    have "q = o'" using that(2) assms(4) by (force simp: image_iff)
    then show ?thesis using that a by simp
  qed
qed (use assms in simp_all)

lemma typed_return:
  assumes "typed F pend" "F h = Some f" "point f = At l v"
    and a: "act_ok accepts returns answers l (Return x)"
  shows "typed (F(h \<mapsto> f\<lparr>promise_value := Some x, point := Done\<rparr>)) pend"
proof (rule typed_replace)
  show "gives f r" if "gives (f\<lparr>promise_value := Some x, point := Done\<rparr>) r" for r
    using that a assms(3) by (simp add: gives_def)
qed (use assms in simp_all)

lemma client_step_after_task:
  assumes inv: "client_inv m" and task: "stack m = h # st" "frames (mem m) h = Some f" "point f = WaitTask k d"
  shows "\<exists>m'. step body m = Inr m' \<and> client_inv m'"
proof -
  have minv: "machine_inv m" and t: "typed (frames (mem m)) (pending m)" and g: "good (world m)"
    using inv by (simp_all add: client_inv_def)
  obtain q r where q: "frames (mem m) d = Some q" "promise_value q = Some r" "h \<noteq> d"
      "step body m = Inr (m\<lparr>mem := (mem m)\<lparr>frames := (frames (mem m))(d := None, h \<mapsto> f\<lparr>point := At k (Some r)\<rparr>)\<rparr>\<rparr>)"
    by (rule step_after_task [where body = body, OF minv task])
  have "point q = Done" using machine_storeD [OF minv task(1)] task(2,3) q(1) by (auto simp: store_inv_def stack_ok_def)
  then have "accepts k (Some r)"
    using typedD_task [OF t task(2,3) q(1), of r] q(2) by (simp add: gives_def)
  then have "typed ((frames (mem m))(d := None, h \<mapsto> f\<lparr>point := At k (Some r)\<rparr>)) (pending m)"
    using task(2,3) q(3) by (intro typed_replace [where f = f] typed_remove t) (simp_all add: gives_def)
  then show ?thesis using step_inv [OF minv, of body] q(4) g by (simp add: client_inv_def)
qed

lemma client_step_at:
  assumes inv: "client_inv m" and at: "stack m = h # st" "frames (mem m) h = Some f" "point f = At l v"
  shows "accepts l v \<and>
    (case step body m of Inl e \<Rightarrow> e = terminated \<and> fst (body l v (world m)) = Throw | Inr m' \<Rightarrow> client_inv m')"
proof -
  have minv: "machine_inv m" and t: "typed (frames (mem m)) (pending m)" and g: "good (world m)"
    using inv by (simp_all add: client_inv_def)
  note s = machine_storeD [OF minv at(1)]
  have c: "callees_ok (frames (mem m))" using s by (simp add: store_inv_def)
  obtain a w where a: "body l v (world m) = (a, w)" by (cases "body l v (world m)")
  have acc: "accepts l v" by (rule typedD_at [OF t at(2,3)])
  have ok: "good w" "act_ok accepts returns answers l a" using body_ok [OF acc g a] by simp_all
  note e = step_at [where body = body, OF at a]
  have si: "case step body m of Inl e \<Rightarrow> True | Inr m' \<Rightarrow> machine_inv m'"
    using step_inv [OF minv, of body] by (auto split: sum.splits)
  have "case step body m of Inl e \<Rightarrow> e = terminated \<and> fst (body l v (world m)) = Throw | Inr m' \<Rightarrow> client_inv m'"
  proof (cases a)
    case (Call l' k)
    then show ?thesis
      using typed_call [OF t at(2,3) frames_below [OF minv] c ok(2) [unfolded Call]] si ok(1)
        step_call [where body = body, OF minv at] a by (simp add: client_inv_def)
  next
    case (Wait o' k)
    have "h \<notin> fst ` set (pending m)" using s at(2,3) by (force simp: store_inv_def pending_ok_def)
    then show ?thesis
      using typed_wait [OF t at(2,3) _ ok(2) [unfolded Wait]] si ok(1) by (simp add: e Wait client_inv_def set_frame_def)
  next
    case (Spawn l' k)
    then show ?thesis
      using typed_spawn [OF t at(2,3) frames_below [OF minv] c ok(2) [unfolded Spawn]] si ok(1)
      by (simp add: e do_spawn_eq client_inv_def)
  next
    case (Return r)
    then show ?thesis
      using do_return_None [of "m\<lparr>world := w\<rparr>" h f st r] do_return_Some [of "m\<lparr>world := w\<rparr>" h f _ st r] at(2)
        typed_remove [OF t, of h] typed_return [OF t at(2,3) ok(2) [unfolded Return]] si ok(1)
      by (cases "caller f") (simp_all add: e client_inv_def)
  qed (use ok(2) a in \<open>simp_all add: e\<close>)
  then show ?thesis using acc by simp
qed

lemma client_step:
  assumes inv: "client_inv m"
  shows "case step body m of
      Inl e \<Rightarrow> e = terminated \<and> (\<exists>h st f l v. stack m = h # st \<and> frames (mem m) h = Some f \<and>
        point f = At l v \<and> accepts l v \<and> fst (body l v (world m)) = Throw)
    | Inr m' \<Rightarrow> client_inv m'"
proof -
  have "machine_inv m" using inv by (simp add: client_inv_def)
  then show ?thesis
  proof (cases rule: stepE)
    case idle
    then show ?thesis using inv by (simp add: step_empty)
  next
    case (task h st f k c)
    then show ?thesis using client_step_after_task [OF inv task] by auto
  next
    case (at h st f l v)
    then show ?thesis using client_step_at [OF inv at] by (auto split: sum.splits)
  qed
qed

lemma client_complete:
  assumes inv: "client_inv m" and idle: "stack m = []" and i: "i < length (pending m)"
    and p: "pending m ! i = (h, o')" and a: "answers o' v"
  shows "\<exists>m'. complete i v m = Inr m' \<and> client_inv m' \<and> world m' = world m"
proof -
  have minv: "machine_inv m" and t: "typed (frames (mem m)) (pending m)" and g: "good (world m)"
    using inv by (simp_all add: client_inv_def)
  obtain m' where m': "complete i v m = Inr m'" "machine_inv m'" "world m' = world m"
    using complete_inv [OF minv idle i] by blast
  have "(h, o') \<in> set (pending m)" using i p by (metis nth_mem)
  moreover obtain f k where f: "frames (mem m) h = Some f" "point f = WaitIO k"
    using inv_complete [of _ _ "pending m" i h o'] minv idle i p by (metis machine_inv_def)
  ultimately have "accepts k (Some v)" using typedD_io [OF t f] a by blast
  then have "typed ((frames (mem m))(h \<mapsto> f\<lparr>point := At k (Some v)\<rparr>))
      (take i (pending m) @ drop (Suc i) (pending m))"
    using f t by (intro typed_replace [where f = f] typed_pending [OF t])
      (auto simp: gives_def dest: in_set_takeD in_set_dropD)
  then have "typed (frames (mem m')) (pending m')"
    using m'(1) f by (auto simp: complete_def p set_frame_def)
  then show ?thesis using m' g by (simp add: client_inv_def)
qed

lemma client_runs: "runs answers body m0 m \<Longrightarrow> client_inv m0 \<Longrightarrow> client_inv m"
proof (induction rule: runs.induct)
  case (runs_step m m')
  then show ?case using client_step [of m] by simp
next
  case (runs_complete m i h o' v m')
  then show ?case using client_complete [of m i h o' v] by auto
qed

lemma client_never_undefined:
  assumes "runs answers body m0 m" "client_inv m0" "step body m = Inl e"
  shows "e = terminated"
  using client_step [OF client_runs [OF assms(1,2)]] assms(3) by simp

lemma client_start:
  assumes "machine_inv m" "frames (mem m) = (\<lambda>h. None)" "pending m = []" "stack m = []"
    "good (world m)" "accepts l None"
  shows "\<exists>m'. start l m = Inr m' \<and> client_inv m' \<and> world m' = world m"
proof -
  obtain m' where m': "start l m = Inr m'" "machine_inv m'" "world m' = world m"
    using start_inv [OF assms(1,4)] by blast
  have "typed (\<lambda>h. None) (pending m)" by (rule typedI) auto
  then have "typed (frames (mem m')) (pending m')"
    using m'(1) typed_new [of "\<lambda>h. None" "pending m" "fresh (mem m)" l] assms(2,6)
    by (auto simp: start_def spawn_def take_Task_def callees_ok_def)
  then show ?thesis using m' assms(5) by (simp add: client_inv_def)
qed

end

end
