(* ===== verification/Context_Pool.thy ===== *)
theory Context_Pool
  imports Prelude "HOL-Library.Multiset"
begin

text \<open>
  \<open>asio/benchmark/io_context_pool.hpp\<close>: a pool of \<open>io_context\<close>s handed out in turn. The contexts
  themselves belong to asio: \<open>'c\<close> is a reference to one, \<open>'w\<close> the state of all of them, and the
  calls the pool makes are the fields of \<open>asio_api\<close>. An undefined access is \<open>None\<close>.
\<close>

section \<open>The pool\<close>

record ('c, 'w) asio_api =
  make_context :: "'w \<Rightarrow> 'c \<times> 'w"
  make_work_guard :: "'c \<Rightarrow> 'w \<Rightarrow> 'w"
  reset_work_guard :: "'c \<Rightarrow> 'w \<Rightarrow> 'w"
  stop_context :: "'c \<Rightarrow> 'w \<Rightarrow> 'w"
  run_context :: "'c \<Rightarrow> 'w \<Rightarrow> 'w option"

text \<open>A work guard is \<open>Some c\<close> while it owns work of \<open>c\<close> and \<open>None\<close> after \<open>reset\<close>.\<close>

record 'c pool =
  next_io_context :: "64 word"
  io_contexts :: "'c list"
  work_guards :: "'c option list"

definition empty_pool :: "'c pool" where
  "empty_pool = \<lparr>next_io_context = 0, io_contexts = [], work_guards = []\<rparr>"

text \<open>
  The constructor's loop. \<open>auto i = 0u\<close> is an \<open>unsigned int\<close>, of 32 bits; the bound is a
  \<open>size_t\<close>, of 64. The loop may not end, so it is a partial function.
\<close>

partial_function (option) construct_loop ::
  "('c, 'w) asio_api \<Rightarrow> 64 word \<Rightarrow> 32 word \<Rightarrow> 'c pool \<Rightarrow> 'w \<Rightarrow> ('c pool \<times> 'w) option" where
  "construct_loop a pool_size i p w =
     (if ucast i < pool_size then
        (case make_context a w of (c, w1) \<Rightarrow>
           construct_loop a pool_size (i + 1)
             (p\<lparr>io_contexts := io_contexts p @ [c], work_guards := work_guards p @ [Some c]\<rparr>)
             (make_work_guard a c w1))
      else Some (p, w))"

definition IOContextPool ::
  "('c, 'w) asio_api \<Rightarrow> 64 word \<Rightarrow> 'w \<Rightarrow> ('c pool \<times> 'w) option" where
  "IOContextPool a pool_size w = construct_loop a pool_size 0 empty_pool w"

definition get_io_context :: "'c pool \<Rightarrow> ('c \<times> 'c pool) option" where
  "get_io_context p =
     (if unat (next_io_context p) < length (io_contexts p) then
        (let io_context = io_contexts p ! unat (next_io_context p);
             next = next_io_context p + 1
         in Some (io_context,
              p\<lparr>next_io_context := (if next = of_nat (length (io_contexts p)) then 0 else next)\<rparr>))
      else None)"

text \<open>
  \<open>run\<close> starts one thread for each context and joins them in the order they were started.
  A thread ends when its context's \<open>run()\<close> does; \<open>None\<close> if one does not.
\<close>

datatype 'c thread_event = Start 'c | Join 'c

fun run_all :: "('c, 'w) asio_api \<Rightarrow> 'c list \<Rightarrow> 'w \<Rightarrow> 'w option" where
  "run_all a [] w = Some w"
| "run_all a (c # cs) w = Option.bind (run_context a c w) (run_all a cs)"

definition run :: "('c, 'w) asio_api \<Rightarrow> 'c pool \<Rightarrow> 'w \<Rightarrow> ('c thread_event list \<times> 'w) option" where
  "run a p w =
     map_option (\<lambda>w'. (map Start (io_contexts p) @ map Join (io_contexts p), w'))
       (run_all a (io_contexts p) w)"

text \<open>\<open>reset\<close> of a guard that owns nothing does nothing.\<close>

fun reset_all :: "('c, 'w) asio_api \<Rightarrow> 'c option list \<Rightarrow> 'w \<Rightarrow> 'w" where
  "reset_all a [] w = w"
| "reset_all a (None # gs) w = reset_all a gs w"
| "reset_all a (Some c # gs) w = reset_all a gs (reset_work_guard a c w)"

fun stop_all :: "('c, 'w) asio_api \<Rightarrow> 'c list \<Rightarrow> 'w \<Rightarrow> 'w" where
  "stop_all a [] w = w"
| "stop_all a (c # cs) w = stop_all a cs (stop_context a c w)"

definition stop :: "('c, 'w) asio_api \<Rightarrow> 'c pool \<Rightarrow> 'w \<Rightarrow> 'c pool \<times> 'w" where
  "stop a p w = (p\<lparr>work_guards := []\<rparr>, stop_all a (io_contexts p) (reset_all a (work_guards p) w))"

text \<open>The destructor stops the pool; the world is what is left of the contexts.\<close>

definition destruct_IOContextPool :: "('c, 'w) asio_api \<Rightarrow> 'c pool \<Rightarrow> 'w \<Rightarrow> 'w" where
  "destruct_IOContextPool a p w = snd (stop a p w)"

section \<open>The interface: handing out members in turn\<close>

text \<open>
  What a client such as the accept loop of \<open>benchmark_mt.cpp\<close> relies on: a source of members,
  in a fixed order, with a position that every pick moves to the next.
\<close>

locale round_robin =
  fixes pick :: "'p \<Rightarrow> ('c \<times> 'p) option"
    and members :: "'p \<Rightarrow> 'c list"
    and position :: "'p \<Rightarrow> nat"
    and good :: "'p \<Rightarrow> bool"
  assumes pick_good: "good p \<Longrightarrow> members p \<noteq> [] \<Longrightarrow>
      \<exists>p'. pick p = Some (members p ! position p, p') \<and> good p' \<and> members p' = members p \<and>
        position p' = Suc (position p) mod length (members p)"
    and position_less: "good p \<Longrightarrow> members p \<noteq> [] \<Longrightarrow> position p < length (members p)"
    and pick_empty: "good p \<Longrightarrow> members p = [] \<Longrightarrow> pick p = None"
begin

fun picks :: "nat \<Rightarrow> 'p \<Rightarrow> ('c list \<times> 'p) option" where
  "picks 0 p = Some ([], p)"
| "picks (Suc n) p =
     Option.bind (pick p) (\<lambda>(c, q). map_option (\<lambda>(cs, r). (c # cs, r)) (picks n q))"

lemma picks_in_turn:
  assumes "good p" "members p \<noteq> []"
  shows "\<exists>q. picks n p = Some (map (\<lambda>i. members p ! ((position p + i) mod length (members p))) [0..<n], q) \<and>
    good q \<and> members q = members p \<and> position q = (position p + n) mod length (members p)"
  using assms
proof (induction n arbitrary: p)
  case 0
  then show ?case using position_less by simp
next
  case (Suc n)
  let ?l = "length (members p)"
  obtain q where q: "pick p = Some (members p ! position p, q)" "good q" "members q = members p"
      "position q = Suc (position p) mod ?l"
    using pick_good Suc.prems by blast
  obtain r where r: "picks n q = Some (map (\<lambda>i. members p ! ((position q + i) mod ?l)) [0..<n], r)"
      "good r" "members r = members p" "position r = (position q + n) mod ?l"
    using Suc.IH [of q] q Suc.prems by auto
  have "[0..<Suc n] = 0 # map Suc [0..<n]" by (simp add: map_Suc_upt upt_conv_Cons)
  moreover have "(position q + i) mod ?l = (position p + Suc i) mod ?l" for i
    by (simp add: q(4) mod_simps)
  ultimately show ?case
    using position_less [OF Suc.prems] r by (simp add: q(1) comp_def)
qed

lemma picks_none: "good p \<Longrightarrow> members p = [] \<Longrightarrow> picks (Suc n) p = None"
  by (simp add: pick_empty)

text \<open>A full round hands out every member once, whatever the position it starts at.\<close>

lemma picks_round:
  assumes "good p" "members p \<noteq> []"
  shows "\<exists>cs q. picks (length (members p)) p = Some (cs, q) \<and>
    cs = rotate (position p) (members p) \<and> position q = position p"
proof -
  let ?l = "length (members p)"
  have less: "position p < ?l" by (rule position_less [OF assms])
  have "map (\<lambda>i. members p ! ((position p + i) mod ?l)) [0..<?l] = rotate (position p) (members p)"
    by (rule nth_equalityI) (simp_all add: nth_rotate)
  then show ?thesis using picks_in_turn [OF assms, of ?l] less by auto
qed

end

lemma mset_rotate: "mset (rotate n xs) = mset xs"
proof (induction n)
  case (Suc n)
  have "mset (rotate1 ys) = mset ys" for ys :: "'a list" by (cases ys) simp_all
  then show ?case using Suc by simp
qed simp

section \<open>The invariant\<close>

definition pool_inv :: "'c pool \<Rightarrow> bool" where
  "pool_inv p \<longleftrightarrow> length (io_contexts p) < 2 ^ 64 \<and>
     (if io_contexts p = [] then next_io_context p = 0
      else unat (next_io_context p) < length (io_contexts p))"

lemma get_io_context_step:
  assumes "pool_inv p" "io_contexts p \<noteq> []"
  shows "\<exists>q. get_io_context p = Some (io_contexts p ! unat (next_io_context p), q) \<and> pool_inv q \<and>
    io_contexts q = io_contexts p \<and> work_guards q = work_guards p \<and>
    unat (next_io_context q) = Suc (unat (next_io_context p)) mod length (io_contexts p)"
proof -
  let ?n = "next_io_context p" and ?l = "length (io_contexts p)"
  have l: "?l < 2 ^ LENGTH(64)" "unat ?n < ?l" using assms by (simp_all add: pool_inv_def)
  have s: "unat (?n + 1) = unat ?n + 1" using l by (intro unat_Suc_small) simp
  have "?n + 1 = of_nat ?l \<longleftrightarrow> unat ?n + 1 = ?l"
    using unat_of_nat_small [OF l(1)] s by (metis word_unat_eq_iff)
  then show ?thesis
    using l s assms(2) by (auto simp: get_io_context_def pool_inv_def Let_def)
qed

interpretation rr: round_robin get_io_context io_contexts "\<lambda>p. unat (next_io_context p)" pool_inv
proof
  show "\<exists>p'. get_io_context p = Some (io_contexts p ! unat (next_io_context p), p') \<and> pool_inv p' \<and>
      io_contexts p' = io_contexts p \<and>
      unat (next_io_context p') = Suc (unat (next_io_context p)) mod length (io_contexts p)"
    if "pool_inv p" "io_contexts p \<noteq> []" for p :: "'a pool"
    using get_io_context_step [OF that] by blast
qed (simp_all add: pool_inv_def get_io_context_def)

section \<open>Construction\<close>

lemma ucast_less_size:
  fixes i :: "32 word" and n :: "64 word"
  shows "ucast i < n \<longleftrightarrow> unat i < unat n"
proof -
  have "unat i < 2 ^ LENGTH(32)" by (rule unsigned_less)
  then have "unat (ucast i :: 64 word) = unat i"
    by (simp add: unsigned_ucast_eq take_bit_nat_eq_self)
  then show ?thesis by (simp add: word_less_nat_alt)
qed

definition guarded :: "'c pool \<Rightarrow> bool" where
  "guarded p \<longleftrightarrow> work_guards p = map Some (io_contexts p)"

lemma construct_loop_ends:
  assumes "unat i \<le> unat n" "unat n < 2 ^ 32" "length (io_contexts p) = unat i" "guarded p"
  shows "\<exists>q w'. construct_loop a n i p w = Some (q, w') \<and> length (io_contexts q) = unat n \<and>
    guarded q \<and> next_io_context q = next_io_context p"
  using assms
proof (induction "unat n - unat i" arbitrary: i p w)
  case 0
  then show ?case
    by (subst construct_loop.simps) (simp add: ucast_less_size)
next
  case (Suc d)
  have less: "unat i < unat n" using Suc.hyps(2) by simp
  have i: "unat (i + 1) = unat i + 1" using less Suc.prems(2) by (intro unat_Suc_small) simp
  obtain c w1 where c: "make_context a w = (c, w1)" by (cases "make_context a w")
  let ?p = "p\<lparr>io_contexts := io_contexts p @ [c], work_guards := work_guards p @ [Some c]\<rparr>"
  have "\<exists>q w'. construct_loop a n (i + 1) ?p (make_work_guard a c w1) = Some (q, w') \<and>
      length (io_contexts q) = unat n \<and> guarded q \<and> next_io_context q = next_io_context ?p"
    using Suc.prems Suc.hyps less i by (intro Suc.hyps(1)) (auto simp: guarded_def)
  then show ?case
    using less by (subst construct_loop.simps) (simp add: ucast_less_size c)
qed

lemma construct_loop_never_ends:
  assumes "2 ^ 32 \<le> unat n"
  shows "construct_loop a n i p w = None"
proof -
  have less: "ucast i < n" if "2 ^ 32 \<le> unat n" for i :: "32 word" and n :: "64 word"
    using that unsigned_less [of i, where ?'a = nat] by (simp add: ucast_less_size)
  have False if c: "construct_loop a n i p w = Some y" for y
  proof (rule construct_loop.raw_induct [where P = "\<lambda>a n i p w y. 2 ^ 32 \<le> unat n \<longrightarrow> False", OF _ c, THEN mp, OF _ assms])
    fix loop and a :: "('a, 'b) asio_api" and n :: "64 word" and i :: "32 word" and p w y
    assume IH: "\<And>a n i p w y. loop a n i p w = Some y \<Longrightarrow> 2 ^ 32 \<le> unat n \<longrightarrow> False"
      and step: "(if ucast i < n then
          (case make_context a w of (c, w1) \<Rightarrow>
             loop a n (i + 1) (p\<lparr>io_contexts := io_contexts p @ [c], work_guards := work_guards p @ [Some c]\<rparr>)
               (make_work_guard a c w1))
        else Some (p, w)) = Some y"
    show "2 ^ 32 \<le> unat n \<longrightarrow> False"
    proof
      assume "2 ^ 32 \<le> unat n"
      then show False using IH step less [of n i] by (auto split: prod.splits)
    qed
  qed
  then show ?thesis by (cases "construct_loop a n i p w") auto
qed

lemma IOContextPool_result:
  "case IOContextPool a n w of
     None \<Rightarrow> 2 ^ 32 \<le> unat n
   | Some (p, w') \<Rightarrow> unat n < 2 ^ 32 \<and> length (io_contexts p) = unat n \<and>
       work_guards p = map Some (io_contexts p) \<and> next_io_context p = 0 \<and> pool_inv p"
proof (cases "unat n < 2 ^ 32")
  case True
  obtain q w' where "construct_loop a n 0 empty_pool w = Some (q, w')" "length (io_contexts q) = unat n"
      "guarded q" "next_io_context q = 0"
    using construct_loop_ends [of 0 n empty_pool a w] True by (auto simp: empty_pool_def guarded_def)
  then show ?thesis using True
    by (auto simp: IOContextPool_def guarded_def pool_inv_def simp flip: length_greater_0_conv)
next
  case False
  then show ?thesis by (simp add: IOContextPool_def construct_loop_never_ends)
qed

text \<open>C24: the constructor returns exactly for sizes that a 32-bit counter can reach (any smaller
  than 2^32): it then makes as many contexts as asked, each kept alive by a work guard, with the
  first one next; for a larger size the counter wraps around and the loop never ends.\<close>

theorem IOContextPool_returns:
  "case IOContextPool a n w of
     None \<Rightarrow> 2 ^ 32 \<le> unat n
   | Some (p, w') \<Rightarrow> unat n < 2 ^ 32 \<and> length (io_contexts p) = unat n \<and>
       work_guards p = map Some (io_contexts p) \<and> next_io_context p = 0 \<and> pool_inv p"
  by (rule IOContextPool_result)

section \<open>Use\<close>

text \<open>Calls of \<open>get_io_context\<close>, one after the other.\<close>

fun get_io_contexts :: "nat \<Rightarrow> 'c pool \<Rightarrow> ('c list \<times> 'c pool) option" where
  "get_io_contexts 0 p = Some ([], p)"
| "get_io_contexts (Suc n) p =
     Option.bind (get_io_context p) (\<lambda>(c, q). map_option (\<lambda>(cs, r). (c # cs, r)) (get_io_contexts n q))"

lemma get_io_contexts_picks: "get_io_contexts n p = rr.picks n p"
proof (induction n arbitrary: p)
  case (Suc n)
  show ?case by (simp only: get_io_contexts.simps rr.picks.simps Suc)
qed (simp only: get_io_contexts.simps rr.picks.simps)

text \<open>C8: a pool of n contexts hands them out in turn for ever: the k-th call after construction
  (counting from 0) returns context k modulo n, and every call keeps the invariant, so no call
  reads out of range.\<close>

theorem contexts_in_turn:
  assumes "IOContextPool a n w = Some (p, w')" "n \<noteq> 0"
  shows "\<exists>q. get_io_contexts k p = Some (map (\<lambda>i. io_contexts p ! (i mod unat n)) [0..<k], q) \<and>
    pool_inv q \<and> io_contexts q = io_contexts p"
proof -
  have p: "length (io_contexts p) = unat n" "next_io_context p = 0" "pool_inv p"
    using IOContextPool_result [where a = a and n = n and w = w] assms(1) by simp_all
  have ne: "io_contexts p \<noteq> []" using p(1) assms(2) by (auto simp: unat_eq_0)
  show ?thesis
    using rr.picks_in_turn [OF p(3) ne, of k] by (auto simp: get_io_contexts_picks p)
qed

text \<open>An api to evaluate on: contexts are numbered, the world lists those that were stopped.\<close>

definition sample_asio :: "(nat, nat list) asio_api" where
  "sample_asio = \<lparr>make_context = (\<lambda>w. (length w, 0 # w)), make_work_guard = (\<lambda>c w. w),
     reset_work_guard = (\<lambda>c w. w), stop_context = (\<lambda>c w. c # w),
     run_context = (\<lambda>c w. if c \<in> set w then Some w else None)\<rparr>"

definition sample_pool_of :: "nat list \<Rightarrow> nat option list \<Rightarrow> nat pool" where
  "sample_pool_of cs gs = \<lparr>next_io_context = 0, io_contexts = cs, work_guards = gs\<rparr>"

lemma sample_pool:
  "IOContextPool sample_asio 2 [] =
     Some (\<lparr>next_io_context = 0, io_contexts = [0, 1], work_guards = [Some 0, Some 1]\<rparr>, [0, 0])"
  by (simp add: IOContextPool_def construct_loop.simps empty_pool_def sample_asio_def
      ucast_less_size)

theorem contexts_in_turn_witness:
  "\<exists>q. get_io_contexts 3
      \<lparr>next_io_context = 0, io_contexts = [0, 1 :: nat], work_guards = [Some 0, Some 1]\<rparr> = Some ([0, 1, 0], q) \<and>
    pool_inv q \<and> io_contexts q = [0, 1]"
  using contexts_in_turn [OF sample_pool, of 3] by (simp add: upt_rec)

text \<open>A full round of n calls hands out each context exactly once and leaves the pool where it
  was, so connections are spread evenly.\<close>

theorem full_round:
  assumes "pool_inv p" "io_contexts p \<noteq> []"
  shows "\<exists>cs q. get_io_contexts (length (io_contexts p)) p = Some (cs, q) \<and>
    mset cs = mset (io_contexts p) \<and> next_io_context q = next_io_context p"
proof -
  obtain cs q where "get_io_contexts (length (io_contexts p)) p = Some (cs, q)"
      "cs = rotate (unat (next_io_context p)) (io_contexts p)"
      "unat (next_io_context q) = unat (next_io_context p)"
    using rr.picks_round [OF assms] unfolding get_io_contexts_picks by blast
  then show ?thesis by (auto simp: mset_rotate word_unat_eq_iff)
qed

theorem full_round_witness:
  "\<exists>cs q. get_io_contexts 2
      \<lparr>next_io_context = 1, io_contexts = [7, 8 :: nat], work_guards = []\<rparr> = Some (cs, q) \<and>
    mset cs = mset [7, 8] \<and> next_io_context q = 1"
proof -
  have "pool_inv \<lparr>next_io_context = 1, io_contexts = [7, 8 :: nat], work_guards = []\<rparr>"
    by (simp add: pool_inv_def)
  then show ?thesis
    using full_round [of "\<lparr>next_io_context = 1, io_contexts = [7, 8 :: nat], work_guards = []\<rparr>"]
    by (simp only: pool.simps list.size add_0 One_nat_def numeral_2_eq_2) simp
qed

text \<open>A pool of size 0 can be made, but its first \<open>get_io_context\<close> reads out of range.\<close>

lemma empty_pool_hands_out_nothing:
  "IOContextPool a 0 w = Some (empty_pool, w)" "get_io_context empty_pool = None"
  by (simp_all add: IOContextPool_def construct_loop.simps empty_pool_def get_io_context_def)

section \<open>Stopping\<close>

lemma stop_all_stops:
  assumes "\<And>c w. stopped c (stop_context a c w)"
    and "\<And>c d w. stopped c w \<Longrightarrow> stopped c (stop_context a d w)"
  shows "stopped c w \<or> c \<in> set cs \<Longrightarrow> stopped c (stop_all a cs w)"
  using assms by (induction cs arbitrary: w) auto

lemma run_all_returns:
  assumes "\<And>c w. stopped c w \<Longrightarrow> \<exists>w'. run_context a c w = Some w'"
    and "\<And>c d w w'. stopped c w \<Longrightarrow> run_context a d w = Some w' \<Longrightarrow> stopped c w'"
    and "\<forall>c\<in>set cs. stopped c w"
  shows "\<exists>w'. run_all a cs w = Some w'"
  using assms(3)
proof (induction cs arbitrary: w)
  case (Cons c cs)
  obtain w1 where w1: "run_context a c w = Some w1" using assms(1) Cons.prems by fastforce
  moreover have "\<forall>d\<in>set cs. stopped d w1" using assms(2) [OF _ w1] Cons.prems by simp
  ultimately show ?case using Cons.IH by simp
qed simp
text \<open>If, as asio documents, \<open>io_context::stop\<close> makes the context's \<open>run\<close> return and this
  lasts until a restart, then after \<open>stop\<close> no work guard is left and \<open>run\<close> of the whole pool
  returns, having started every thread and joined every thread.\<close>

theorem stop_ends_run:
  assumes stops: "\<And>c w. stopped c (stop_context a c w)"
    and lasts: "\<And>c d w. stopped c w \<Longrightarrow> stopped c (stop_context a d w)"
      "\<And>c d w w'. stopped c w \<Longrightarrow> run_context a d w = Some w' \<Longrightarrow> stopped c w'"
    and returns: "\<And>c w. stopped c w \<Longrightarrow> \<exists>w'. run_context a c w = Some w'"
    and stop: "stop a p w = (q, w1)"
  shows "work_guards q = [] \<and> (\<exists>w2. run a q w1 =
    Some (map Start (io_contexts p) @ map Join (io_contexts p), w2))"
proof -
  have q: "q = p\<lparr>work_guards := []\<rparr>" "w1 = stop_all a (io_contexts p) (reset_all a (work_guards p) w)"
    using stop by (auto simp: stop_def)
  have "\<forall>c\<in>set (io_contexts p). stopped c w1"
    unfolding q(2) using stops lasts(1) by (auto intro: stop_all_stops [where stopped = stopped])
  then have "\<exists>w2. run_all a (io_contexts p) w1 = Some w2"
    by (rule run_all_returns [where stopped = stopped, rotated 2]) (fact returns, fact lasts(2))
  then show ?thesis by (auto simp add: run_def q(1))
qed

theorem stop_ends_run_witness:
  "work_guards (sample_pool_of [0, 1] []) = [] \<and>
   (\<exists>w2. run sample_asio (sample_pool_of [0, 1] []) [1, 0] =
     Some (map Start [0, 1] @ map Join [0, 1], w2))"
proof -
  have "stop sample_asio (sample_pool_of [0, 1] [Some 0, Some 1]) [] = (sample_pool_of [0, 1] [], [1, 0])"
    by (simp add: stop_def sample_pool_of_def sample_asio_def)
  moreover have "c \<in> set (stop_context sample_asio c w)" for c w
    by (simp add: sample_asio_def)
  moreover have "c \<in> set (stop_context sample_asio d w)" if "c \<in> set w" for c d w
    using that by (simp add: sample_asio_def)
  moreover have "c \<in> set w'" if "c \<in> set w" "run_context sample_asio d w = Some w'" for c d w w'
    using that by (simp add: sample_asio_def split: if_splits)
  moreover have "\<exists>w'. run_context sample_asio c w = Some w'" if "c \<in> set w" for c w
    using that by (simp add: sample_asio_def)
  ultimately have "work_guards (sample_pool_of [0, 1] []) = [] \<and>
   (\<exists>w2. run sample_asio (sample_pool_of [0, 1] []) [1, 0] =
     Some (map Start (io_contexts (sample_pool_of [0, 1] [Some 0, Some 1])) @
           map Join (io_contexts (sample_pool_of [0, 1] [Some 0, Some 1])), w2))"
    by (intro stop_ends_run [where stopped = "\<lambda>c w. c \<in> set w"]) blast+
  then show ?thesis by (simp only: sample_pool_of_def pool.simps)
qed

text \<open>Stopping again, as the destructor does after an explicit \<open>stop\<close>, resets no guard twice.\<close>

lemma destruct_after_stop:
  "stop a p w = (q, w1) \<Longrightarrow> destruct_IOContextPool a q w1 = stop_all a (io_contexts p) w1"
  by (auto simp: destruct_IOContextPool_def stop_def)

end
