(* ===== verification/Logging.thy ===== *)
theory Logging
  imports Prelude "HOL-Library.Signed_Division"
begin

text \<open>
  \<open>asio/learn_asio/log.hpp\<close> and \<open>debug.hpp\<close>: the console logger, its time stamps (a thread-local
  33-byte buffer that is only partly rewritten within one second) and the macros that compile to
  nothing in a release build. The local time zone is an argument, \<open>localtime\<close>; \<open>None\<close> from it is
  its null result. Array accesses are checked: an access outside a buffer is the error
  \<open>Undefined\<close>, an exception thrown by the formatting functions is \<open>Format_error\<close>.
\<close>

section \<open>Levels and styles\<close>

datatype LogLevel = TRACE | DEBUG | INFO | WARN | ERROR | FATAL

datatype LogStyle = FG | BG

fun level_val :: "LogLevel \<Rightarrow> nat" where
  "level_val TRACE = 0"
| "level_val DEBUG = 1"
| "level_val INFO = 2"
| "level_val WARN = 3"
| "level_val ERROR = 4"
| "level_val FATAL = 5"

lemma level_val_inj: "level_val a = level_val b \<longleftrightarrow> a = b"
  by (cases a; cases b) simp_all

text \<open>The order of the scoped enumeration, that of the underlying integers.\<close>

instantiation LogLevel :: linorder
begin

definition less_eq_LogLevel :: "LogLevel \<Rightarrow> LogLevel \<Rightarrow> bool" where
  "less_eq_LogLevel a b \<longleftrightarrow> level_val a \<le> level_val b"

definition less_LogLevel :: "LogLevel \<Rightarrow> LogLevel \<Rightarrow> bool" where
  "less_LogLevel a b \<longleftrightarrow> level_val a < level_val b"

instance
  by standard (auto simp: less_eq_LogLevel_def less_LogLevel_def level_val_inj)

end

text \<open>
  The switches have a \<open>default\<close> for integers outside the enumeration, which no value of
  \<open>LogLevel\<close> reaches.
\<close>

fun level_to_string :: "LogLevel \<Rightarrow> string" where
  "level_to_string TRACE = ''TRACE''"
| "level_to_string DEBUG = ''DEBUG''"
| "level_to_string INFO = ''INFO ''"
| "level_to_string WARN = ''WARN ''"
| "level_to_string ERROR = ''ERROR''"
| "level_to_string FATAL = ''FATAL''"

definition sgr_seq :: "string \<Rightarrow> string" where
  "sgr_seq s = CHR 0x1B # s"

fun to_color_fg :: "LogLevel \<Rightarrow> string" where
  "to_color_fg TRACE = sgr_seq ''[36m''"
| "to_color_fg DEBUG = sgr_seq ''[94m''"
| "to_color_fg INFO = sgr_seq ''[32m''"
| "to_color_fg WARN = sgr_seq ''[33m''"
| "to_color_fg ERROR = sgr_seq ''[31m''"
| "to_color_fg FATAL = sgr_seq ''[35m''"

fun to_color_bg :: "LogLevel \<Rightarrow> string" where
  "to_color_bg TRACE = sgr_seq ''[97;46m''"
| "to_color_bg DEBUG = sgr_seq ''[97;44m''"
| "to_color_bg INFO = sgr_seq ''[97;42m''"
| "to_color_bg WARN = sgr_seq ''[90;43m''"
| "to_color_bg ERROR = sgr_seq ''[97;41m''"
| "to_color_bg FATAL = sgr_seq ''[97;45m''"

fun to_color :: "LogLevel \<Rightarrow> LogStyle \<Rightarrow> string" where
  "to_color l FG = to_color_fg l"
| "to_color l BG = to_color_bg l"

definition source_color :: string where
  "source_color = sgr_seq ''[90m''"

definition reset_color :: string where
  "reset_color = sgr_seq ''[0m''"

record source_location =
  file_name :: string
  line :: nat
  fun_name :: string

definition function_name :: "LogLevel \<Rightarrow> source_location \<Rightarrow> string" where
  "function_name l loc = (if l \<le> DEBUG then ''|'' @ fun_name loc @ ''|'' else [])"

section \<open>Time stamps\<close>

datatype log_error = Undefined | Format_error

text \<open>\<open>p[--size] = ch\<close> on a span.\<close>

definition put_left :: "char \<Rightarrow> string \<times> int \<Rightarrow> log_error + string \<times> int" where
  "put_left ch ps =
     (case ps of (p, sz) \<Rightarrow>
        let sz' = sz - 1 in
        if 0 \<le> sz' \<and> sz' < int (length p) then Inr (p[nat sz' := ch], sz')
        else Inl Undefined)"

fun put_digits :: "nat \<Rightarrow> 64 word \<Rightarrow> string \<times> int \<Rightarrow> log_error + string \<times> int" where
  "put_digits 0 num ps = Inr ps"
| "put_digits (Suc n) num ps =
     (case put_left (digit_char (unat (num mod 10))) ps of
        Inl e \<Rightarrow> Inl e
      | Inr ps' \<Rightarrow> put_digits n (num div 10) ps')"

definition to_int :: "nat \<Rightarrow> char \<Rightarrow> 64 word \<Rightarrow> string \<times> int \<Rightarrow> log_error + string \<times> int" where
  "to_int N c num ps =
     (case put_digits N num ps of
        Inl e \<Rightarrow> Inl e
      | Inr ps' \<Rightarrow> if N \<noteq> 4 then put_left c ps' else Inr ps')"

record tm =
  tm_sec :: int
  tm_min :: int
  tm_hour :: int
  tm_mday :: int
  tm_mon :: int
  tm_year :: int

text \<open>The two thread-local variables, and what they are at the start of a thread.\<close>

record ts_state =
  buf :: string
  last_second :: int

definition ts_init :: ts_state where
  "ts_init = \<lparr>buf = replicate 33 CHR 0x00, last_second = 0\<rparr>"

text \<open>A \<open>char *\<close> given to \<open>std::format\<close> is read up to its first zero byte.\<close>

definition c_str :: "string \<Rightarrow> string" where
  "c_str p = takeWhile (\<lambda>c. c \<noteq> CHR 0x00) p"

text \<open>
  A time point is its count of nanoseconds since the epoch; \<open>duration_cast\<close> truncates towards
  zero. An \<open>int\<close> passed to \<open>to_int\<close> becomes a \<open>uint64_t\<close>, modulo \<open>2 ^ 64\<close>.
\<close>

definition ts_seconds :: "int \<Rightarrow> int" where
  "ts_seconds now = now sdiv 1000000000"

definition ts_millis :: "int \<Rightarrow> int" where
  "ts_millis now = (now - ts_seconds now * 1000000000) sdiv 1000000"

definition chain :: "'e + 'a \<Rightarrow> ('a \<Rightarrow> 'e + 'b) \<Rightarrow> 'e + 'b" where
  "chain r f = (case r of Inl e \<Rightarrow> Inl e | Inr x \<Rightarrow> f x)"

definition get_timestamp ::
  "(int \<Rightarrow> tm option) \<Rightarrow> int \<Rightarrow> ts_state \<Rightarrow> log_error + string \<times> ts_state" where
  "get_timestamp localtime now st =
     (let seconds = ts_seconds now; milliseconds = ts_millis now; sz = 23 in
      if last_second st = seconds then
        chain (to_int 3 CHR ''.'' (word_of_int milliseconds) (buf st, sz))
          (\<lambda>(b, _). Inr (c_str b, st\<lparr>buf := b\<rparr>))
      else
        (case localtime seconds of
           None \<Rightarrow> Inl Undefined
         | Some t \<Rightarrow>
             chain (to_int 3 CHR ''.'' (word_of_int milliseconds) (buf st, sz)) (\<lambda>ps.
             chain (to_int 2 CHR '':'' (word_of_int (tm_sec t)) ps) (\<lambda>ps.
             chain (to_int 2 CHR '':'' (word_of_int (tm_min t)) ps) (\<lambda>ps.
             chain (to_int 2 CHR '' '' (word_of_int (tm_hour t)) ps) (\<lambda>ps.
             chain (to_int 2 CHR ''-'' (word_of_int (tm_mday t)) ps) (\<lambda>ps.
             chain (to_int 2 CHR ''-'' (word_of_int (tm_mon t + 1)) ps) (\<lambda>ps.
             chain (to_int 4 CHR '' '' (word_of_int (tm_year t + 1900)) ps) (\<lambda>(b, _).
               Inr (c_str b, \<lparr>buf = b, last_second = seconds\<rparr>))))))))))"

section \<open>Formatting\<close>

text \<open>
  \<open>std::vformat\<close> for the format strings of the sources: literal text, the escapes \<open>{{\<close> and
  \<open>}}\<close>, and the automatically numbered field \<open>{}\<close> whose argument is given as its text.
  \<open>None\<close> is a thrown \<open>std::format_error\<close> (an unmatched brace, an argument that is missing); a
  field with a specification, which no call of the sources has, is \<open>None\<close> too.
\<close>

fun vformat :: "string \<Rightarrow> string list \<Rightarrow> string option" where
  "vformat [] args = Some []"
| "vformat (c # s) args =
     (if c = CHR ''{'' then
        (case s of
           [] \<Rightarrow> None
         | d # s' \<Rightarrow>
             (if d = CHR ''{'' then map_option ((#) d) (vformat s' args)
              else if d = CHR ''}'' then
                (case args of [] \<Rightarrow> None | a # args' \<Rightarrow> map_option ((@) a) (vformat s' args'))
              else None))
      else if c = CHR ''}'' then
        (case s of
           [] \<Rightarrow> None
         | d # s' \<Rightarrow> (if d = CHR ''}'' then map_option ((#) d) (vformat s' args) else None))
      else map_option ((#) c) (vformat s args))"

definition log_line ::
  "string \<Rightarrow> LogLevel \<Rightarrow> LogStyle \<Rightarrow> source_location \<Rightarrow> string \<Rightarrow> string" where
  "log_line stamp l style loc message =
     stamp @ '' |'' @ to_color l style @ pad_right 5 (level_to_string l) @ reset_color @ ''| ''
     @ source_color @ file_name loc @ '':'' @ dec_nat (line loc) @ function_name l loc
     @ reset_color @ '' '' @ message @ [CHR 0x0A]"

section \<open>The logger\<close>

record ConsoleLogger =
  log_level :: LogLevel
  log_style :: LogStyle

text \<open>What a log call reads and writes: the logger, the thread's time stamp state, \<open>std::clog\<close>.\<close>

record log_world =
  logger :: ConsoleLogger
  stamp_state :: ts_state
  clog :: string

definition logger_init :: ConsoleLogger where
  "logger_init = \<lparr>log_level = DEBUG, log_style = FG\<rparr>"

definition world_init :: log_world where
  "world_init = \<lparr>logger = logger_init, stamp_state = ts_init, clog = []\<rparr>"

definition set_level :: "LogLevel \<Rightarrow> log_world \<Rightarrow> log_world" where
  "set_level l w = w\<lparr>logger := (logger w)\<lparr>log_level := l\<rparr>\<rparr>"

definition set_style :: "LogStyle \<Rightarrow> log_world \<Rightarrow> log_world" where
  "set_style s w = w\<lparr>logger := (logger w)\<lparr>log_style := s\<rparr>\<rparr>"

text \<open>One call: its level, format, source location, arguments and the clock's reading.\<close>

record log_call =
  call_level :: LogLevel
  call_fmt :: string
  call_loc :: source_location
  call_args :: "string list"
  call_now :: int

definition log_at :: "(int \<Rightarrow> tm option) \<Rightarrow> log_call \<Rightarrow> log_world \<Rightarrow> log_error + log_world" where
  "log_at localtime c w =
     (if call_level c < log_level (logger w) then Inr w
      else (case vformat (call_fmt c) (call_args c) of
          None \<Rightarrow> Inl Format_error
        | Some message \<Rightarrow>
            chain (get_timestamp localtime (call_now c) (stamp_state w)) (\<lambda>(stamp, ts).
              Inr (w\<lparr>stamp_state := ts,
                     clog := clog w @ log_line stamp (call_level c) (log_style (logger w))
                               (call_loc c) message\<rparr>))))"

text \<open>The six public members fix the level.\<close>

definition console_trace :: "(int \<Rightarrow> tm option) \<Rightarrow> log_call \<Rightarrow> log_world \<Rightarrow> log_error + log_world" where
  "console_trace lt c = log_at lt (c\<lparr>call_level := TRACE\<rparr>)"

definition console_debug :: "(int \<Rightarrow> tm option) \<Rightarrow> log_call \<Rightarrow> log_world \<Rightarrow> log_error + log_world" where
  "console_debug lt c = log_at lt (c\<lparr>call_level := DEBUG\<rparr>)"

definition console_info :: "(int \<Rightarrow> tm option) \<Rightarrow> log_call \<Rightarrow> log_world \<Rightarrow> log_error + log_world" where
  "console_info lt c = log_at lt (c\<lparr>call_level := INFO\<rparr>)"

definition console_warn :: "(int \<Rightarrow> tm option) \<Rightarrow> log_call \<Rightarrow> log_world \<Rightarrow> log_error + log_world" where
  "console_warn lt c = log_at lt (c\<lparr>call_level := WARN\<rparr>)"

definition console_error :: "(int \<Rightarrow> tm option) \<Rightarrow> log_call \<Rightarrow> log_world \<Rightarrow> log_error + log_world" where
  "console_error lt c = log_at lt (c\<lparr>call_level := ERROR\<rparr>)"

definition console_fatal :: "(int \<Rightarrow> tm option) \<Rightarrow> log_call \<Rightarrow> log_world \<Rightarrow> log_error + log_world" where
  "console_fatal lt c = log_at lt (c\<lparr>call_level := FATAL\<rparr>)"

fun log_all :: "(int \<Rightarrow> tm option) \<Rightarrow> log_call list \<Rightarrow> log_world \<Rightarrow> log_error + log_world" where
  "log_all lt [] w = Inr w"
| "log_all lt (c # cs) w = chain (log_at lt c w) (log_all lt cs)"

section \<open>The macros of debug.hpp\<close>

text \<open>
  With \<open>NDEBUG\<close> the logging macros and \<open>PRINT\<close> expand to nothing, so not even their arguments
  are evaluated. \<open>ASSERT\<close> calls \<open>assert\<close>, which aborts on a false condition; the message of
  \<open>ASSERT_MSG\<close> is a non-null pointer joined to the condition.
\<close>

definition LOG :: "bool \<Rightarrow> (int \<Rightarrow> tm option) \<Rightarrow> log_call \<Rightarrow> log_world \<Rightarrow> log_error + log_world" where
  "LOG ndebug lt c w = (if ndebug then Inr w else log_at lt c w)"

definition SET_LOG_LEVEL :: "bool \<Rightarrow> LogLevel \<Rightarrow> log_world \<Rightarrow> log_world" where
  "SET_LOG_LEVEL ndebug l w = (if ndebug then w else set_level l w)"

definition SET_LOG_STYLE :: "bool \<Rightarrow> LogStyle \<Rightarrow> log_world \<Rightarrow> log_world" where
  "SET_LOG_STYLE ndebug s w = (if ndebug then w else set_style s w)"

datatype abort = Abort

definition ASSERT :: "bool \<Rightarrow> bool \<Rightarrow> abort + unit" where
  "ASSERT ndebug x = (if ndebug then Inr () else if x then Inr () else Inl Abort)"

definition ASSERT_MSG :: "bool \<Rightarrow> bool \<Rightarrow> string \<Rightarrow> abort + unit" where
  "ASSERT_MSG ndebug x msg = ASSERT ndebug (x \<and> True)"

section \<open>Reference: what a stamp and a log show\<close>

text \<open>The last \<open>k\<close> decimal digits of a number.\<close>

fun digits :: "nat \<Rightarrow> nat \<Rightarrow> string" where
  "digits 0 n = []"
| "digits (Suc k) n = digits k (n div 10) @ [digit_char (n mod 10)]"

definition stamp_date :: "tm \<Rightarrow> string" where
  "stamp_date t =
     digits 4 (nat (tm_year t + 1900)) @ ''-'' @ digits 2 (nat (tm_mon t + 1)) @ ''-''
     @ digits 2 (nat (tm_mday t)) @ '' '' @ digits 2 (nat (tm_hour t)) @ '':''
     @ digits 2 (nat (tm_min t)) @ '':'' @ digits 2 (nat (tm_sec t))"

definition stamp_text :: "tm \<Rightarrow> nat \<Rightarrow> string" where
  "stamp_text t ms = stamp_date t @ CHR ''.'' # digits 3 ms"

text \<open>The ranges the C standard gives for the fields, with a year of at most four digits.\<close>

definition tm_ok :: "tm \<Rightarrow> bool" where
  "tm_ok t \<longleftrightarrow> 0 \<le> tm_sec t \<and> tm_sec t \<le> 60 \<and> 0 \<le> tm_min t \<and> tm_min t \<le> 59 \<and>
     0 \<le> tm_hour t \<and> tm_hour t \<le> 23 \<and> 1 \<le> tm_mday t \<and> tm_mday t \<le> 31 \<and>
     0 \<le> tm_mon t \<and> tm_mon t \<le> 11 \<and> 0 \<le> tm_year t + 1900 \<and> tm_year t + 1900 \<le> 9999"

text \<open>A clock reading after the first second of the epoch.\<close>

definition now_ok :: "int \<Rightarrow> bool" where
  "now_ok now \<longleftrightarrow> 1000000000 \<le> now"

definition stamp_of :: "(int \<Rightarrow> tm option) \<Rightarrow> int \<Rightarrow> string" where
  "stamp_of lt now =
     stamp_text (the (lt (now div 1000000000))) (nat (now div 1000000 mod 1000))"

definition localtime_ok :: "(int \<Rightarrow> tm option) \<Rightarrow> bool" where
  "localtime_ok lt \<longleftrightarrow> (\<forall>s. pred_option tm_ok (lt s) \<and> lt s \<noteq> None)"

fun stamp_all :: "(int \<Rightarrow> tm option) \<Rightarrow> int list \<Rightarrow> ts_state \<Rightarrow> log_error + string list" where
  "stamp_all lt [] st = Inr []"
| "stamp_all lt (now # nows) st =
     chain (get_timestamp lt now st) (\<lambda>(s, st'). map_sum id ((#) s) (stamp_all lt nows st'))"

text \<open>The buffer holds the date of \<open>last_second\<close> and ends in zero bytes.\<close>

definition ts_inv :: "(int \<Rightarrow> tm option) \<Rightarrow> ts_state \<Rightarrow> bool" where
  "ts_inv lt st \<longleftrightarrow> length (buf st) = 33 \<and> drop 23 (buf st) = replicate 10 CHR 0x00 \<and>
     (last_second st = 0 \<or> take 19 (buf st) = stamp_date (the (lt (last_second st))))"

text \<open>
  What a line of the log has to be, from tables of its own: four columns, with the attributes as the parameters of the escape sequences
  (SGR) of a terminal. Only the levels below \<open>INFO\<close> show the function.
\<close>

definition level_column :: "LogLevel \<Rightarrow> string" where
  "level_column l = [''TRACE'', ''DEBUG'', ''INFO '', ''WARN '', ''ERROR'', ''FATAL''] ! level_val l"

definition level_attributes :: "LogStyle \<Rightarrow> LogLevel \<Rightarrow> nat list" where
  "level_attributes style l =
     (case style of
        FG \<Rightarrow> [[36], [94], [32], [33], [31], [35]]
      | BG \<Rightarrow> [[97, 46], [97, 44], [97, 42], [90, 43], [97, 41], [97, 45]]) ! level_val l"

definition attributed :: "nat list \<Rightarrow> string \<Rightarrow> string" where
  "attributed ns s = CHR 0x1B # ''['' @ join '';'' (map dec_nat ns) @ ''m'' @ s @ CHR 0x1B # ''[0m''"

definition call_place :: "log_call \<Rightarrow> string" where
  "call_place c = file_name (call_loc c) @ '':'' @ dec_nat (line (call_loc c)) @
     (if call_level c = TRACE \<or> call_level c = DEBUG then ''|'' @ fun_name (call_loc c) @ ''|'' else [])"

definition call_message :: "log_call \<Rightarrow> string" where
  "call_message c = the (vformat (call_fmt c) (call_args c))"

definition call_line :: "(int \<Rightarrow> tm option) \<Rightarrow> LogStyle \<Rightarrow> log_call \<Rightarrow> string" where
  "call_line lt style c =
     join '' '' [stamp_of lt (call_now c), ''|'' @ attributed (level_attributes style (call_level c)) (level_column (call_level c)) @ ''|'',
       attributed [90] (call_place c), call_message c] @ [CHR 0x0A]"

text \<open>What a terminal shows of a text, its attributes apart, and what it has to show of a line.\<close>

fun skip_sequence :: "string \<Rightarrow> string" where
  "skip_sequence [] = []"
| "skip_sequence (c # s) = (if c = CHR ''m'' then s else skip_sequence s)"

lemma skip_sequence_shorter [termination_simp]: "length (skip_sequence s) \<le> length s"
  by (induction s) auto

fun visible :: "string \<Rightarrow> string" where
  "visible [] = []"
| "visible (c # s) = (if c = CHR 0x1B then visible (skip_sequence s) else c # visible s)"

definition plain_line :: "(int \<Rightarrow> tm option) \<Rightarrow> log_call \<Rightarrow> string" where
  "plain_line lt c =
     join '' '' [stamp_of lt (call_now c), ''|'' @ level_column (call_level c) @ ''|'', call_place c, call_message c] @ [CHR 0x0A]"

definition no_escape :: "log_call \<Rightarrow> bool" where
  "no_escape c \<longleftrightarrow> CHR 0x1B \<notin> set (call_place c) \<and> CHR 0x1B \<notin> set (call_message c)"

section \<open>Lemmas\<close>

lemma chain_simps [simp]: "chain (Inl e) f = Inl e" "chain (Inr x) f = f x"
  by (simp_all add: chain_def)

lemma length_digits [simp]: "length (digits k n) = k"
  by (induction k arbitrary: n) auto

lemma digits_numerals:
  "digits 2 n = [digit_char (n div 10 mod 10), digit_char (n mod 10)]"
  "digits 3 n = [digit_char (n div 100 mod 10), digit_char (n div 10 mod 10), digit_char (n mod 10)]"
  "digits 4 n = [digit_char (n div 1000 mod 10), digit_char (n div 100 mod 10),
     digit_char (n div 10 mod 10), digit_char (n mod 10)]"
proof -
  have k: "2 = Suc (Suc 0)" "3 = Suc (Suc (Suc 0))" "4 = Suc (Suc (Suc (Suc 0)))" by simp_all
  have d: "n div 10 div 10 = n div 100" "n div 100 div 10 = n div 1000"
    using div_mult2_eq [of n 10 10] div_mult2_eq [of n 100 10] by simp_all
  show "digits 2 n = [digit_char (n div 10 mod 10), digit_char (n mod 10)]"
    "digits 3 n = [digit_char (n div 100 mod 10), digit_char (n div 10 mod 10), digit_char (n mod 10)]"
    "digits 4 n = [digit_char (n div 1000 mod 10), digit_char (n div 100 mod 10),
       digit_char (n div 10 mod 10), digit_char (n mod 10)]"
    unfolding k by (simp_all only: digits.simps d append.simps)
qed

lemma digits_are_digits: "c \<in> set (digits k n) \<Longrightarrow> is_digit c"
  by (induction k arbitrary: n) (auto simp: digit_char_digit)

lemma nat_of_dec_snoc: "nat_of_dec (xs @ [c]) = 10 * nat_of_dec xs + digit_val c"
  by (simp add: nat_of_dec_def)

lemma nat_of_dec_digits: "nat_of_dec (digits k n) = n mod 10 ^ k"
proof (induction k arbitrary: n)
  case 0
  then show ?case by (simp add: nat_of_dec_def)
next
  case (Suc k)
  then show ?case by (simp add: nat_of_dec_snoc digit_char_val mod_mult2_eq)
qed

lemma put_left_ok:
  "put_left c (pre @ [x] @ suf, int (Suc (length pre))) = Inr (pre @ c # suf, int (length pre))"
  by (simp add: put_left_def nat_int list_update_append)

lemma put_digits_ok:
  "length pre = k + m \<Longrightarrow>
     put_digits k num (pre @ suf, int (k + m)) = Inr (take m pre @ digits k (unat num) @ suf, int m)"
proof (induction k arbitrary: pre suf num)
  case 0
  then show ?case by simp
next
  case (Suc k)
  then obtain pre' x where pre: "pre = pre' @ [x]" and l: "length pre' = k + m"
    by (cases pre rule: rev_cases) auto
  have "put_left (digit_char (unat (num mod 10))) (pre @ suf, int (Suc k + m)) =
      Inr (pre' @ digit_char (unat num mod 10) # suf, int (k + m))"
    using put_left_ok [of _ pre' x suf] by (simp add: pre l unat_mod)
  with Suc.IH [OF l, of "num div 10" "digit_char (unat num mod 10) # suf"] show ?case
    by (simp add: pre l unat_div)
qed

lemma to_int_ok:
  assumes "N \<noteq> 4" "length pre = Suc N + m"
  shows "to_int N c num (pre @ suf, int (Suc N + m)) =
     Inr (take m pre @ c # digits N (unat num) @ suf, int m)"
proof -
  have t: "take (Suc m) pre = take m pre @ [pre ! m]"
    using assms(2) by (simp add: take_Suc_conv_app_nth)
  have "put_digits N num (pre @ suf, int (N + Suc m)) =
      Inr (take (Suc m) pre @ digits N (unat num) @ suf, int (Suc m))"
    by (rule put_digits_ok) (use assms(2) in simp)
  then show ?thesis
    using assms put_left_ok [of c "take m pre" "pre ! m" "digits N (unat num) @ suf"]
    by (simp add: to_int_def t)
qed

lemma to_int_4_ok:
  assumes "length pre = 4 + m"
  shows "to_int 4 c num (pre @ suf, int (4 + m)) = Inr (take m pre @ digits 4 (unat num) @ suf, int m)"
  using put_digits_ok [OF assms, of num suf] by (simp add: to_int_def)

lemma put_digits_short:
  "0 \<le> i \<Longrightarrow> i < int k \<Longrightarrow> put_digits k num (p, i) = Inl Undefined"
proof (induction k arbitrary: p i num)
  case 0
  then show ?case by simp
next
  case (Suc k)
  then show ?case
    by (cases "i = 0") (auto simp: put_left_def Let_def)
qed

lemma unat_word_of_nonneg: "0 \<le> i \<Longrightarrow> i < 2 ^ 64 \<Longrightarrow> unat (word_of_int i :: 64 word) = nat i"
  by (simp add: unsigned_of_int take_bit_int_eq_self)

lemma stamp_date_length [simp]: "length (stamp_date t) = 19"
  by (simp add: stamp_date_def)

lemma not_NUL: "is_digit c \<Longrightarrow> c \<noteq> CHR 0x00"
  by (auto simp: is_digit_def)

lemma stamp_text_no_NUL: "c \<in> set (stamp_text t ms) \<Longrightarrow> c \<noteq> CHR 0x00"
  by (auto simp: stamp_text_def stamp_date_def dest!: digits_are_digits not_NUL)

lemma c_str_stamp: "c_str (stamp_text t ms @ replicate 10 CHR 0x00) = stamp_text t ms"
proof -
  have "replicate 10 (CHR 0x00) = CHR 0x00 # replicate 9 CHR 0x00"
    by (simp add: numeral_eq_Suc)
  then show ?thesis
    by (simp add: c_str_def takeWhile_append2 stamp_text_no_NUL)
qed

lemma sdiv_nonneg: "0 \<le> a \<Longrightarrow> 0 < b \<Longrightarrow> a sdiv b = a div (b :: int)"
  by (cases "a = 0") (simp_all add: signed_divide_int_def)

lemma now_seconds:
  assumes "now_ok now"
  shows "ts_seconds now = now div 1000000000" "0 < ts_seconds now"
  using assms by (simp_all add: now_ok_def ts_seconds_def sdiv_nonneg pos_imp_zdiv_pos_iff)

lemma now_millis:
  assumes "now_ok now"
  shows "ts_millis now = now div 1000000 mod 1000"
proof -
  have "now - now div 1000000000 * 1000000000 = now mod 1000000000"
    by (rule minus_div_mult_eq_mod)
  moreover have "now mod (1000000 * 1000) = 1000000 * (now div 1000000 mod 1000) + now mod 1000000"
    by (rule zmod_zmult2_eq) simp
  then have "now mod 1000000000 div 1000000 = now div 1000000 mod 1000" by simp
  ultimately show ?thesis
    by (simp add: ts_millis_def now_seconds [OF assms] sdiv_nonneg)
qed

lemma millis_word:
  assumes "now_ok now"
  shows "unat (word_of_int (ts_millis now) :: 64 word) = nat (now div 1000000 mod 1000)"
proof -
  have "0 \<le> now div 1000000 mod 1000" "now div 1000000 mod 1000 < 1000" by simp_all
  then show ?thesis by (subst now_millis [OF assms]) (rule unat_word_of_nonneg; simp)
qed

lemma tm_words:
  assumes "tm_ok t"
  shows "unat (word_of_int (tm_sec t) :: 64 word) = nat (tm_sec t)"
    "unat (word_of_int (tm_min t) :: 64 word) = nat (tm_min t)"
    "unat (word_of_int (tm_hour t) :: 64 word) = nat (tm_hour t)"
    "unat (word_of_int (tm_mday t) :: 64 word) = nat (tm_mday t)"
    "unat (word_of_int (tm_mon t + 1) :: 64 word) = nat (tm_mon t + 1)"
    "unat (word_of_int (tm_year t + 1900) :: 64 word) = nat (tm_year t + 1900)"
  using assms by (simp_all add: tm_ok_def unat_word_of_nonneg del: of_int_add)

lemma to_int_at:
  assumes "N \<noteq> 4" "length pre = Suc N + m" "i = int (Suc N + m)"
  shows "to_int N c num (pre @ suf, i) = Inr (take m pre @ c # digits N (unat num) @ suf, int m)"
  using to_int_ok [OF assms(1,2)] assms(3) by simp

lemma write_millis:
  assumes "length p = 33" "drop 23 p = z"
  shows "to_int 3 c num (p, 23) = Inr (take 19 p @ c # digits 3 (unat num) @ z, 19)"
proof -
  have "to_int 3 c num (take 23 p @ drop 23 p, 23) =
      Inr (take 19 (take 23 p) @ c # digits 3 (unat num) @ drop 23 p, 19)"
    using to_int_at [of 3 "take 23 p" 19 23 c num "drop 23 p"] assms(1) by simp
  from this [unfolded append_take_drop_id] show ?thesis using assms by (simp add: min_def)
qed

lemma write_field:
  assumes "length q = 19" "m + 3 \<le> 19"
  shows "to_int 2 c num (take (m + 3) q @ r, int (m + 3)) =
     Inr (take m q @ c # digits 2 (unat num) @ r, int m)"
  using to_int_at [of 2 "take (m + 3) q" m "int (m + 3)" c num r] assms
  by (simp add: min_def)

lemma write_date:
  assumes q: "length q = 19" and t: "tm_ok t"
  shows "chain (to_int 2 CHR '':'' (word_of_int (tm_sec t)) (q @ r, 19)) (\<lambda>ps.
      chain (to_int 2 CHR '':'' (word_of_int (tm_min t)) ps) (\<lambda>ps.
      chain (to_int 2 CHR '' '' (word_of_int (tm_hour t)) ps) (\<lambda>ps.
      chain (to_int 2 CHR ''-'' (word_of_int (tm_mday t)) ps) (\<lambda>ps.
      chain (to_int 2 CHR ''-'' (word_of_int (tm_mon t + 1)) ps) (\<lambda>ps.
      chain (to_int 4 CHR '' '' (word_of_int (tm_year t + 1900)) ps) (\<lambda>(b, _). f b)))))) =
    f (stamp_date t @ r)"
proof -
  have s1: "to_int 2 c n (q @ x, 19) = Inr (take 16 q @ c # digits 2 (unat n) @ x, 16)" for c n x
    using write_field [OF q, of 16 c n x] q by simp
  have s2: "to_int 2 c n (take 16 q @ x, 16) = Inr (take 13 q @ c # digits 2 (unat n) @ x, 13)" for c n x
    using write_field [OF q, of 13 c n x] by simp
  have s3: "to_int 2 c n (take 13 q @ x, 13) = Inr (take 10 q @ c # digits 2 (unat n) @ x, 10)" for c n x
    using write_field [OF q, of 10 c n x] by simp
  have s4: "to_int 2 c n (take 10 q @ x, 10) = Inr (take 7 q @ c # digits 2 (unat n) @ x, 7)" for c n x
    using write_field [OF q, of 7 c n x] by simp
  have s5: "to_int 2 c n (take 7 q @ x, 7) = Inr (take 4 q @ c # digits 2 (unat n) @ x, 4)" for c n x
    using write_field [OF q, of 4 c n x] by simp
  have s6: "to_int 4 c n (take 4 q @ x, 4) = Inr (digits 4 (unat n) @ x, 0)" for c n x
    using to_int_4_ok [of "take 4 q" 0 c n x] q by simp
  show ?thesis
    by (simp only: s1 s2 s3 s4 s5 s6 chain_simps prod.case tm_words [OF t] stamp_date_def
        append_assoc append_Cons append_Nil)
qed

lemma stamp_result:
  assumes "now_ok now" "lt (ts_seconds now) = Some t"
  shows "stamp_date t @ CHR ''.'' # digits 3 (unat (word_of_int (ts_millis now) :: 64 word)) = stamp_of lt now"
  using assms by (simp only: millis_word stamp_of_def stamp_text_def now_seconds option.sel)

lemma c_str_stamp_of: "c_str (stamp_of lt now @ replicate 10 CHR 0x00) = stamp_of lt now"
  by (simp only: stamp_of_def c_str_stamp)

lemma stamp_of_date: "now_ok now \<Longrightarrow> length (stamp_of lt now) = 23 \<and>
    take 19 (stamp_of lt now) = stamp_date (the (lt (ts_seconds now)))"
  by (simp add: stamp_of_def stamp_text_def now_seconds)

lemma ts_inv_stamped:
  assumes "now_ok now" "st = \<lparr>buf = stamp_of lt now @ replicate 10 CHR 0x00, last_second = ts_seconds now\<rparr>"
  shows "ts_inv lt st"
  using stamp_of_date [OF assms(1), of lt] by (simp add: assms(2) ts_inv_def)

lemma get_timestamp_ok:
  assumes inv: "ts_inv lt st" and now: "now_ok now" and lt: "localtime_ok lt"
  shows "\<exists>st'. get_timestamp lt now st = Inr (stamp_of lt now, st') \<and> ts_inv lt st'"
proof -
  let ?st' = "\<lparr>buf = stamp_of lt now @ replicate 10 CHR 0x00, last_second = ts_seconds now\<rparr>"
  obtain t where t: "lt (ts_seconds now) = Some t" "tm_ok t"
    using lt by (fastforce simp: localtime_ok_def)
  note r = stamp_result [OF now, of lt t, OF t(1), symmetric]
  have len: "length (buf st) = 33" "length (take 19 (buf st)) = 19" using inv by (simp_all add: ts_inv_def)
  have ms: "to_int 3 CHR ''.'' (word_of_int (ts_millis now)) (buf st, 23) = Inr (take 19 (buf st) @
      CHR ''.'' # digits 3 (unat (word_of_int (ts_millis now) :: 64 word)) @ replicate 10 CHR 0x00, 19)"
    using inv len by (intro write_millis) (simp_all add: ts_inv_def)
  have "get_timestamp lt now st = Inr (stamp_of lt now, ?st')"
  proof (cases "last_second st = ts_seconds now")
    case True
    then have "take 19 (buf st) = stamp_date t"
      using inv t now_seconds(2) [OF now] by (auto simp: ts_inv_def)
    with True show ?thesis
      using ms r c_str_stamp_of [of lt now] by (simp add: get_timestamp_def Let_def)
  next
    case False
    show ?thesis
      using False t(1) ms r c_str_stamp_of [of lt now]
      by (simp add: get_timestamp_def Let_def write_date [OF len(2) t(2)] del: of_int_add)
  qed
  then show ?thesis using ts_inv_stamped [OF now refl] by blast
qed

lemma ts_inv_init: "ts_inv lt ts_init"
  by (simp add: ts_inv_def ts_init_def drop_replicate)

text \<open>The line that the logger puts together is the one that has to be.\<close>

lemma sgr_literals:
  "sgr_seq (''['' @ p @ ''m'') = CHR 0x1B # ''['' @ p @ ''m''" "reset_color = CHR 0x1B # ''[0m''" "source_color = CHR 0x1B # ''[90m''"
  by (simp_all add: sgr_seq_def reset_color_def source_color_def)

lemma two_digits: "dec_nat 31 = ''31''" "dec_nat 32 = ''32''" "dec_nat 33 = ''33''" "dec_nat 35 = ''35''" "dec_nat 36 = ''36''" "dec_nat 94 = ''94''"
  "dec_nat 97 = ''97''" "dec_nat 90 = ''90''" "dec_nat 41 = ''41''" "dec_nat 42 = ''42''" "dec_nat 43 = ''43''" "dec_nat 44 = ''44''"
  "dec_nat 45 = ''45''" "dec_nat 46 = ''46''"
  by (simp_all add: dec_nat.simps)

lemma level_text:
  "to_color l style @ pad_right 5 (level_to_string l) @ reset_color = attributed (level_attributes style l) (level_column l)"
  by (cases l; cases style)
    (simp_all add: attributed_def level_attributes_def level_column_def two_digits sgr_seq_def reset_color_def pad_right_def)

lemma place_text:
  "source_color @ file_name (call_loc c) @ '':'' @ dec_nat (line (call_loc c)) @ function_name (call_level c) (call_loc c) @ reset_color =
    attributed [90] (call_place c)"
  by (cases "call_level c")
    (simp_all add: attributed_def call_place_def function_name_def two_digits sgr_literals less_eq_LogLevel_def)

lemma log_line_is_call_line:
  "log_line (stamp_of lt (call_now c)) (call_level c) style (call_loc c) (call_message c) = call_line lt style c"
  using level_text [of "call_level c" style, symmetric] place_text [of c, symmetric]
  by (simp add: log_line_def call_line_def)

lemma visible_plain: "CHR 0x1B \<notin> set s \<Longrightarrow> visible (s @ r) = s @ visible r"
  by (induction s) auto

lemma skip_sequence_m: "CHR ''m'' \<notin> set s \<Longrightarrow> skip_sequence (s @ CHR ''m'' # r) = r"
  by (induction s) auto

lemma join_digits: "c \<in> set (join '';'' (map dec_nat ns)) \<Longrightarrow> c = CHR '';'' \<or> is_digit c"
  by (induction ns rule: induct_list012) (auto dest: dec_nat_digits)

lemma visible_attributed: "CHR 0x1B \<notin> set s \<Longrightarrow> visible (attributed ns s @ r) = s @ visible r"
proof -
  assume s: "CHR 0x1B \<notin> set s"
  have "CHR ''m'' \<notin> set (''['' @ join '';'' (map dec_nat ns))"
    by (auto dest!: join_digits simp: is_digit_def)
  then have "skip_sequence (''['' @ join '';'' (map dec_nat ns) @ CHR ''m'' # x) = x" for x
    using skip_sequence_m [of "''['' @ join '';'' (map dec_nat ns)" x] by simp
  then show ?thesis using visible_plain [OF s] by (simp add: attributed_def)
qed

lemma visible_call_line:
  assumes "no_escape c"
  shows "visible (call_line lt style c @ r) = plain_line lt c @ visible r"
proof -
  have "CHR 0x1B \<notin> set (stamp_of lt (call_now c))"
    by (auto simp: stamp_of_def stamp_text_def stamp_date_def is_digit_def dest!: digits_are_digits)
  moreover have "CHR 0x1B \<notin> set (level_column (call_level c))"
    by (cases "call_level c") (simp_all add: level_column_def)
  ultimately show ?thesis
    using assms by (simp add: call_line_def plain_line_def no_escape_def visible_plain visible_attributed)
qed

lemma visible_lines: "\<forall>c \<in> set cs. no_escape c \<Longrightarrow> visible (concat (map (call_line lt style) cs)) = concat (map (plain_line lt) cs)"
  by (induction cs) (simp_all add: visible_call_line)

lemma log_at_suppressed: "call_level c < log_level (logger w) \<Longrightarrow> log_at lt c w = Inr w"
  by (simp add: log_at_def)

lemma log_at_logger: "log_at lt c w = Inr w' \<Longrightarrow> logger w' = logger w"
  by (auto simp: log_at_def chain_def split: if_splits option.splits sum.splits)

lemma log_at_line:
  assumes "log_level (logger w) \<le> call_level c" "ts_inv lt (stamp_state w)" "localtime_ok lt"
    "now_ok (call_now c)" "vformat (call_fmt c) (call_args c) \<noteq> None"
  obtains w' where "log_at lt c w = Inr w'" "logger w' = logger w" "ts_inv lt (stamp_state w')"
    "clog w' = clog w @ call_line lt (log_style (logger w)) c"
proof -
  obtain m where m: "vformat (call_fmt c) (call_args c) = Some m" using assms(5) by auto
  obtain ts where "get_timestamp lt (call_now c) (stamp_state w) = Inr (stamp_of lt (call_now c), ts)"
    "ts_inv lt ts"
    using get_timestamp_ok [OF assms(2,4,3)] by blast
  then show thesis
    using that [of "w\<lparr>stamp_state := ts, clog := clog w @ call_line lt (log_style (logger w)) c\<rparr>"]
      m assms(1) log_line_is_call_line [of lt c "log_style (logger w)"]
    by (simp add: log_at_def call_message_def not_less [symmetric])
qed

lemma vformat_plain: "CHR ''{'' \<notin> set s \<Longrightarrow> CHR ''}'' \<notin> set s \<Longrightarrow>
    vformat (s @ r) args = map_option ((@) s) (vformat r args)"
  by (induction s) (cases "vformat r args"; auto)+

text \<open>The pieces of a format string around its fields, and the message they make.\<close>

fun interleave :: "string list \<Rightarrow> string list \<Rightarrow> string" where
  "interleave (p # ps) (a # as) = p @ a @ interleave ps as"
| "interleave (p # ps) [] = p"
| "interleave [] as = []"

section \<open>Properties\<close>

text \<open>
  C9: what a thread's stamps show. For any sequence of clock readings after the first second of
  the epoch, each stamp is the local date and time of its own reading with its milliseconds,
  although within one second only the last three digits of the buffer are rewritten; no access
  leaves the 33-byte buffer.
\<close>

theorem timestamps_show_the_clock:
  assumes "localtime_ok lt" and "\<forall>now \<in> set nows. now_ok now"
  shows "stamp_all lt nows ts_init = Inr (map (stamp_of lt) nows)"
proof -
  have "ts_inv lt st \<Longrightarrow> stamp_all lt nows st = Inr (map (stamp_of lt) nows)" for st
    using assms(2)
  proof (induction nows arbitrary: st)
    case Nil
    then show ?case by simp
  next
    case (Cons now nows)
    then obtain st' where "get_timestamp lt now st = Inr (stamp_of lt now, st')" "ts_inv lt st'"
      using get_timestamp_ok [OF _ _ assms(1)] by (metis list.set_intros(1))
    with Cons show ?case by simp
  qed
  then show ?thesis by (simp add: ts_inv_init)
qed

definition sample_tm :: tm where
  "sample_tm = \<lparr>tm_sec = 9, tm_min = 8, tm_hour = 7, tm_mday = 6, tm_mon = 4, tm_year = 124\<rparr>"

theorem timestamps_show_the_clock_witness:
  "stamp_all (\<lambda>_. Some sample_tm) [1700000000123456789, 1700000000456000000] ts_init =
     Inr [''2024-05-06 07:08:09.123'', ''2024-05-06 07:08:09.456'']"
  by (subst timestamps_show_the_clock)
    (simp_all add: localtime_ok_def tm_ok_def sample_tm_def now_ok_def stamp_of_def stamp_text_def
      stamp_date_def digits_numerals)

text \<open>
  Before that, the cache lies: in a fresh thread a reading within the first second of the
  epoch finds \<open>last_second\<close> already equal to its second, so the date is never written and the
  stamp is empty.
\<close>

theorem epoch_stamp_is_empty:
  assumes "0 \<le> now" and "now < 1000000000"
  shows "\<exists>st'. get_timestamp lt now ts_init = Inr ([], st')"
proof -
  have s: "ts_seconds now = 0" using assms by (simp add: ts_seconds_def sdiv_nonneg)
  have r: "replicate 33 (CHR 0x00) = replicate 23 CHR 0x00 @ replicate 10 CHR 0x00"
    by (simp add: replicate_add [symmetric])
  obtain b where "to_int 3 CHR ''.'' (word_of_int (ts_millis now)) (replicate 33 CHR 0x00, 23) =
      Inr (replicate 19 CHR 0x00 @ b, 19)"
    unfolding r using to_int_at [of 3 "replicate 23 CHR 0x00" 19 23] by auto
  moreover have "c_str (replicate 19 CHR 0x00 @ b) = []"
    by (simp add: c_str_def numeral_eq_Suc)
  ultimately show ?thesis
    using s by (simp add: get_timestamp_def Let_def ts_init_def)
qed

theorem epoch_stamp_is_empty_witness:
  "\<exists>st'. get_timestamp (\<lambda>_. Some sample_tm) 5000000 ts_init = Inr ([], st')"
  by (rule epoch_stamp_is_empty) simp_all

text \<open>
  \<open>to_int\<close> with room for its digits and its separator writes exactly the low decimal digits
  of the number before the position, leaves every other byte of the buffer and returns the new
  position; without room for the digits it runs out of the buffer.
\<close>

theorem to_int_writes_digits:
  assumes "N \<noteq> 4" and "length p = 33"
  shows "if Suc N \<le> sz \<and> sz \<le> 33 then
      (\<exists>d. to_int N c num (p, int sz) =
           Inr (take (sz - Suc N) p @ c # d @ drop sz p, int (sz - Suc N)) \<and>
         length d = N \<and> nat_of_dec d = unat num mod 10 ^ N)
    else sz < N \<longrightarrow> to_int N c num (p, int sz) = Inl Undefined"
proof (cases "Suc N \<le> sz \<and> sz \<le> 33")
  case True
  then have "to_int N c num (take sz p @ drop sz p, int sz) =
      Inr (take (sz - Suc N) (take sz p) @ c # digits N (unat num) @ drop sz p, int (sz - Suc N))"
    using assms by (intro to_int_at) auto
  with True show ?thesis
    by (auto simp: nat_of_dec_digits min_def intro!: exI [of _ "digits N (unat num)"])
next
  case False
  then show ?thesis by (auto simp: to_int_def put_digits_short)
qed

theorem to_int_writes_digits_witness:
  "\<exists>d. to_int 3 CHR ''.'' 1042 (replicate 33 CHR 0x00, 23) =
        Inr (replicate 19 CHR 0x00 @ CHR ''.'' # d @ replicate 10 CHR 0x00, 19) \<and>
      nat_of_dec d = 42"
proof -
  have "length (replicate 33 (CHR 0x00)) = 33" by simp
  from to_int_writes_digits [of 3, OF _ this, of 23 "CHR ''.''" 1042]
  show ?thesis by (auto simp: take_replicate drop_replicate)
qed

text \<open>
  The level is a filter: a sequence of log calls has the same effect, errors included, as its
  calls at or above the logger's level, so a suppressed call formats nothing, reads no clock and
  cannot fail.
\<close>

theorem log_level_filters:
  "log_all lt cs w = log_all lt (filter (\<lambda>c. log_level (logger w) \<le> call_level c) cs) w"
proof (induction cs arbitrary: w)
  case Nil
  then show ?case by simp
next
  case (Cons c cs)
  show ?case
  proof (cases "log_level (logger w) \<le> call_level c")
    case True
    have "chain (log_at lt c w) (log_all lt cs) =
        chain (log_at lt c w) (log_all lt (filter (\<lambda>c. log_level (logger w) \<le> call_level c) cs))"
    proof (cases "log_at lt c w")
      case (Inr w1)
      then show ?thesis using Cons.IH [of w1] by (simp add: log_at_logger)
    qed simp
    with True show ?thesis by simp
  next
    case False
    then have "log_at lt c w = Inr w" by (simp add: log_at_suppressed)
    with Cons.IH [of w] False show ?thesis by simp
  qed
qed

lemma log_all_appends:
  assumes "localtime_ok lt" and "\<forall>c \<in> set cs. now_ok (call_now c)"
    and "\<forall>c \<in> set cs. vformat (call_fmt c) (call_args c) \<noteq> None" and "ts_inv lt (stamp_state w)"
  shows "\<exists>w'. log_all lt cs w = Inr w' \<and>
    clog w' = clog w @ concat (map (call_line lt (log_style (logger w)))
      (filter (\<lambda>c. log_level (logger w) \<le> call_level c) cs)) \<and> logger w' = logger w \<and> ts_inv lt (stamp_state w')"
  using assms(2-)
proof (induction cs arbitrary: w)
  case Nil
  then show ?case by simp
next
  case (Cons c cs)
  show ?case
  proof (cases "log_level (logger w) \<le> call_level c")
    case True
    obtain w1 where w1: "log_at lt c w = Inr w1" "logger w1 = logger w" "ts_inv lt (stamp_state w1)"
      "clog w1 = clog w @ call_line lt (log_style (logger w)) c"
      by (rule log_at_line [OF True Cons.prems(3) assms(1)]) (use Cons.prems in auto)
    with Cons.IH [of w1] Cons.prems show ?thesis by (auto simp: True)
  next
    case False
    then have "log_at lt c w = Inr w" by (simp add: log_at_suppressed)
    with Cons.IH [of w] Cons.prems False show ?thesis by simp
  qed
qed

text \<open>
  C26: when the clock has passed the first second of the epoch and every format string matches its
  arguments, logging never fails and appends, for each call at or above the level and in order, one line with that call's own time stamp, its level in the level's
  colour, its place, with the function for the two lowest levels, and its message. If no text has an escape character of its own, a terminal shows
  just these columns.
\<close>

theorem log_all_lines:
  assumes "localtime_ok lt" and "\<forall>c \<in> set cs. now_ok (call_now c)"
    and "\<forall>c \<in> set cs. vformat (call_fmt c) (call_args c) \<noteq> None" and "ts_inv lt (stamp_state w)"
  shows "let shown = filter (\<lambda>c. log_level (logger w) \<le> call_level c) cs in
    \<exists>w' new. log_all lt cs w = Inr w' \<and> clog w' = clog w @ new \<and>
      new = concat (map (call_line lt (log_style (logger w))) shown) \<and>
      ((\<forall>c \<in> set shown. no_escape c) \<longrightarrow> visible new = concat (map (plain_line lt) shown))"
proof -
  obtain w' where "log_all lt cs w = Inr w'" "clog w' = clog w @ concat (map (call_line lt (log_style (logger w)))
      (filter (\<lambda>c. log_level (logger w) \<le> call_level c) cs))"
    using log_all_appends [OF assms] by (elim exE conjE)
  then show ?thesis unfolding Let_def by (intro exI conjI) (assumption | rule refl | rule impI visible_lines | assumption)+
qed

definition sample_call :: "LogLevel \<Rightarrow> log_call" where
  "sample_call l = \<lparr>call_level = l, call_fmt = ''read {} bytes'',
     call_loc = \<lparr>file_name = ''a.cpp'', line = 7, fun_name = ''f''\<rparr>,
     call_args = [''42''], call_now = 1700000000000000000\<rparr>"

theorem log_all_lines_witness:
  "\<exists>w'. log_all (\<lambda>_. Some sample_tm) [sample_call TRACE, sample_call INFO] world_init = Inr w' \<and>
     visible (clog w') = ''2024-05-06 07:08:09.000 |INFO | a.cpp:7 read 42 bytes'' @ [CHR 0x0A]"
proof -
  have p: "plain_line (\<lambda>_. Some sample_tm) (sample_call INFO) =
      ''2024-05-06 07:08:09.000 |INFO | a.cpp:7 read 42 bytes'' @ [CHR 0x0A]"
    and n: "no_escape (sample_call INFO)"
    unfolding plain_line_def no_escape_def stamp_of_def stamp_text_def stamp_date_def sample_tm_def sample_call_def
      call_place_def call_message_def level_column_def
    by code_simp+
  have f: "filter (\<lambda>c. log_level (logger world_init) \<le> call_level c) [sample_call TRACE, sample_call INFO] = [sample_call INFO]"
    by (simp add: sample_call_def world_init_def logger_init_def less_eq_LogLevel_def)
  have "localtime_ok (\<lambda>_. Some sample_tm)" "\<forall>c \<in> set [sample_call TRACE, sample_call INFO]. now_ok (call_now c)"
    "\<forall>c \<in> set [sample_call TRACE, sample_call INFO]. vformat (call_fmt c) (call_args c) \<noteq> None"
    "ts_inv (\<lambda>_. Some sample_tm) (stamp_state world_init)" "clog world_init = []"
    by (simp_all add: localtime_ok_def tm_ok_def sample_tm_def now_ok_def sample_call_def world_init_def ts_inv_init)
  with log_all_lines [of "\<lambda>_. Some sample_tm" "[sample_call TRACE, sample_call INFO]" world_init] show ?thesis
    unfolding Let_def f by (auto simp: p n)
qed

text \<open>
  A format string whose pieces hold no brace formats exactly when there are enough arguments,
  and then interleaves the pieces with the arguments in order; a missing argument is the
  formatting error, and surplus arguments are ignored.
\<close>

theorem vformat_interleaves:
  assumes "\<forall>p \<in> set (p0 # ps). CHR ''{'' \<notin> set p \<and> CHR ''}'' \<notin> set p"
  shows "vformat (join ''{}'' (p0 # ps)) args =
     (if length ps \<le> length args then Some (interleave (p0 # ps) (take (length ps) args)) else None)"
  using assms
proof (induction ps arbitrary: p0 args)
  case Nil
  then show ?case using vformat_plain [of p0 "[]" args] by simp
next
  case (Cons p1 ps)
  have v: "vformat (p0 @ ''{}'' @ join ''{}'' (p1 # ps)) args =
      map_option ((@) p0) (vformat (''{}'' @ join ''{}'' (p1 # ps)) args)"
    using Cons.prems by (intro vformat_plain) auto
  show ?case
  proof (cases args)
    case Nil
    with v show ?thesis by simp
  next
    case (Cons a args')
    with v Cons.IH [of p1 args'] Cons.prems show ?thesis by simp
  qed
qed

theorem vformat_interleaves_witness:
  "vformat ''new connection: {}:{}'' [''10.0.0.1'', ''80''] = Some ''new connection: 10.0.0.1:80'' \<and>
   vformat ''{}'' [] = None"
  using vformat_interleaves [of "''new connection: ''" "['':'', []]" "[''10.0.0.1'', ''80'']"]
    vformat_interleaves [of "[]" "[[]]" "[]"]
  by simp

section \<open>The test program\<close>

text \<open>
  \<open>main\<close> of \<open>asio/tests/test_debug.cpp\<close>: \<open>clock\<close> gives the time of each call. None is an assertion that failed.
\<close>

definition hello_world :: "nat \<Rightarrow> int \<Rightarrow> LogLevel \<Rightarrow> log_call" where
  "hello_world n now l = \<lparr>call_level = l, call_fmt = ''hello world'',
     call_loc = \<lparr>file_name = ''test_debug.cpp'', line = n, fun_name = ''main''\<rparr>, call_args = [], call_now = now\<rparr>"

fun LOG_each :: "bool \<Rightarrow> (int \<Rightarrow> tm option) \<Rightarrow> log_call list \<Rightarrow> log_world \<Rightarrow> log_error + log_world" where
  "LOG_each ndebug lt [] w = Inr w"
| "LOG_each ndebug lt (c # cs) w = chain (LOG ndebug lt c w) (LOG_each ndebug lt cs)"

definition six_levels :: "nat \<Rightarrow> (nat \<Rightarrow> int) \<Rightarrow> log_call list" where
  "six_levels n clock =
     map (\<lambda>(i, l). hello_world (n + i) (clock (n + i)) l) (zip [0..<6] [TRACE, DEBUG, INFO, WARN, ERROR, FATAL])"

definition main_debug :: "bool \<Rightarrow> (int \<Rightarrow> tm option) \<Rightarrow> (nat \<Rightarrow> int) \<Rightarrow> log_world \<Rightarrow> (log_error + log_world) option" where
  "main_debug ndebug lt clock w =
     (let r = chain (LOG_each ndebug lt (six_levels 5 clock) (SET_LOG_LEVEL ndebug TRACE w))
                (\<lambda>w. LOG_each ndebug lt (six_levels 13 clock) (SET_LOG_STYLE ndebug BG w)) in
      case (ASSERT ndebug (1 = (1 :: int)), ASSERT_MSG ndebug (1 = (1 :: int)) ''1 equals 1'') of
        (Inr _, Inr _) \<Rightarrow> Some r
      | _ \<Rightarrow> None)"

lemma LOG_each_eq: "LOG_each False lt cs = log_all lt cs"
proof (induction cs)
  case (Cons c cs)
  show ?case by (rule ext) (simp add: LOG_def Cons)
qed (simp add: fun_eq_iff)

lemma six_levels_ok:
  assumes "\<forall>n. now_ok (clock n)" "c \<in> set (six_levels n clock)"
  shows "now_ok (call_now c)" "vformat (call_fmt c) (call_args c) \<noteq> None"
  using assms by (auto simp: six_levels_def hello_world_def upt_rec numeral_eq_Suc)

lemma all_above_TRACE: "filter (\<lambda>c. TRACE \<le> call_level c) cs = cs"
  by (induction cs) (simp_all add: less_eq_LogLevel_def)

text \<open>
  The program shows twelve lines, all levels in the foreground style and then in the background style; compiled with \<open>NDEBUG\<close> it
  shows nothing.
\<close>

theorem debug_shows_every_level:
  assumes "localtime_ok lt" "\<forall>n. now_ok (clock n)"
  shows "\<exists>w. main_debug False lt clock world_init = Some (Inr w) \<and>
    clog w = concat (map (call_line lt FG) (six_levels 5 clock)) @ concat (map (call_line lt BG) (six_levels 13 clock))"
    "main_debug True lt clock world_init = Some (Inr world_init)"
proof -
  let ?w0 = "SET_LOG_LEVEL False TRACE world_init"
  have ts: "ts_inv lt (stamp_state ?w0)" by (simp add: SET_LOG_LEVEL_def set_level_def world_init_def ts_inv_init)
  obtain w1 where w1: "log_all lt (six_levels 5 clock) ?w0 = Inr w1" "logger w1 = \<lparr>log_level = TRACE, log_style = FG\<rparr>"
      "clog w1 = concat (map (call_line lt FG) (six_levels 5 clock))" "ts_inv lt (stamp_state w1)"
    using log_all_appends [OF assms(1) _ _ ts, of "six_levels 5 clock"] six_levels_ok [OF assms(2)]
    by (auto simp: SET_LOG_LEVEL_def set_level_def world_init_def logger_init_def all_above_TRACE)
  let ?w1 = "SET_LOG_STYLE False BG w1"
  have ts1: "ts_inv lt (stamp_state ?w1)" using w1 by (simp add: SET_LOG_STYLE_def set_style_def)
  obtain w2 where w2: "log_all lt (six_levels 13 clock) ?w1 = Inr w2"
      "clog w2 = clog w1 @ concat (map (call_line lt BG) (six_levels 13 clock))"
    using log_all_appends [OF assms(1) _ _ ts1, of "six_levels 13 clock"] six_levels_ok [OF assms(2)]
    by (auto simp: SET_LOG_STYLE_def set_style_def w1 all_above_TRACE)
  show "\<exists>w. main_debug False lt clock world_init = Some (Inr w) \<and>
      clog w = concat (map (call_line lt FG) (six_levels 5 clock)) @ concat (map (call_line lt BG) (six_levels 13 clock))"
    using w1 w2 by (simp add: main_debug_def LOG_each_eq ASSERT_MSG_def ASSERT_def)
  have n: "LOG_each True lt cs w = Inr w" for cs w by (induction cs) (simp_all add: LOG_def)
  show "main_debug True lt clock world_init = Some (Inr world_init)"
    by (simp add: main_debug_def n SET_LOG_LEVEL_def SET_LOG_STYLE_def ASSERT_MSG_def ASSERT_def)
qed

end
