(* ===== verification/Bench_Server.thy ===== *)
theory Bench_Server
  imports Tasks Context_Pool Logging
begin

text \<open>
  \<open>asio/benchmark/benchmark_mt.cpp\<close>: the coroutines of the server, as bodies of the machine of
  theory \<open>Tasks\<close>, over a pool of contexts. \<open>AsioCallbackAwaiter\<close> is the machine's \<open>Wait\<close>. What asio
  and the peers do is in the results of the callbacks: any result of the right type.
\<close>

section \<open>The coroutines\<close>

text \<open>
  Sockets are numbered in the order \<open>listen\<close> makes them. An error code is \<open>None\<close> for success, else
  its \<open>message()\<close>; a remote endpoint is its address and port, or \<open>None\<close> when \<open>remote_endpoint()\<close>
  throws (the peer may be gone before it is asked for).
\<close>

datatype server_op = Accept nat | ReadSome nat | Write nat string

datatype server_result =
    Accepted "string option" "(string \<times> nat) option"
  | Transferred "string option" nat
  | Void

text \<open>Where the coroutines can be suspended, or start.\<close>

datatype server_point =
    Listen | ListenAccept nat
  | AcceptTask nat | AcceptDone
  | ReadTask nat | ReadDone
  | WriteTask nat string | WriteDone
  | Process nat | ProcessRead nat | ProcessWrite nat

record 'c server =
  server_pool :: "'c pool"
  acceptor_context :: 'c
  sockets :: "'c list"
  closed :: "nat list"
  log_calls :: "(LogLevel \<times> string) list"

definition response :: string where
  "response = ''HTTP/1.1 200 OK'' @ [CHR 0x0A] @ ''Content-Type: text/html; charset=utf-8'' @ [CHR 0x0A] @
     ''Content-Length: 14'' @ [CHR 0x0A] @ [CHR 0x0A] @ ''Hello, World!'' @ [CHR 0x0A]"

definition log_message :: "LogLevel \<Rightarrow> string \<Rightarrow> 'c server \<Rightarrow> 'c server" where
  "log_message level msg w = w\<lparr>log_calls := log_calls w @ [(level, msg)]\<rparr>"

definition close_socket :: "nat \<Rightarrow> 'c server \<Rightarrow> 'c server" where
  "close_socket s w = w\<lparr>closed := closed w @ [s]\<rparr>"

text \<open>\<open>async_accept\<close>, \<open>async_read_some\<close> and \<open>async_write\<close>: each waits for one callback and returns
  what it gives.\<close>

definition async_accept :: "nat \<Rightarrow> (server_point, server_op, server_result) act" where
  "async_accept socket = Wait (Accept socket) AcceptDone"

definition async_read_some :: "nat \<Rightarrow> (server_point, server_op, server_result) act" where
  "async_read_some socket = Wait (ReadSome socket) ReadDone"

definition async_write :: "nat \<Rightarrow> string \<Rightarrow> (server_point, server_op, server_result) act" where
  "async_write socket buffer = Wait (Write socket buffer) WriteDone"

text \<open>The loop of \<open>process\<close>: from its head, and from the result of the read on.\<close>

definition process_loop :: "nat \<Rightarrow> (server_point, server_op, server_result) act" where
  "process_loop socket = Call (ReadTask socket) (ProcessRead socket)"

definition process_read ::
  "nat \<Rightarrow> string option \<Rightarrow> nat \<Rightarrow> 'c server \<Rightarrow> (server_point, server_op, server_result) act \<times> 'c server"
where
  "process_read socket ec nread w =
     (case ec of
        Some message \<Rightarrow> (Return Void, close_socket socket (log_message ERROR message w))
      | None \<Rightarrow>
          (Call (WriteTask socket response) (ProcessWrite socket),
           log_message INFO (''read '' @ dec_nat nread @ '' bytes'') w))"

text \<open>The loop of \<open>listen\<close>, likewise.\<close>

definition listen_loop :: "'c server \<Rightarrow> (server_point, server_op, server_result) act \<times> 'c server" where
  "listen_loop w =
     (case get_io_context (server_pool w) of
        None \<Rightarrow> (Undef, w)
      | Some (ctx, p) \<Rightarrow>
          (Call (AcceptTask (length (sockets w))) (ListenAccept (length (sockets w))),
           w\<lparr>server_pool := p, sockets := sockets w @ [ctx]\<rparr>))"

definition listen_accepted ::
  "nat \<Rightarrow> string option \<Rightarrow> (string \<times> nat) option \<Rightarrow> 'c server \<Rightarrow>
   (server_point, server_op, server_result) act \<times> 'c server" where
  "listen_accepted socket ec remote w =
     (case ec of
        Some message \<Rightarrow> (Return Void, close_socket socket (log_message ERROR (''ec='' @ message) w))
      | None \<Rightarrow>
         (case remote of
            None \<Rightarrow> (Throw, w)
          | Some (address, port) \<Rightarrow>
              (Spawn (Process socket) Listen,
               log_message INFO (''new connection: '' @ address @ '':'' @ dec_nat port) w)))"

fun server_body :: "(server_point, server_op, server_result, 'c server) bodies" where
  "server_body Listen v w = listen_loop w"
| "server_body (ListenAccept s) (Some (Accepted ec remote)) w = listen_accepted s ec remote w"
| "server_body (AcceptTask s) v w = (async_accept s, w)"
| "server_body AcceptDone (Some r) w = (Return r, w)"
| "server_body (ReadTask s) v w = (async_read_some s, w)"
| "server_body ReadDone (Some r) w = (Return r, w)"
| "server_body (WriteTask s b) v w = (async_write s b, w)"
| "server_body WriteDone (Some r) w = (Return r, w)"
| "server_body (Process s) v w = (process_loop s, w)"
| "server_body (ProcessRead s) (Some (Transferred ec n)) w = process_read s ec n w"
| "server_body (ProcessWrite s) v w = (process_loop s, w)"
| "server_body _ _ w = (Undef, w)"

section \<open>The server\<close>

text \<open>
  The constructor of \<open>tcp_server\<close>: the acceptor takes the first context and opens and binds its socket, then the accept loop is
  spawned. \<open>bound\<close> is what the acceptor's constructor throws when it cannot have the port, None when it can; nothing catches it. \<open>main\<close>
  makes the pool, then the server; \<open>pool.run()\<close> lets callbacks come.
\<close>

type_synonym 'c server_machine = "(server_point, server_op, server_result, 'c server) machine"

datatype start_failure = Hazard hazard | Not_bound string

definition tcp_server :: "string option \<Rightarrow> string \<Rightarrow> nat \<Rightarrow> 'c pool \<Rightarrow> start_failure + 'c server_machine" where
  "tcp_server bound address port pool =
     (case get_io_context pool of
        None \<Rightarrow> Inl (Hazard undefined_access)
      | Some (ctx, p) \<Rightarrow>
         (case bound of
            Some what \<Rightarrow> Inl (Not_bound what)
          | None \<Rightarrow>
             (case start Listen (machine_init
                (log_message INFO (''Listening on '' @ address @ '':'' @ dec_nat port @ '' ...'')
                   \<lparr>server_pool = p, acceptor_context = ctx, sockets = [], closed = [], log_calls = []\<rparr>)) of
                Inl e \<Rightarrow> Inl (Hazard e)
              | Inr m \<Rightarrow> Inr m)))"

definition main_mt ::
  "('c, 'w) asio_api \<Rightarrow> string option \<Rightarrow> string \<Rightarrow> 64 word \<Rightarrow> 'w \<Rightarrow> (start_failure + 'c server_machine) option" where
  "main_mt a bound address num_threads w =
     map_option (\<lambda>(pool, w'). tcp_server bound address 8000 pool) (IOContextPool a num_threads w)"

section \<open>The bodies keep the contract of the machine\<close>

definition accepted :: "server_result \<Rightarrow> bool" where
  "accepted r \<longleftrightarrow> (case r of Accepted ec remote \<Rightarrow> True | _ \<Rightarrow> False)"

definition transferred :: "server_result \<Rightarrow> bool" where
  "transferred r \<longleftrightarrow> (case r of Transferred ec n \<Rightarrow> True | _ \<Rightarrow> False)"

fun server_accepts :: "server_point \<Rightarrow> server_result option \<Rightarrow> bool" where
  "server_accepts (ListenAccept s) v \<longleftrightarrow> (case v of None \<Rightarrow> False | Some r \<Rightarrow> accepted r)"
| "server_accepts AcceptDone v \<longleftrightarrow> (case v of None \<Rightarrow> False | Some r \<Rightarrow> accepted r)"
| "server_accepts ReadDone v \<longleftrightarrow> (case v of None \<Rightarrow> False | Some r \<Rightarrow> transferred r)"
| "server_accepts WriteDone v \<longleftrightarrow> (case v of None \<Rightarrow> False | Some r \<Rightarrow> transferred r)"
| "server_accepts (ProcessRead s) v \<longleftrightarrow> (case v of None \<Rightarrow> False | Some r \<Rightarrow> transferred r)"
| "server_accepts _ v \<longleftrightarrow> True"

fun server_returns :: "server_point \<Rightarrow> server_result \<Rightarrow> bool" where
  "server_returns (AcceptTask s) r \<longleftrightarrow> accepted r"
| "server_returns AcceptDone r \<longleftrightarrow> accepted r"
| "server_returns (ReadTask s) r \<longleftrightarrow> transferred r"
| "server_returns ReadDone r \<longleftrightarrow> transferred r"
| "server_returns (WriteTask s b) r \<longleftrightarrow> transferred r"
| "server_returns WriteDone r \<longleftrightarrow> transferred r"
| "server_returns _ r \<longleftrightarrow> r = Void"

text \<open>The results asio may give: of the type of the operation's callback.\<close>

fun server_answers :: "server_op \<Rightarrow> server_result \<Rightarrow> bool" where
  "server_answers (Accept s) r \<longleftrightarrow> accepted r"
| "server_answers (ReadSome s) r \<longleftrightarrow> transferred r"
| "server_answers (Write s b) r \<longleftrightarrow> transferred r"

text \<open>
  The invariant of the server's own state, for a pool of the contexts \<open>cs\<close>: the acceptor has the
  first, and the sockets made so far are on the following ones, in turn.
\<close>

definition server_good :: "'c list \<Rightarrow> 'c server \<Rightarrow> bool" where
  "server_good cs w \<longleftrightarrow> cs \<noteq> [] \<and> pool_inv (server_pool w) \<and> io_contexts (server_pool w) = cs \<and>
     acceptor_context w = cs ! 0 \<and>
     unat (next_io_context (server_pool w)) = Suc (length (sockets w)) mod length cs \<and>
     sockets w = map (\<lambda>i. cs ! (Suc i mod length cs)) [0..<length (sockets w)]"

lemma server_good_log [simp]: "server_good cs (log_message l m w) \<longleftrightarrow> server_good cs w"
  by (simp add: server_good_def log_message_def)

lemma server_good_close [simp]: "server_good cs (close_socket s w) \<longleftrightarrow> server_good cs w"
  by (simp add: server_good_def close_socket_def)

lemma listen_loop_good:
  assumes "server_good cs w"
  shows "\<exists>w'. listen_loop w = (Call (AcceptTask (length (sockets w))) (ListenAccept (length (sockets w))), w') \<and>
    server_good cs w' \<and> log_calls w' = log_calls w \<and> closed w' = closed w \<and>
    sockets w' = sockets w @ [cs ! (Suc (length (sockets w)) mod length cs)]"
proof -
  have g: "pool_inv (server_pool w)" "io_contexts (server_pool w) \<noteq> []" "io_contexts (server_pool w) = cs"
      "unat (next_io_context (server_pool w)) = Suc (length (sockets w)) mod length cs"
      "sockets w = map (\<lambda>i. cs ! (Suc i mod length cs)) [0..<length (sockets w)]"
    using assms by (simp_all add: server_good_def)
  obtain q where q: "get_io_context (server_pool w) = Some (cs ! (Suc (length (sockets w)) mod length cs), q)"
      "pool_inv q" "io_contexts q = cs"
      "unat (next_io_context q) = Suc (Suc (length (sockets w)) mod length cs) mod length cs"
    using get_io_context_step [OF g(1,2)] g(3,4) by auto
  have "server_good cs (w\<lparr>server_pool := q, sockets := sockets w @ [cs ! (Suc (length (sockets w)) mod length cs)]\<rparr>)"
    using assms q g(5) by (simp add: server_good_def mod_Suc_eq)
  then show ?thesis by (simp add: listen_loop_def q(1))
qed

lemma server_body_ok:
  assumes "server_accepts l v" "server_good cs w" "server_body l v w = (a, w')"
  shows "server_good cs w' \<and> act_ok server_accepts server_returns server_answers l a"
proof (cases l)
  case Listen
  then show ?thesis using assms listen_loop_good [OF assms(2)] by auto
next
  case (ListenAccept s)
  then obtain ec remote where "v = Some (Accepted ec remote)"
    using assms(1) by (auto simp: accepted_def split: option.splits server_result.splits)
  then show ?thesis
    using assms(2,3) ListenAccept by (auto simp: listen_accepted_def split: option.splits prod.splits)
next
  case AcceptDone
  then show ?thesis using assms by (cases v) auto
next
  case ReadDone
  then show ?thesis using assms by (cases v) auto
next
  case WriteDone
  then show ?thesis using assms by (cases v) auto
next
  case (ProcessRead s)
  then obtain ec n where "v = Some (Transferred ec n)"
    using assms(1) by (auto simp: transferred_def split: option.splits server_result.splits)
  then show ?thesis
    using assms(2,3) ProcessRead by (auto simp: process_read_def split: option.splits)
qed (use assms in \<open>auto simp: async_accept_def async_read_some_def async_write_def process_loop_def\<close>)

interpretation bench: task_client server_body server_accepts server_returns server_answers "server_good cs"
  for cs
  by unfold_locales (use server_body_ok in blast)

section \<open>Properties of the server\<close>

lemma tcp_server_InrD: "tcp_server bound address port p = Inr m \<Longrightarrow> bound = None \<and> io_contexts p \<noteq> []"
  by (auto simp: tcp_server_def get_io_context_def split: if_splits option.splits)

lemma server_throws:
  assumes "server_accepts l v" "fst (server_body l v w) = Throw"
  shows "\<exists>s. l = ListenAccept s \<and> v = Some (Accepted None None)"
proof (cases l)
  case Listen
  then show ?thesis using assms by (auto simp: listen_loop_def split: option.splits)
next
  case (ListenAccept s)
  then obtain ec remote where "v = Some (Accepted ec remote)"
    using assms(1) by (auto simp: accepted_def split: option.splits server_result.splits)
  then show ?thesis
    using assms(2) ListenAccept by (auto simp: listen_accepted_def split: option.splits)
next
  case AcceptDone
  then show ?thesis using assms by (cases v) auto
next
  case ReadDone
  then show ?thesis using assms by (cases v) auto
next
  case WriteDone
  then show ?thesis using assms by (cases v) auto
next
  case (ProcessRead s)
  then obtain ec n where "v = Some (Transferred ec n)"
    using assms(1) by (auto simp: transferred_def split: option.splits server_result.splits)
  then show ?thesis
    using assms(2) ProcessRead by (auto simp: process_read_def split: option.splits)
qed (use assms in \<open>auto simp: async_accept_def async_read_some_def async_write_def process_loop_def\<close>)

lemma tcp_server_starts:
  assumes "pool_inv p" "io_contexts p \<noteq> []" "next_io_context p = 0"
  shows "\<exists>m. tcp_server None address port p = Inr m \<and> bench.client_inv (io_contexts p) m \<and>
    sockets (world m) = []"
proof -
  obtain q where q: "get_io_context p = Some (io_contexts p ! 0, q)" "pool_inv q"
      "io_contexts q = io_contexts p" "unat (next_io_context q) = Suc 0 mod length (io_contexts p)"
    using get_io_context_step [OF assms(1,2)] assms(3) by auto
  let ?w = "log_message INFO (''Listening on '' @ address @ '':'' @ dec_nat port @ '' ...'')
     \<lparr>server_pool = q, acceptor_context = io_contexts p ! 0, sockets = [], closed = [], log_calls = []\<rparr>"
  have "server_good (io_contexts p) ?w"
    unfolding server_good_log using assms(2) q by (simp add: server_good_def)
  then obtain m where "start Listen (machine_init ?w) = Inr m" "bench.client_inv (io_contexts p) m" "world m = ?w"
    using bench.client_start [of "machine_init ?w" "io_contexts p" Listen] machine_init_inv [of ?w]
    by (auto simp: machine_init_def empty_heap_def)
  then show ?thesis by (auto simp: tcp_server_def q(1) log_message_def)
qed

text \<open>C3: in every run of the server, with every order and every result of the callbacks, a step
  fails in one way only: \<open>listen\<close> has accepted a connection whose \<open>remote_endpoint()\<close> throws, and
  the promise's \<open>unhandled_exception\<close> terminates the process.\<close>

theorem server_is_safe:
  assumes "tcp_server bound address port p = Inr m0" "pool_inv p" "next_io_context p = 0"
    and "runs server_answers server_body m0 m" "step server_body m = Inl e"
  shows "e = terminated \<and> (\<exists>h st f s. stack m = h # st \<and> frames (mem m) h = Some f \<and>
    point f = At (ListenAccept s) (Some (Accepted None None)))"
proof -
  have ne: "io_contexts p \<noteq> []" and b: "bound = None" using tcp_server_InrD [OF assms(1)] by simp_all
  have inv: "bench.client_inv (io_contexts p) m0"
    using tcp_server_starts [OF assms(2) ne assms(3), of address port] assms(1) b by simp
  have "bench.client_inv (io_contexts p) m" by (rule bench.client_runs [OF assms(4) inv])
  from bench.client_step [OF this] assms(5)
  obtain h st f l v where "e = terminated" "stack m = h # st" "frames (mem m) h = Some f"
      "point f = At l v" "server_accepts l v" "fst (server_body l v (world m)) = Throw"
    by auto
  then show ?thesis using server_throws by blast
qed

text \<open>C23: started with n threads, the server uses the n contexts of its pool in turn: at every time the acceptor is on the first and
  the i-th connection's socket, i counted from 0, on context i + 1 modulo n.\<close>

theorem connections_in_turn:
  assumes "main_mt a bound address n w = Some (Inr m0)" "runs server_answers server_body m0 m"
  shows "\<exists>p w'. IOContextPool a n w = Some (p, w') \<and> length (io_contexts p) = unat n \<and>
    acceptor_context (world m) = io_contexts p ! 0 \<and>
    sockets (world m) = map (\<lambda>i. io_contexts p ! (Suc i mod unat n)) [0..<length (sockets (world m))]"
proof -
  obtain p w' where p: "IOContextPool a n w = Some (p, w')" "tcp_server bound address 8000 p = Inr m0"
    using assms(1) by (auto simp: main_mt_def)
  have q: "length (io_contexts p) = unat n" "pool_inv p" "next_io_context p = 0"
    using IOContextPool_result [where a = a and n = n and w = w] p(1) by simp_all
  have ne: "io_contexts p \<noteq> []" and b: "bound = None" using tcp_server_InrD [OF p(2)] by simp_all
  have "bench.client_inv (io_contexts p) m0"
    using tcp_server_starts [OF q(2) ne q(3), of address 8000] p(2) b by simp
  then have "server_good (io_contexts p) (world m)"
    using bench.client_runs [OF assms(2)] bench.client_inv_def by blast
  then show ?thesis
    using p(1) q(1) by (intro exI [of _ p] exI [of _ w']) (simp add: server_good_def)
qed

text \<open>With no contexts, the server's constructor reads out of range.\<close>

lemma no_threads_no_server: "main_mt a bound address 0 w = Some (Inl (Hazard undefined_access))"
  by (simp add: main_mt_def empty_pool_hands_out_nothing tcp_server_def)

section \<open>One connection\<close>

text \<open>
  A connection between reads: the coroutine \<open>p\<close> running \<open>process\<close> awaits its task \<open>c\<close>, which is
  registered for the callback of operation number \<open>i\<close>.
\<close>

definition connection ::
  "(server_point, server_op, server_result, 'c server) machine \<Rightarrow> nat \<Rightarrow> server_op \<Rightarrow> server_point \<Rightarrow>
   server_point \<Rightarrow> nat \<Rightarrow> nat \<Rightarrow> bool" where
  "connection m i operation outer inner p c \<longleftrightarrow>
     stack m = [] \<and> p \<noteq> c \<and> i < length (pending m) \<and> pending m ! i = (c, operation) \<and>
     frames (mem m) p = Some \<lparr>caller = None, promise_value = None, point = WaitTask outer c\<rparr> \<and>
     frames (mem m) c = Some \<lparr>caller = Some p, promise_value = None, point = WaitIO inner\<rparr> \<and>
     (\<forall>h. fresh (mem m) \<le> h \<longrightarrow> frames (mem m) h = None)"

definition others :: "nat \<Rightarrow> 'a list \<Rightarrow> 'a list" where
  "others i xs = take i xs @ drop (Suc i) xs"

text \<open>A callback of the event loop: operation \<open>i\<close> completes, and the coroutines run on until all of
  them are suspended again (10 steps are more than any of these take).\<close>

definition callback ::
  "nat \<Rightarrow> server_result \<Rightarrow> 'c server_machine \<Rightarrow> hazard + 'c server_machine" where
  "callback i r m = (case complete i r m of Inl e \<Rightarrow> Inl e | Inr m' \<Rightarrow> run_steps 10 server_body m')"

lemma connectionD:
  assumes "connection m i operation outer inner p c"
  shows "frames (mem m) p = Some \<lparr>caller = None, promise_value = None, point = WaitTask outer c\<rparr>"
    "frames (mem m) c = Some \<lparr>caller = Some p, promise_value = None, point = WaitIO inner\<rparr>"
    "pending m ! i = (c, operation)" "stack m = []" "i < length (pending m)"
    "\<And>h. fresh (mem m) \<le> h \<Longrightarrow> frames (mem m) h = None"
    "c < fresh (mem m)" "p < fresh (mem m)" "p \<noteq> c" "c \<noteq> p"
proof -
  show f: "frames (mem m) p = Some \<lparr>caller = None, promise_value = None, point = WaitTask outer c\<rparr>"
    "frames (mem m) c = Some \<lparr>caller = Some p, promise_value = None, point = WaitIO inner\<rparr>"
    "pending m ! i = (c, operation)" "stack m = []" "i < length (pending m)"
    "\<And>h. fresh (mem m) \<le> h \<Longrightarrow> frames (mem m) h = None" "p \<noteq> c" "c \<noteq> p"
    using assms by (auto simp: connection_def)
  show "c < fresh (mem m)" "p < fresh (mem m)"
    using f(1,2) f(6) [of c] f(6) [of p] by (auto simp: not_le [symmetric])
qed

lemma nth_others: "i < length xs \<Longrightarrow> (others i xs @ [x]) ! (length xs - 1) = x"
proof -
  assume "i < length xs"
  then have "length (others i xs) = length xs - 1" by (simp add: others_def)
  then show ?thesis by (metis nth_append_length)
qed

lemma length_others: "i < length xs \<Longrightarrow> Suc (length (others i xs)) = length xs"
  by (simp add: others_def)

lemmas server_defs = callback_def machine_defs numeral_eq_Suc Let_def process_read_def process_loop_def
  async_accept_def async_read_some_def async_write_def fun_upd_twist others_def

text \<open>A successful read is answered: the same coroutine goes on to write the whole response on
  the same socket, the finished read's frame is gone, and no other operation is touched.\<close>

theorem successful_read_is_answered:
  assumes "connection m i (ReadSome s) (ProcessRead s) ReadDone p c"
  shows "\<exists>m'. callback i (Transferred None n) m = Inr m' \<and>
    connection m' (length (pending m) - 1) (Write s response) (ProcessWrite s) WriteDone p (fresh (mem m)) \<and>
    pending m' = others i (pending m) @ [(fresh (mem m), Write s response)] \<and>
    frames (mem m') c = None \<and> closed (world m') = closed (world m) \<and>
    log_calls (world m') = log_calls (world m) @ [(INFO, ''read '' @ dec_nat n @ '' bytes'')]"
proof -
  note f = connectionD [OF assms]
  let ?n = "fresh (mem m)"
  let ?m = "m\<lparr>mem := \<lparr>frames =
      (frames (mem m))(c := None, ?n \<mapsto> \<lparr>caller = Some p, promise_value = None, point = WaitIO WriteDone\<rparr>,
         p \<mapsto> \<lparr>caller = None, promise_value = None, point = WaitTask (ProcessWrite s) ?n\<rparr>), fresh = Suc ?n\<rparr>,
      stack := [], pending := others i (pending m) @ [(?n, Write s response)],
      world := log_message INFO (''read '' @ dec_nat n @ '' bytes'') (world m)\<rparr>"
  have "callback i (Transferred None n) m = Inr ?m"
    using f by (simp add: server_defs)
  then show ?thesis
    using f(5-) nth_others [OF f(5)] length_others [OF f(5)]
    by (intro exI [of _ ?m]) (simp add: connection_def log_message_def)
qed

text \<open>After the write, whether it succeeded or not, the connection reads again.\<close>

theorem write_is_followed_by_read:
  assumes "connection m i (Write s b) (ProcessWrite s) WriteDone p c"
  shows "\<exists>m'. callback i (Transferred ec n) m = Inr m' \<and>
    connection m' (length (pending m) - 1) (ReadSome s) (ProcessRead s) ReadDone p (fresh (mem m)) \<and>
    pending m' = others i (pending m) @ [(fresh (mem m), ReadSome s)] \<and>
    frames (mem m') c = None \<and> world m' = world m"
proof -
  note f = connectionD [OF assms]
  let ?n = "fresh (mem m)"
  let ?m = "m\<lparr>mem := \<lparr>frames =
      (frames (mem m))(c := None, ?n \<mapsto> \<lparr>caller = Some p, promise_value = None, point = WaitIO ReadDone\<rparr>,
         p \<mapsto> \<lparr>caller = None, promise_value = None, point = WaitTask (ProcessRead s) ?n\<rparr>), fresh = Suc ?n\<rparr>,
      stack := [], pending := others i (pending m) @ [(?n, ReadSome s)]\<rparr>"
  have "callback i (Transferred ec n) m = Inr ?m"
    using f by (simp add: server_defs)
  then show ?thesis
    using f(5-) nth_others [OF f(5)] length_others [OF f(5)]
    by (intro exI [of _ ?m]) (simp add: connection_def)
qed

text \<open>A failed read, as at the end of the stream, ends the connection: its error is logged, both
  its frames are destroyed, its socket is closed, and nothing else changes.\<close>

theorem failed_read_ends_connection:
  assumes "connection m i (ReadSome s) (ProcessRead s) ReadDone p c"
  shows "\<exists>m'. callback i (Transferred (Some msg) n) m = Inr m' \<and> stack m' = [] \<and>
    frames (mem m') = (frames (mem m))(c := None, p := None) \<and> pending m' = others i (pending m) \<and>
    closed (world m') = closed (world m) @ [s] \<and>
    log_calls (world m') = log_calls (world m) @ [(ERROR, msg)]"
proof -
  note f = connectionD [OF assms]
  let ?m = "m\<lparr>mem := \<lparr>frames = (frames (mem m))(c := None, p := None), fresh = fresh (mem m)\<rparr>,
      stack := [], pending := others i (pending m),
      world := close_socket s (log_message ERROR msg (world m))\<rparr>"
  have "callback i (Transferred (Some msg) n) m = Inr ?m"
    using f by (simp add: server_defs)
  then show ?thesis
    by (intro exI [of _ ?m]) (simp add: close_socket_def log_message_def)
qed

lemma nth_others2:
  assumes "i < length xs"
  shows "(others i xs @ [x, y]) ! (length xs - 1) = x \<and> (others i xs @ [x, y]) ! length xs = y"
proof -
  have l: "length xs = Suc (length (others i xs))" using length_others [OF assms] by simp
  show ?thesis unfolding l by (simp add: nth_append)
qed

text \<open>An accepted connection is served while the server goes on accepting: one callback later
  the new connection is waiting for its first read and the acceptor for the next connection.\<close>

theorem accepted_connection_is_served:
  assumes "connection m i (Accept s) (ListenAccept s) AcceptDone p c" "server_good cs (world m)"
  shows "\<exists>m'. callback i (Accepted None (Some (address, port))) m = Inr m' \<and> server_good cs (world m') \<and>
    connection m' (length (pending m) - 1) (ReadSome s) (ProcessRead s) ReadDone (fresh (mem m)) (Suc (fresh (mem m))) \<and>
    connection m' (length (pending m)) (Accept (length (sockets (world m)))) (ListenAccept (length (sockets (world m))))
      AcceptDone p (Suc (Suc (fresh (mem m)))) \<and>
    log_calls (world m') = log_calls (world m) @ [(INFO, ''new connection: '' @ address @ '':'' @ dec_nat port)]"
proof -
  note f = connectionD [OF assms(1)]
  let ?n = "fresh (mem m)"
  let ?w = "log_message INFO (''new connection: '' @ address @ '':'' @ dec_nat port) (world m)"
  let ?k = "length (sockets (world m))"
  have len: "length (sockets ?w) = ?k" by (simp add: log_message_def)
  obtain w' where w': "listen_loop ?w = (Call (AcceptTask ?k) (ListenAccept ?k), w')"
      "server_good cs w'" "log_calls w' = log_calls ?w"
    using listen_loop_good [of cs ?w] assms(2) unfolding len server_good_log by blast
  let ?m = "m\<lparr>mem := \<lparr>frames = (frames (mem m))(c := None,
         ?n \<mapsto> \<lparr>caller = None, promise_value = None, point = WaitTask (ProcessRead s) (Suc ?n)\<rparr>,
         Suc ?n \<mapsto> \<lparr>caller = Some ?n, promise_value = None, point = WaitIO ReadDone\<rparr>,
         Suc (Suc ?n) \<mapsto> \<lparr>caller = Some p, promise_value = None, point = WaitIO AcceptDone\<rparr>,
         p \<mapsto> \<lparr>caller = None, promise_value = None, point = WaitTask (ListenAccept ?k) (Suc (Suc ?n))\<rparr>),
         fresh = Suc (Suc (Suc ?n))\<rparr>,
      stack := [], pending := others i (pending m) @ [(Suc ?n, ReadSome s), (Suc (Suc ?n), Accept ?k)],
      world := w'\<rparr>"
  have "callback i (Accepted None (Some (address, port))) m = Inr ?m"
    using f w'(1) by (simp add: server_defs listen_accepted_def)
  moreover have "(others i (pending m) @ [x, y]) ! (length (pending m) - 1) = x"
    "(others i (pending m) @ [x, y]) ! length (pending m) = y" for x y
    using nth_others2 [OF f(5)] by blast+
  ultimately show ?thesis
    using f(5-) w' length_others [OF f(5)]
    by (intro exI [of _ ?m]) (simp add: connection_def log_message_def)
qed

text \<open>One failed accept ends \<open>listen\<close> for good: nothing accepts any more, while the open
  connections are kept.\<close>

theorem failed_accept_ends_listening:
  assumes "connection m i (Accept s) (ListenAccept s) AcceptDone p c"
  shows "\<exists>m'. callback i (Accepted (Some msg) remote) m = Inr m' \<and> stack m' = [] \<and>
    frames (mem m') = (frames (mem m))(c := None, p := None) \<and> pending m' = others i (pending m) \<and>
    log_calls (world m') = log_calls (world m) @ [(ERROR, ''ec='' @ msg)]"
proof -
  note f = connectionD [OF assms]
  let ?m = "m\<lparr>mem := \<lparr>frames = (frames (mem m))(c := None, p := None), fresh = fresh (mem m)\<rparr>,
      stack := [], pending := others i (pending m),
      world := close_socket s (log_message ERROR (''ec='' @ msg) (world m))\<rparr>"
  have "callback i (Accepted (Some msg) remote) m = Inr ?m"
    using f by (simp add: server_defs listen_accepted_def)
  then show ?thesis
    by (intro exI [of _ ?m]) (simp add: close_socket_def log_message_def)
qed

text \<open>A peer that is gone before \<open>listen\<close> asks for its endpoint terminates the server.\<close>

theorem vanished_peer_terminates_server:
  assumes "connection m i (Accept s) (ListenAccept s) AcceptDone p c"
  shows "callback i (Accepted None None) m = Inl terminated"
  using connectionD [OF assms] by (simp add: server_defs listen_accepted_def)

text \<open>The response announces the length its body has.\<close>

lemma response_length:
  "response = ''HTTP/1.1 200 OK'' @ [CHR 0x0A] @ ''Content-Type: text/html; charset=utf-8'' @ [CHR 0x0A] @
     ''Content-Length: '' @ dec_nat (length (''Hello, World!'' @ [CHR 0x0A])) @ [CHR 0x0A, CHR 0x0A] @
     ''Hello, World!'' @ [CHR 0x0A]"
proof -
  have d: "dec_nat 14 = ''14''" by (simp add: dec_nat.simps)
  have l: "length (''Hello, World!'' @ [CHR 0x0A]) = 14" by simp
  show ?thesis unfolding l d response_def by simp
qed

section \<open>A server to evaluate on\<close>

definition sample_server :: "nat server" where
  "sample_server = \<lparr>server_pool = \<lparr>next_io_context = 0, io_contexts = [0, 1], work_guards = [Some 0, Some 1]\<rparr>,
     acceptor_context = 0, sockets = [1], closed = [], log_calls = [(INFO, ''Listening on 0.0.0.0:8000 ...'')]\<rparr>"

definition sample_machine :: "server_op \<Rightarrow> server_point \<Rightarrow> server_point \<Rightarrow> nat server_machine" where
  "sample_machine operation outer inner =
     \<lparr>mem = \<lparr>frames = [0 \<mapsto> \<lparr>caller = None, promise_value = None, point = WaitTask outer 1\<rparr>,
                     1 \<mapsto> \<lparr>caller = Some 0, promise_value = None, point = WaitIO inner\<rparr>], fresh = 2\<rparr>,
      stack = [], pending = [(1, operation)], world = sample_server\<rparr>"

lemma sample_connection: "connection (sample_machine q f g) 0 q f g 0 1"
  by (simp add: connection_def sample_machine_def)

lemma sample_good: "server_good [0, 1] sample_server"
  by (simp add: server_good_def sample_server_def pool_inv_def)

definition sample_start :: "nat server_machine" where
  "sample_start = \<lparr>mem = \<lparr>frames = [0 \<mapsto> \<lparr>caller = None, promise_value = None, point = At Listen None\<rparr>], fresh = 1\<rparr>,
     stack = [0], pending = [],
     world = \<lparr>server_pool = \<lparr>next_io_context = 1, io_contexts = [0, 1], work_guards = [Some 0, Some 1]\<rparr>,
       acceptor_context = 0, sockets = [], closed = [], log_calls = [(INFO, ''Listening on 0.0.0.0:8000 ...'')]\<rparr>\<rparr>"

lemma sample_tcp_server:
  "tcp_server None ''0.0.0.0'' 8000 \<lparr>next_io_context = 0, io_contexts = [0, 1], work_guards = [Some 0, Some 1]\<rparr> =
     Inr sample_start"
proof -
  have d: "dec_nat 8000 = ''8000''" by (simp add: dec_nat.simps)
  show ?thesis
    by (simp add: tcp_server_def get_io_context_def machine_defs log_message_def d sample_start_def)
qed

lemma sample_main: "main_mt sample_asio None ''0.0.0.0'' 2 [] = Some (Inr sample_start)"
  using sample_tcp_server by (simp add: main_mt_def sample_pool)

lemma sample_listening: "run_steps 10 server_body sample_start =
    Inr (sample_machine (Accept 0) (ListenAccept 0) AcceptDone)"
  by (simp add: server_defs sample_start_def sample_machine_def sample_server_def listen_loop_def get_io_context_def)

lemma sample_runs:
  "runs server_answers server_body sample_start (sample_machine (Accept 0) (ListenAccept 0) AcceptDone)"
  by (rule runs_run_steps [OF runs_refl sample_listening])

section \<open>The properties at the sample\<close>

theorem server_is_safe_witness:
  "\<exists>m :: nat server_machine. step server_body m = Inl terminated \<and> (\<exists>h st f s. stack m = h # st \<and> frames (mem m) h = Some f \<and>
    point f = At (ListenAccept s) (Some (Accepted None None)))"
proof -
  let ?m = "sample_machine (Accept 0) (ListenAccept 0) AcceptDone"
  obtain m1 m2 where m: "complete 0 (Accepted None None) ?m = Inr m1" "run_steps 2 server_body m1 = Inr m2"
      "step server_body m2 = Inl terminated"
    by (simp add: server_defs sample_machine_def listen_accepted_def)
  have "runs server_answers server_body sample_start m1"
    by (rule runs_complete [OF sample_runs _ _ _ _ m(1), of 1 "Accept 0"])
       (simp_all add: sample_machine_def accepted_def)
  then have "runs server_answers server_body sample_start m2" using m(2) by (rule runs_run_steps)
  from server_is_safe [OF sample_tcp_server _ _ this m(3)]
  have "\<exists>h st f s. stack m2 = h # st \<and> frames (mem m2) h = Some f \<and>
      point f = At (ListenAccept s) (Some (Accepted None None))"
    by (simp add: pool_inv_def)
  with m(3) show ?thesis by blast
qed

theorem connections_in_turn_witness:
  "\<exists>p w'. IOContextPool sample_asio 2 [] = Some (p, w') \<and> length (io_contexts p) = 2 \<and>
    acceptor_context sample_server = io_contexts p ! 0 \<and> sockets sample_server = [io_contexts p ! 1]"
  using connections_in_turn [OF sample_main sample_runs] by (simp add: sample_machine_def sample_server_def)

theorem successful_read_is_answered_witness:
  "\<exists>m'. callback 0 (Transferred None 5) (sample_machine (ReadSome 0) (ProcessRead 0) ReadDone) = Inr m' \<and>
    connection m' 0 (Write 0 response) (ProcessWrite 0) WriteDone 0 2"
  using successful_read_is_answered [OF sample_connection, where s = 0 and n = 5] by (auto simp: sample_machine_def)

theorem write_is_followed_by_read_witness:
  "\<exists>m'. callback 0 (Transferred (Some ''Broken pipe'') 0)
      (sample_machine (Write 0 response) (ProcessWrite 0) WriteDone) = Inr m' \<and>
    connection m' 0 (ReadSome 0) (ProcessRead 0) ReadDone 0 2"
  using write_is_followed_by_read [OF sample_connection, where s = 0 and b = response and ec = "Some ''Broken pipe''" and n = 0]
  by (auto simp: sample_machine_def)

theorem failed_read_ends_connection_witness:
  "\<exists>m'. callback 0 (Transferred (Some ''End of file'') 0)
      (sample_machine (ReadSome 0) (ProcessRead 0) ReadDone) = Inr m' \<and> pending m' = [] \<and>
    closed (world m') = [0]"
  using failed_read_ends_connection [OF sample_connection, where s = 0 and msg = "''End of file''" and n = 0]
  by (auto simp: sample_machine_def sample_server_def others_def)

theorem accepted_connection_is_served_witness:
  "\<exists>m'. callback 0 (Accepted None (Some (''10.0.0.7'', 4000)))
      (sample_machine (Accept 0) (ListenAccept 0) AcceptDone) = Inr m' \<and>
    connection m' 0 (ReadSome 0) (ProcessRead 0) ReadDone 2 3"
  using accepted_connection_is_served [OF sample_connection, where s = 0 and cs = "[0, 1]" and address = "''10.0.0.7''" and port = 4000]
    sample_good
  by (auto simp: sample_machine_def)

theorem failed_accept_ends_listening_witness:
  "\<exists>m'. callback 0 (Accepted (Some ''Too many open files'') None)
      (sample_machine (Accept 0) (ListenAccept 0) AcceptDone) = Inr m' \<and> pending m' = []"
  using failed_accept_ends_listening [OF sample_connection, where s = 0 and msg = "''Too many open files''" and remote = None]
  by (auto simp: sample_machine_def others_def)

theorem vanished_peer_terminates_server_witness:
  "callback 0 (Accepted None None) (sample_machine (Accept 0) (ListenAccept 0) AcceptDone) = Inl terminated"
  by (rule vanished_peer_terminates_server [OF sample_connection])

end
