(* ===== verification/Bench_St.thy ===== *)
theory Bench_St
  imports Bench_Server "HOL-Library.Multiset"
begin

text \<open>
  \<open>asio/benchmark/benchmark_st.cpp\<close>: the same server on \<open>asio::awaitable\<close> coroutines and one
  \<open>io_context\<close>, and what it has in common with the multi-threaded one. What asio promises is in the
  model: a coroutine suspended in \<open>co_await\<close> waits for one operation; with \<open>use_awaitable\<close> an error
  of the operation is thrown, with \<open>as_tuple\<close> it is returned; \<open>co_spawn\<close> lets a coroutine start
  later, and \<open>detached\<close> drops the exception it ends with. The file defines \<open>NDEBUG\<close>, so its logging
  macros are nothing (theory \<open>Logging\<close>).
\<close>

section \<open>The coroutines\<close>

text \<open>Sockets are numbered as \<open>listen\<close> gets them; operations and results are those of theory
  \<open>Bench_Server\<close>, and \<open>Begin\<close> is a coroutine that has been spawned and not started.\<close>

datatype coroutine = Listening | Processing nat

datatype awaited = Begin coroutine | Operation coroutine server_op

text \<open>A coroutine's next suspension, or its end, by \<open>co_return\<close> or by an exception.\<close>

datatype suspension = Await server_op | Co_return | Thrown

record st_server =
  awaiting :: "awaited list"
  sockets_made :: nat
  sockets_closed :: "nat list"

definition process_loop_st :: "nat \<Rightarrow> suspension" where
  "process_loop_st socket = Await (ReadSome socket)"

definition process_read_st :: "nat \<Rightarrow> string option \<Rightarrow> nat \<Rightarrow> suspension" where
  "process_read_st socket ec nread =
     (case ec of Some message \<Rightarrow> Co_return | None \<Rightarrow> Await (Write socket response))"

definition process_write_st :: "nat \<Rightarrow> string option \<Rightarrow> suspension" where
  "process_write_st socket ec = (case ec of Some message \<Rightarrow> Thrown | None \<Rightarrow> process_loop_st socket)"

definition close_st :: "nat \<Rightarrow> st_server \<Rightarrow> st_server" where
  "close_st socket w = w\<lparr>sockets_closed := sockets_closed w @ [socket]\<rparr>"

definition co_spawn :: "coroutine \<Rightarrow> st_server \<Rightarrow> st_server" where
  "co_spawn c w = w\<lparr>awaiting := awaiting w @ [Begin c]\<rparr>"

definition listen_loop_st :: "st_server \<Rightarrow> suspension \<times> st_server" where
  "listen_loop_st w = (Await (Accept (sockets_made w)), w)"

text \<open>Only a successful accept makes a socket; it is closed when \<open>remote_endpoint\<close> throws.\<close>

definition listen_accepted_st ::
  "string option \<Rightarrow> (string \<times> nat) option \<Rightarrow> st_server \<Rightarrow> suspension \<times> st_server" where
  "listen_accepted_st ec remote w =
     (case ec of
        Some message \<Rightarrow> (Thrown, w)
      | None \<Rightarrow>
         (let socket = sockets_made w; w = w\<lparr>sockets_made := Suc socket\<rparr> in
          case remote of
            None \<Rightarrow> (Thrown, close_st socket w)
          | Some (address, port) \<Rightarrow> listen_loop_st (co_spawn (Processing socket) w)))"

section \<open>The event loop\<close>

text \<open>A coroutine goes on to its next suspension; at its end its frame, with the socket that \<open>process\<close>
  has as its parameter, is destroyed, and \<open>detached\<close> ignores an exception.\<close>

fun resume_st :: "awaited \<Rightarrow> server_result \<Rightarrow> st_server \<Rightarrow> suspension \<times> st_server" where
  "resume_st (Begin Listening) v w = listen_loop_st w"
| "resume_st (Begin (Processing s)) v w = (process_loop_st s, w)"
| "resume_st (Operation c (Accept s)) v w =
     (case v of Accepted ec remote \<Rightarrow> listen_accepted_st ec remote w | _ \<Rightarrow> (Thrown, w))"
| "resume_st (Operation c (ReadSome s)) v w =
     (case v of Transferred ec n \<Rightarrow> (process_read_st s ec n, w) | _ \<Rightarrow> (Thrown, w))"
| "resume_st (Operation c (Write s b)) v w =
     (case v of Transferred ec n \<Rightarrow> (process_write_st s ec, w) | _ \<Rightarrow> (Thrown, w))"

fun owner :: "awaited \<Rightarrow> coroutine" where
  "owner (Begin c) = c"
| "owner (Operation c q) = c"

fun destroy_st :: "coroutine \<Rightarrow> st_server \<Rightarrow> st_server" where
  "destroy_st Listening w = w"
| "destroy_st (Processing s) w = close_st s w"

definition await_st :: "coroutine \<Rightarrow> suspension \<times> st_server \<Rightarrow> st_server" where
  "await_st c r =
     (case fst r of
        Await q \<Rightarrow> (snd r)\<lparr>awaiting := awaiting (snd r) @ [Operation c q]\<rparr>
      | Co_return \<Rightarrow> destroy_st c (snd r)
      | Thrown \<Rightarrow> destroy_st c (snd r))"

text \<open>\<open>io_context.run()\<close> runs the handler of what the \<open>i\<close>-th coroutine awaits.\<close>

definition deliver :: "nat \<Rightarrow> server_result \<Rightarrow> st_server \<Rightarrow> st_server" where
  "deliver i v w =
     (let a = awaiting w ! i in await_st (owner a) (resume_st a v (w\<lparr>awaiting := others i (awaiting w)\<rparr>)))"

definition listening_st :: st_server where
  "listening_st = co_spawn Listening \<lparr>awaiting = [], sockets_made = 0, sockets_closed = []\<rparr>"

text \<open>The constructor of \<open>tcp_server\<close>; \<open>bound\<close> is what that of the acceptor throws when it cannot have the port, and ends the program with.\<close>

definition tcp_server_st :: "string option \<Rightarrow> string + st_server" where
  "tcp_server_st bound = (case bound of Some what \<Rightarrow> Inl what | None \<Rightarrow> Inr listening_st)"

lemma tcp_server_st_InrD: "tcp_server_st bound = Inr w \<Longrightarrow> w = listening_st"
  by (simp add: tcp_server_st_def split: option.splits)

text \<open>What asio may give to a coroutine that awaits.\<close>

fun may_give :: "awaited \<Rightarrow> server_result \<Rightarrow> bool" where
  "may_give (Begin c) v \<longleftrightarrow> v = Void"
| "may_give (Operation c q) v \<longleftrightarrow> server_answers q v"

inductive st_reach :: "st_server \<Rightarrow> st_server \<Rightarrow> bool" where
  st_here: "st_reach w w"
| st_event: "st_reach w w1 \<Longrightarrow> i < length (awaiting w1) \<Longrightarrow> may_give (awaiting w1 ! i) v \<Longrightarrow>
    st_reach w (deliver i v w1)"

section \<open>Sockets are served or closed\<close>

definition served :: "awaited list \<Rightarrow> nat list" where
  "served as = concat (map (\<lambda>a. case owner a of Listening \<Rightarrow> [] | Processing s \<Rightarrow> [s]) as)"

lemma served_simps [simp]:
  "served [] = []" "served (as @ bs) = served as @ served bs"
  "served (Begin c # as) = (case c of Listening \<Rightarrow> [] | Processing s \<Rightarrow> [s]) @ served as"
  "served (Operation c q # as) = (case c of Listening \<Rightarrow> [] | Processing s \<Rightarrow> [s]) @ served as"
  by (simp_all add: served_def)

definition listeners :: "awaited list \<Rightarrow> nat" where
  "listeners as = length (filter (\<lambda>a. owner a = Listening) as)"

lemma listeners_simps [simp]:
  "listeners [] = 0" "listeners (as @ bs) = listeners as + listeners bs"
  "listeners (Begin c # as) = (if c = Listening then 1 else 0) + listeners as"
  "listeners (Operation c q # as) = (if c = Listening then 1 else 0) + listeners as"
  by (simp_all add: listeners_def)

lemma others_split:
  assumes "i < length as"
  shows "mset (served as) = mset (served [as ! i]) + mset (served (others i as))"
    "listeners as = listeners [as ! i] + listeners (others i as)"
    "\<And>P. list_all P as \<longleftrightarrow> P (as ! i) \<and> list_all P (others i as)"
proof -
  have e: "as = take i as @ [as ! i] @ drop (Suc i) as" using id_take_nth_drop [OF assms] by simp
  show "mset (served as) = mset (served [as ! i]) + mset (served (others i as))"
    by (subst e) (simp only: served_simps others_def mset_append union_ac)
  show "listeners as = listeners [as ! i] + listeners (others i as)"
    by (subst e) (simp only: listeners_simps others_def add.commute add.left_commute)
  show "list_all P as \<longleftrightarrow> P (as ! i) \<and> list_all P (others i as)" for P
    by (subst e) (auto simp: others_def)
qed

text \<open>Each coroutine awaits operations of its own: the listener an accept, a connection reads and
  writes on its socket.\<close>

fun own :: "awaited \<Rightarrow> bool" where
  "own (Begin c) \<longleftrightarrow> True"
| "own (Operation Listening q) \<longleftrightarrow> (\<exists>s. q = Accept s)"
| "own (Operation (Processing s) q) \<longleftrightarrow> q = ReadSome s \<or> (\<exists>b. q = Write s b)"

definition st_inv :: "st_server \<Rightarrow> bool" where
  "st_inv w \<longleftrightarrow> mset (served (awaiting w)) + mset (sockets_closed w) = mset [0..<sockets_made w] \<and>
     listeners (awaiting w) \<le> 1 \<and> list_all own (awaiting w)"

lemmas st_defs = await_st_def close_st_def co_spawn_def listen_loop_st_def listen_accepted_st_def
  process_loop_st_def process_read_st_def process_write_st_def Let_def

lemma mset_upt_Suc: "mset_set {0..<Suc n} = add_mset n (mset_set {0..<n})"
  by (simp add: atLeast0_lessThan_Suc)

lemma deliver_inv:
  assumes "st_inv w" "i < length (awaiting w)" "may_give (awaiting w ! i) v"
  shows "st_inv (deliver i v w)"
proof -
  note s = others_split [OF assms(2)]
  have g: "mset (served [awaiting w ! i]) + mset (served (others i (awaiting w))) + mset (sockets_closed w) = mset [0..<sockets_made w]"
    "listeners [awaiting w ! i] + listeners (others i (awaiting w)) \<le> 1" "own (awaiting w ! i)"
    "list_all own (others i (awaiting w))"
    using assms(1) s by (simp_all add: st_inv_def)
  note d = deliver_def st_inv_def st_defs add.assoc [symmetric]
  show ?thesis
  proof (cases "awaiting w ! i")
    case (Begin c)
    then show ?thesis using g assms(3) by (cases c) (auto simp: d)
  next
    case (Operation c q)
    show ?thesis
    proof (cases c)
      case Listening
      then obtain k where q: "q = Accept k" using g(3) Operation by auto
      then obtain ec remote where "v = Accepted ec remote"
        using assms(3) Operation by (cases v) (auto simp: accepted_def)
      then show ?thesis using g Operation Listening q by (auto simp: d ac_simps mset_upt_Suc split: option.splits)
    next
      case (Processing t)
      then consider "q = ReadSome t" | b where "q = Write t b" using g(3) Operation by auto
      then show ?thesis
      proof cases
        case 1
        then obtain ec n where "v = Transferred ec n"
          using assms(3) Operation by (cases v) (auto simp: transferred_def)
        then show ?thesis using g Operation Processing 1 by (auto simp: d ac_simps split: option.splits)
      next
        case 2
        then obtain ec n where "v = Transferred ec n"
          using assms(3) Operation by (cases v) (auto simp: transferred_def)
        then show ?thesis using g Operation Processing 2 by (auto simp: d ac_simps split: option.splits)
      qed
    qed
  qed
qed

lemma st_reach_inv: "st_reach w w1 \<Longrightarrow> st_inv w \<Longrightarrow> st_inv w1"
  by (induction rule: st_reach.induct) (simp_all add: deliver_inv)

lemma listening_st_inv: "st_inv listening_st"
  by (simp add: st_inv_def listening_st_def co_spawn_def)

text \<open>
  C16: at every time each socket ever accepted is either served by exactly one coroutine or closed, once,
  and at most one coroutine listens.
\<close>

theorem sockets_served_or_closed:
  assumes "tcp_server_st bound = Inr w0" "st_reach w0 w"
  shows "mset (served (awaiting w)) + mset (sockets_closed w) = mset [0..<sockets_made w] \<and>
    listeners (awaiting w) \<le> 1"
  using st_reach_inv [OF assms(2)] listening_st_inv tcp_server_st_InrD [OF assms(1)] by (simp add: st_inv_def)

section \<open>The end of the program\<close>

lemma no_listener_step:
  assumes "st_inv w" "listeners (awaiting w) = 0" "i < length (awaiting w)" "may_give (awaiting w ! i) v"
  shows "listeners (awaiting (deliver i v w)) = 0 \<and> sockets_made (deliver i v w) = sockets_made w"
proof -
  note s = others_split [OF assms(3)]
  have g: "listeners [awaiting w ! i] = 0" "listeners (others i (awaiting w)) = 0" "own (awaiting w ! i)"
    using assms(1,2) s by (simp_all add: st_inv_def)
  note d = deliver_def st_defs
  show ?thesis
  proof (cases "awaiting w ! i")
    case (Begin c)
    then show ?thesis using g by (cases c) (simp_all add: d)
  next
    case (Operation c q)
    then obtain t where c: "c = Processing t" using g(1) by (cases c) auto
    then consider "q = ReadSome t" | b where "q = Write t b" using g(3) Operation by auto
    then show ?thesis
      using g Operation c assms(4) by cases (auto simp: d transferred_def split: option.splits server_result.splits)
  qed
qed

lemma no_listener_reach:
  assumes "st_reach w w1" "st_inv w" "listeners (awaiting w) = 0"
  shows "listeners (awaiting w1) = 0 \<and> sockets_made w1 = sockets_made w"
  using assms
proof induction
  case (st_event w w1 i v)
  then show ?case using no_listener_step [OF st_reach_inv [OF st_event.hyps(1) st_event.prems(1)]] by simp
qed simp

lemma idle_iff: "as = [] \<longleftrightarrow> served as = [] \<and> listeners as = 0"
proof (cases as)
  case (Cons a bs)
  then show ?thesis by (cases a; cases "owner a") auto
qed simp

text \<open>
  C28: one failed accept, or a peer that has gone before its endpoint is read, ends the listener without a word: no
  connection is accepted any more. The open ones are served on, and when the last of them is closed
  the event loop has nothing left to wait for and the program returns from \<open>main\<close>.
\<close>

theorem failed_accept_ends_program:
  assumes start: "tcp_server_st bound = Inr w0"
    and "st_reach w0 w" "i < length (awaiting w)" "awaiting w ! i = Operation Listening (Accept k)"
    and "ec \<noteq> None \<or> remote = None" "st_reach (deliver i (Accepted ec remote) w) w'"
  shows "listeners (awaiting w') = 0 \<and> sockets_made w' \<le> Suc (sockets_made w) \<and>
    (awaiting w' = [] \<longleftrightarrow> set (sockets_closed w') = {0..<sockets_made w'})"
proof -
  let ?w1 = "deliver i (Accepted ec remote) w"
  have inv: "st_inv w" using st_reach_inv [OF assms(2)] listening_st_inv tcp_server_st_InrD [OF start] by simp
  have give: "may_give (awaiting w ! i) (Accepted ec remote)" using assms(4) by (simp add: accepted_def)
  note inv1 = deliver_inv [OF inv assms(3) give]
  have "listeners (others i (awaiting w)) = 0"
    using inv others_split(2) [OF assms(3)] assms(4) by (simp add: st_inv_def)
  then have w1: "listeners (awaiting ?w1) = 0 \<and> sockets_made ?w1 \<le> Suc (sockets_made w)"
    using assms(4,5) by (cases ec; cases remote) (auto simp: deliver_def st_defs)
  note w' = no_listener_reach [OF assms(6) inv1 conjunct1 [OF w1]]
  have "st_inv w'" using assms(6) inv1 by (rule st_reach_inv)
  then have e: "mset (served (awaiting w')) + mset (sockets_closed w') = mset [0..<sockets_made w']"
    by (simp add: st_inv_def)
  have "served (awaiting w') = [] \<longleftrightarrow> set (sockets_closed w') = {0..<sockets_made w'}"
  proof
    assume "served (awaiting w') = []"
    then show "set (sockets_closed w') = {0..<sockets_made w'}"
      using e by (metis add_0 atLeast_upt mset.simps(1) set_mset_mset set_upt)
  next
    assume s: "set (sockets_closed w') = {0..<sockets_made w'}"
    have "distinct (served (awaiting w') @ sockets_closed w')"
      using e by (metis distinct_upt mset_append mset_eq_imp_distinct_iff)
    moreover have "set (served (awaiting w')) \<subseteq> {0..<sockets_made w'}"
      using e by (metis atLeast_upt atLeastLessThan_upt mset_append set_append set_mset_mset sup_ge1)
    ultimately have "set (served (awaiting w')) = {}" using s by (metis distinct_append inf.absorb1)
    then show "served (awaiting w') = []" by simp
  qed
  then show ?thesis using w' w1 idle_iff [of "awaiting w'"] by auto
qed

section \<open>The two servers\<close>

text \<open>
  What a connection asks of asio, when it waits as number \<open>i\<close> and is given one result after the
  other, in the two servers: the operations until it has no result left or has ended.
\<close>

fun mt_trace :: "nat \<Rightarrow> server_result list \<Rightarrow> 'c server_machine \<Rightarrow> server_op list" where
  "mt_trace i [] m = [snd (pending m ! i)]"
| "mt_trace i (r # rs) m = snd (pending m ! i) #
     (case callback i r m of
        Inl e \<Rightarrow> []
      | Inr m' \<Rightarrow> if length (pending m') < length (pending m) then [] else mt_trace (length (pending m') - 1) rs m')"

fun operation_of :: "awaited \<Rightarrow> server_op option" where
  "operation_of (Begin c) = None"
| "operation_of (Operation c q) = Some q"

fun st_trace :: "nat \<Rightarrow> server_result list \<Rightarrow> st_server \<Rightarrow> server_op list" where
  "st_trace i [] w = [the (operation_of (awaiting w ! i))]"
| "st_trace i (r # rs) w = the (operation_of (awaiting w ! i)) #
     (let w' = deliver i r w in
      if length (awaiting w') < length (awaiting w) then [] else st_trace (length (awaiting w') - 1) rs w')"

text \<open>The results before the first failed write; reads and writes alternate.\<close>

fun before_failed_write :: "bool \<Rightarrow> server_result list \<Rightarrow> server_result list" where
  "before_failed_write writing [] = []"
| "before_failed_write writing (Transferred (Some e) n # rs) =
     (if writing then [] else Transferred (Some e) n # before_failed_write True rs)"
| "before_failed_write writing (r # rs) = r # before_failed_write (\<not> writing) rs"

lemma deliver_read:
  assumes "i < length (awaiting w)" "awaiting w ! i = Operation (Processing s) (ReadSome s)"
  shows "awaiting (deliver i (Transferred None n) w) =
      others i (awaiting w) @ [Operation (Processing s) (Write s response)]"
    "awaiting (deliver i (Transferred (Some e) n) w) = others i (awaiting w)"
  using assms(2) by (simp_all add: deliver_def st_defs)

lemma deliver_write:
  assumes "i < length (awaiting w)" "awaiting w ! i = Operation (Processing s) (Write s b)"
  shows "awaiting (deliver i (Transferred None n) w) = others i (awaiting w) @ [Operation (Processing s) (ReadSome s)]"
    "awaiting (deliver i (Transferred (Some e) n) w) = others i (awaiting w)"
  using assms(2) by (simp_all add: deliver_def st_defs)

text \<open>One result on each side: the traces start with the same operation, and go on alike.\<close>

lemma trace_read_step:
  fixes m :: "'x server_machine"
  assumes m: "connection m i (ReadSome s) (ProcessRead s) ReadDone p c"
    and w: "j < length (awaiting w)" "awaiting w ! j = Operation (Processing s) (ReadSome s)"
    and IH: "\<And>(m :: 'x server_machine) i c w j. connection m i (Write s response) (ProcessWrite s) WriteDone p c \<Longrightarrow> j < length (awaiting w) \<Longrightarrow>
      awaiting w ! j = Operation (Processing s) (Write s response) \<Longrightarrow> st_trace j rs w = mt_trace i (before_failed_write True rs) m"
  shows "st_trace j (Transferred ec n # rs) w = mt_trace i (before_failed_write False (Transferred ec n # rs)) m"
proof -
  note f = connectionD(3,5) [OF m]
  note lm = length_others [OF f(2)] and l = length_others [OF w(1)]
  show ?thesis
  proof (cases ec)
    case None
    obtain m' where m': "callback i (Transferred None n) m = Inr m'"
        "connection m' (length (pending m) - 1) (Write s response) (ProcessWrite s) WriteDone p (fresh (mem m))"
        "pending m' = others i (pending m) @ [(fresh (mem m), Write s response)]"
      using successful_read_is_answered [OF m] by blast
    let ?w = "deliver j (Transferred None n) w"
    have w': "awaiting ?w = others j (awaiting w) @ [Operation (Processing s) (Write s response)]"
      by (rule deliver_read [OF w])
    have "st_trace (length (awaiting w) - 1) rs ?w = mt_trace (length (pending m) - 1) (before_failed_write True rs) m'"
      using IH [OF m'(2), of "length (awaiting w) - 1" ?w] w' l nth_others [OF w(1)] by simp
    then show ?thesis using f w m' w' l lm by (simp add: Let_def None)
  next
    case (Some e)
    obtain m' where m': "callback i (Transferred (Some e) n) m = Inr m'" "pending m' = others i (pending m)"
      using failed_read_ends_connection [OF m] by blast
    have "awaiting (deliver j (Transferred (Some e) n) w) = others j (awaiting w)" by (rule deliver_read [OF w])
    then show ?thesis using f w m' l lm by (simp add: Let_def Some)
  qed
qed

lemma trace_write_step:
  fixes m :: "'x server_machine"
  assumes m: "connection m i (Write s response) (ProcessWrite s) WriteDone p c"
    and w: "j < length (awaiting w)" "awaiting w ! j = Operation (Processing s) (Write s response)"
    and IH: "\<And>(m :: 'x server_machine) i c w j. connection m i (ReadSome s) (ProcessRead s) ReadDone p c \<Longrightarrow> j < length (awaiting w) \<Longrightarrow>
      awaiting w ! j = Operation (Processing s) (ReadSome s) \<Longrightarrow> st_trace j rs w = mt_trace i (before_failed_write False rs) m"
  shows "st_trace j (Transferred ec n # rs) w = mt_trace i (before_failed_write True (Transferred ec n # rs)) m"
proof -
  note f = connectionD(3,5) [OF m]
  note lm = length_others [OF f(2)] and l = length_others [OF w(1)]
  show ?thesis
  proof (cases ec)
    case None
    obtain m' where m': "callback i (Transferred None n) m = Inr m'"
        "connection m' (length (pending m) - 1) (ReadSome s) (ProcessRead s) ReadDone p (fresh (mem m))"
        "pending m' = others i (pending m) @ [(fresh (mem m), ReadSome s)]"
      using write_is_followed_by_read [OF m] by blast
    let ?w = "deliver j (Transferred None n) w"
    have w': "awaiting ?w = others j (awaiting w) @ [Operation (Processing s) (ReadSome s)]" by (rule deliver_write [OF w])
    have "st_trace (length (awaiting w) - 1) rs ?w = mt_trace (length (pending m) - 1) (before_failed_write False rs) m'"
      using IH [OF m'(2), of "length (awaiting w) - 1" ?w] w' l nth_others [OF w(1)] by simp
    then show ?thesis using f w m' w' l lm by (simp add: Let_def None)
  next
    case (Some e)
    have "awaiting (deliver j (Transferred (Some e) n) w) = others j (awaiting w)" by (rule deliver_write [OF w])
    then show ?thesis using f w l lm by (simp add: Let_def Some)
  qed
qed

lemma traces_agree:
  assumes "\<forall>r\<in>set rs. transferred r" "j < length (awaiting w)"
  shows "(connection m i (ReadSome s) (ProcessRead s) ReadDone p c \<and>
      awaiting w ! j = Operation (Processing s) (ReadSome s) \<longrightarrow>
      st_trace j rs w = mt_trace i (before_failed_write False rs) m) \<and>
    (connection m i (Write s response) (ProcessWrite s) WriteDone p c \<and>
      awaiting w ! j = Operation (Processing s) (Write s response) \<longrightarrow>
      st_trace j rs w = mt_trace i (before_failed_write True rs) m)"
  using assms
proof (induction rs arbitrary: m i c w j)
  case Nil
  then show ?case by (auto dest: connectionD(3))
next
  case (Cons r rs)
  then obtain ec n where r: "r = Transferred ec n" by (cases r) (auto simp: transferred_def)
  have tr: "\<forall>r\<in>set rs. transferred r" using Cons.prems by simp
  note read = trace_read_step [where i = i and j = j and w = w and m = m and s = s and p = p and c = c and rs = rs and ec = ec and n = n]
    and wr = trace_write_step [where i = i and j = j and w = w and m = m and s = s and p = p and c = c and rs = rs and ec = ec and n = n]
  show ?case
    unfolding r
  proof (intro conjI impI; elim conjE)
    assume "connection m i (ReadSome s) (ProcessRead s) ReadDone p c" "awaiting w ! j = Operation (Processing s) (ReadSome s)"
    then show "st_trace j (Transferred ec n # rs) w = mt_trace i (before_failed_write False (Transferred ec n # rs)) m"
      by (intro read Cons.prems(2)) (use Cons.IH [OF tr] in blast)+
  next
    assume "connection m i (Write s response) (ProcessWrite s) WriteDone p c"
      "awaiting w ! j = Operation (Processing s) (Write s response)"
    then show "st_trace j (Transferred ec n # rs) w = mt_trace i (before_failed_write True (Transferred ec n # rs)) m"
      by (intro wr Cons.prems(2)) (use Cons.IH [OF tr] in blast)+
  qed
qed

text \<open>The results with every failed write made to succeed: what a server gets that looks at no write's error.\<close>

fun ignore_failed_writes :: "bool \<Rightarrow> server_result list \<Rightarrow> server_result list" where
  "ignore_failed_writes writing [] = []"
| "ignore_failed_writes writing (Transferred (Some e) n # rs) =
     Transferred (if writing then None else Some e) n # ignore_failed_writes (\<not> writing) rs"
| "ignore_failed_writes writing (r # rs) = r # ignore_failed_writes (\<not> writing) rs"

lemma ignore_failed_writes_step:
  "ignore_failed_writes False (Transferred ec n # rs) = Transferred ec n # ignore_failed_writes True rs"
  "ignore_failed_writes True (Transferred ec n # rs) = Transferred None n # ignore_failed_writes False rs"
  by (cases ec; simp)+

lemma write_result_ignored:
  assumes "connection m i (Write s b) (ProcessWrite s) WriteDone p c"
  shows "callback i (Transferred ec n) m = callback i (Transferred None n) m"
  using connectionD [OF assms] by (simp add: server_defs)

lemma mt_ignores_failed_writes:
  assumes "\<forall>r\<in>set rs. transferred r"
  shows "(connection m i (ReadSome s) (ProcessRead s) ReadDone p c \<longrightarrow>
      mt_trace i rs m = mt_trace i (ignore_failed_writes False rs) m) \<and>
    (connection m i (Write s response) (ProcessWrite s) WriteDone p c \<longrightarrow>
      mt_trace i rs m = mt_trace i (ignore_failed_writes True rs) m)"
  using assms
proof (induction rs arbitrary: m i c)
  case Nil
  then show ?case by simp
next
  case (Cons r rs)
  then obtain ec n where r: "r = Transferred ec n" by (cases r) (auto simp: transferred_def)
  have tr: "\<forall>r\<in>set rs. transferred r" using Cons.prems by simp
  note IH = Cons.IH [OF tr]
  show ?case
    unfolding r ignore_failed_writes_step
  proof (intro conjI impI)
    assume m: "connection m i (ReadSome s) (ProcessRead s) ReadDone p c"
    show "mt_trace i (Transferred ec n # rs) m = mt_trace i (Transferred ec n # ignore_failed_writes True rs) m"
    proof (cases ec)
      case None
      obtain m' where m': "callback i (Transferred None n) m = Inr m'"
          "connection m' (length (pending m) - 1) (Write s response) (ProcessWrite s) WriteDone p (fresh (mem m))"
          "pending m' = others i (pending m) @ [(fresh (mem m), Write s response)]"
        using successful_read_is_answered [OF m] by blast
      have "length (pending m') - 1 = length (pending m) - 1"
        using m'(3) length_others [OF connectionD(5) [OF m]] by simp
      then show ?thesis using IH [of m' "length (pending m) - 1" "fresh (mem m)"] m'(1,2) by (simp add: None)
    next
      case (Some e)
      obtain m' where "callback i (Transferred (Some e) n) m = Inr m'" "pending m' = others i (pending m)"
        using failed_read_ends_connection [OF m] by blast
      then show ?thesis using length_others [OF connectionD(5) [OF m]] by (simp add: Some)
    qed
  next
    assume m: "connection m i (Write s response) (ProcessWrite s) WriteDone p c"
    obtain m' where m': "callback i (Transferred None n) m = Inr m'"
        "connection m' (length (pending m) - 1) (ReadSome s) (ProcessRead s) ReadDone p (fresh (mem m))"
        "pending m' = others i (pending m) @ [(fresh (mem m), ReadSome s)]"
      using write_is_followed_by_read [OF m] by blast
    have "length (pending m') - 1 = length (pending m) - 1"
      using m'(3) length_others [OF connectionD(5) [OF m]] by simp
    then show "mt_trace i (Transferred ec n # rs) m = mt_trace i (Transferred None n # ignore_failed_writes False rs) m"
      using IH [of m' "length (pending m) - 1" "fresh (mem m)"] m'(1,2) by (simp add: write_result_ignored [OF m, of ec])
  qed
qed

text \<open>
  C7: whatever results a connection gets, the single-threaded server asks for the same reads and writes
  as the multi-threaded one, up to the first write that fails: there it ends the connection. The
  multi-threaded server goes on as if every write that fails had succeeded.
\<close>

theorem servers_agree_until_failed_write:
  assumes "connection m i (ReadSome s) (ProcessRead s) ReadDone p c"
    and "j < length (awaiting w)" "awaiting w ! j = Operation (Processing s) (ReadSome s)"
    and "\<forall>r\<in>set rs. transferred r"
  shows "st_trace j rs w = mt_trace i (before_failed_write False rs) m \<and>
    mt_trace i rs m = mt_trace i (ignore_failed_writes False rs) m"
  using traces_agree [OF assms(4,2)] mt_ignores_failed_writes [OF assms(4)] assms(1,3) by blast

section \<open>The properties at a sample\<close>

definition sample_st :: st_server where
  "sample_st = \<lparr>awaiting = [Operation Listening (Accept 1), Operation (Processing 0) (ReadSome 0)],
     sockets_made = 1, sockets_closed = []\<rparr>"

lemma sample_bound: "tcp_server_st None = Inr listening_st"
  by (simp add: tcp_server_st_def)

lemma sample_st_reached: "st_reach listening_st sample_st"
proof -
  let ?peer = "Accepted None (Some (''10.0.0.7'', 4000))"
  have e: "sample_st = deliver 0 Void (deliver 0 ?peer (deliver 0 Void listening_st))"
    by (simp add: sample_st_def listening_st_def deliver_def st_defs others_def)
  show ?thesis unfolding e
    by (intro st_event st_here) (simp_all add: listening_st_def deliver_def st_defs others_def accepted_def)
qed

theorem sockets_served_or_closed_witness:
  "mset (served (awaiting sample_st)) + mset (sockets_closed sample_st) = mset [0]"
  using sockets_served_or_closed [OF sample_bound sample_st_reached] by (simp add: sample_st_def)

theorem failed_accept_ends_program_witness:
  "awaiting (deliver 0 (Transferred (Some ''End of file'') 0)
      (deliver 0 (Accepted (Some ''Too many open files'') None) sample_st)) = []"
proof -
  let ?w = "deliver 0 (Accepted (Some ''Too many open files'') None) sample_st"
  have w: "?w = \<lparr>awaiting = [Operation (Processing 0) (ReadSome 0)], sockets_made = 1, sockets_closed = []\<rparr>"
    by (simp add: sample_st_def deliver_def st_defs others_def)
  have "st_reach ?w (deliver 0 (Transferred (Some ''End of file'') 0) ?w)"
    by (intro st_event st_here) (simp_all add: w transferred_def)
  from failed_accept_ends_program [OF sample_bound sample_st_reached _ _ _ this, of 1]
  show ?thesis by (auto simp: w sample_st_def) (auto simp: deliver_def st_defs others_def)
qed

theorem servers_agree_until_failed_write_witness:
  "st_trace 1 [Transferred None 5, Transferred (Some ''Broken pipe'') 0, Transferred None 5] sample_st = [ReadSome 0, Write 0 response] \<and>
   mt_trace 0 [Transferred None 5, Transferred (Some ''Broken pipe'') 0, Transferred None 5]
     (sample_machine (ReadSome 0) (ProcessRead 0) ReadDone) = [ReadSome 0, Write 0 response, ReadSome 0, Write 0 response]"
proof -
  let ?failed = "[Transferred None 5, Transferred (Some ''Broken pipe'') 0, Transferred None 5]"
  let ?written = "[Transferred None 5, Transferred None 0, Transferred None 5]"
  have st: "st_trace 1 ?failed sample_st = [ReadSome 0, Write 0 response]"
    "st_trace 1 ?written sample_st = [ReadSome 0, Write 0 response, ReadSome 0, Write 0 response]"
    by (simp_all add: sample_st_def deliver_def st_defs others_def)
  let ?m = "sample_machine (ReadSome 0) (ProcessRead 0) ReadDone"
  have at: "1 < length (awaiting sample_st)" "awaiting sample_st ! 1 = Operation (Processing 0) (ReadSome 0)"
    by (simp_all add: sample_st_def)
  have tr: "\<forall>r\<in>set ?failed. transferred r" "\<forall>r\<in>set ?written. transferred r" by (simp_all add: transferred_def)
  have rs: "ignore_failed_writes False ?failed = ?written" "before_failed_write False ?written = ?written" by simp_all
  have "mt_trace 0 ?failed ?m = mt_trace 0 ?written ?m"
    using conjunct2 [OF servers_agree_until_failed_write [OF sample_connection at tr(1)]] unfolding rs .
  also have "\<dots> = st_trace 1 ?written sample_st"
    using conjunct1 [OF servers_agree_until_failed_write [OF sample_connection at tr(2)]] unfolding rs by (rule sym)
  finally show ?thesis using st by (simp only: simp_thms)
qed

end
