(* ===== verification/Rlimit.thy ===== *)
theory Rlimit
  imports Prelude
begin

text \<open>
  \<open>asio/benchmark/resource_limit.hpp\<close>: raising the limit on open files and restoring it. The two
  system calls are arguments: \<open>getrlimit\<close> returns \<open>None\<close> on failure, \<open>setrlimit\<close> whether it
  succeeded. The messages passed to \<open>LOG_ERROR\<close> are kept in order in the state.
\<close>

section \<open>The two functions\<close>

text \<open>\<open>rlim_t\<close> is a 64-bit unsigned integer, and \<open>RLIM_INFINITY\<close> its largest value.\<close>

record rlimit =
  rlim_cur :: "64 word"
  rlim_max :: "64 word"

definition RLIM_INFINITY :: "64 word" where
  "RLIM_INFINITY = - 1"

record 'w os =
  getrlimit :: "'w \<Rightarrow> rlimit option"
  setrlimit :: "rlimit \<Rightarrow> 'w \<Rightarrow> bool \<times> 'w"

text \<open>The static variable of the header, which starts as zeros, the kernel's state and the log.\<close>

record 'w proc =
  initial_fd_limit :: rlimit
  kernel :: 'w
  errors :: "string list"

definition proc_init :: "'w \<Rightarrow> 'w proc" where
  "proc_init w = \<lparr>initial_fd_limit = \<lparr>rlim_cur = 0, rlim_max = 0\<rparr>, kernel = w, errors = []\<rparr>"

definition log_error :: "string \<Rightarrow> 'w proc \<Rightarrow> 'w proc" where
  "log_error m s = s\<lparr>errors := errors s @ [m]\<rparr>"

definition call_setrlimit :: "'w os \<Rightarrow> rlimit \<Rightarrow> 'w proc \<Rightarrow> 'w proc" where
  "call_setrlimit os l s =
     (case setrlimit os l (kernel s) of (ok, w) \<Rightarrow>
        (if ok then s\<lparr>kernel := w\<rparr>
         else log_error ''Failed to set file descriptor limit'' (s\<lparr>kernel := w\<rparr>)))"

text \<open>The limit that \<open>raise_resource_limits\<close> computes from the one it read.\<close>

definition new_limit :: "rlimit \<Rightarrow> rlimit" where
  "new_limit initial =
     (let l = initial\<lparr>rlim_cur := max (rlim_cur initial) 65536\<rparr>
      in if rlim_max l \<noteq> RLIM_INFINITY then l\<lparr>rlim_cur := min (rlim_cur l) (rlim_max l)\<rparr> else l)"

definition raise_resource_limits :: "'w os \<Rightarrow> 'w proc \<Rightarrow> 'w proc" where
  "raise_resource_limits os s =
     (let s1 = (case getrlimit os (kernel s) of
                  None \<Rightarrow> log_error ''Failed to get file descriptor limit'' s
                | Some l \<Rightarrow> s\<lparr>initial_fd_limit := l\<rparr>);
          l = new_limit (initial_fd_limit s1)
      in if rlim_cur l \<noteq> rlim_cur (initial_fd_limit s1) then call_setrlimit os l s1 else s1)"

definition restore_resource_limits :: "'w os \<Rightarrow> 'w proc \<Rightarrow> 'w proc" where
  "restore_resource_limits os s =
     (if rlim_cur (initial_fd_limit s) = 0 \<and> rlim_max (initial_fd_limit s) = 0 then s
      else call_setrlimit os (initial_fd_limit s) s)"

section \<open>The limit asked for\<close>

lemma new_limit_between:
  "rlim_max (new_limit l) = rlim_max l \<and>
   rlim_cur (new_limit l) = min (max (rlim_cur l) 65536) (rlim_max l) \<and>
   (rlim_cur l \<le> rlim_max l \<longrightarrow> rlim_cur l \<le> rlim_cur (new_limit l)) \<and>
   rlim_cur (new_limit l) \<le> rlim_max l"
proof -
  have "x \<le> RLIM_INFINITY" for x by (simp add: RLIM_INFINITY_def)
  then show ?thesis by (auto simp: new_limit_def Let_def min_def max_def)
qed

text \<open>Whatever the limit read, the hard limit is left alone, the soft limit asked for is the
  larger of the old one and 65536, capped by the hard limit; the special case for an infinite hard
  limit changes nothing. A soft limit within the hard one is never lowered and stays within it.\<close>

theorem new_limit_bounds:
  "rlim_max (new_limit l) = rlim_max l \<and>
   rlim_cur (new_limit l) = min (max (rlim_cur l) 65536) (rlim_max l) \<and>
   (rlim_cur l \<le> rlim_max l \<longrightarrow> rlim_cur l \<le> rlim_cur (new_limit l)) \<and>
   rlim_cur (new_limit l) \<le> rlim_max l"
  by (rule new_limit_between)

theorem new_limit_bounds_witness:
  "rlim_cur (new_limit \<lparr>rlim_cur = 1024, rlim_max = 4096\<rparr>) = 4096 \<and>
   1024 \<le> rlim_cur (new_limit \<lparr>rlim_cur = 1024, rlim_max = 4096\<rparr>)"
  using new_limit_bounds [of "\<lparr>rlim_cur = 1024, rlim_max = 4096\<rparr>"] by simp

lemma new_limit_idem: "new_limit (new_limit l) = new_limit l"
  using new_limit_between [of l] new_limit_between [of "new_limit l"]
  by (cases "new_limit (new_limit l)"; cases "new_limit l") (auto simp: min_def max_def split: if_splits)

section \<open>Raising and restoring\<close>

text \<open>
  What the manual page of \<open>setrlimit\<close> says: when it succeeds the new limit is the one read
  afterwards; when it fails nothing changes; and an unprivileged process may set any soft limit
  up to the hard limit, keeping the latter.
\<close>

definition kernel_laws :: "'w os \<Rightarrow> bool" where
  "kernel_laws os \<longleftrightarrow>
     (\<forall>l w w'. setrlimit os l w = (True, w') \<longrightarrow> getrlimit os w' = Some l) \<and>
     (\<forall>l w w'. setrlimit os l w = (False, w') \<longrightarrow> w' = w) \<and>
     (\<forall>l m w. getrlimit os w = Some m \<and> rlim_max l = rlim_max m \<and> rlim_cur l \<le> rlim_max l \<longrightarrow>
        fst (setrlimit os l w))"

definition soft_within_hard :: "rlimit \<Rightarrow> bool" where
  "soft_within_hard l \<longleftrightarrow> rlim_cur l \<le> rlim_max l"

lemma call_setrlimit_ok:
  assumes "kernel_laws os" "getrlimit os (kernel s) = Some m" "rlim_max l = rlim_max m"
    "soft_within_hard l"
  shows "\<exists>w. call_setrlimit os l s = s\<lparr>kernel := w\<rparr> \<and> getrlimit os w = Some l"
proof -
  obtain ok w where w: "setrlimit os l (kernel s) = (ok, w)" by (cases "setrlimit os l (kernel s)")
  have "fst (setrlimit os l (kernel s))"
    using assms unfolding kernel_laws_def soft_within_hard_def by blast
  then have ok: "ok" by (simp add: w)
  then have "setrlimit os l (kernel s) = (True, w)" using w by simp
  then have "getrlimit os w = Some l"
    using assms(1) unfolding kernel_laws_def by blast
  then show ?thesis using ok by (intro exI [of _ w]) (simp add: call_setrlimit_def w)
qed

lemma raise_result:
  assumes "kernel_laws os" "getrlimit os (kernel s) = Some l" "soft_within_hard l"
  shows "\<exists>w. raise_resource_limits os s = s\<lparr>initial_fd_limit := l, kernel := w\<rparr> \<and>
    getrlimit os w = Some (new_limit l)"
proof (cases "rlim_cur (new_limit l) = rlim_cur l")
  case True
  then have "new_limit l = l"
    using new_limit_between [of l] by (cases l; cases "new_limit l") simp
  then show ?thesis
    using assms by (intro exI [of _ "kernel s"]) (simp add: raise_resource_limits_def)
next
  case False
  let ?s = "s\<lparr>initial_fd_limit := l\<rparr>"
  obtain w where "call_setrlimit os (new_limit l) ?s = ?s\<lparr>kernel := w\<rparr>" "getrlimit os w = Some (new_limit l)"
    using call_setrlimit_ok [of os ?s l "new_limit l"] assms new_limit_between [of l]
    by (auto simp: soft_within_hard_def)
  then show ?thesis using assms False by (auto simp: raise_resource_limits_def Let_def)
qed

text \<open>C27: with a kernel that behaves as documented, raising brings the limit read to the computed
  one without an error message, and restoring afterwards brings back the limit there was before.\<close>

theorem raise_then_restore:
  assumes "kernel_laws os" "getrlimit os w = Some l" "soft_within_hard l" "rlim_max l \<noteq> 0"
  shows "getrlimit os (kernel (raise_resource_limits os (proc_init w))) = Some (new_limit l) \<and>
    getrlimit os (kernel (restore_resource_limits os (raise_resource_limits os (proc_init w)))) = Some l \<and>
    errors (restore_resource_limits os (raise_resource_limits os (proc_init w))) = []"
proof -
  obtain w1 where r: "raise_resource_limits os (proc_init w) = (proc_init w)\<lparr>initial_fd_limit := l, kernel := w1\<rparr>"
      "getrlimit os w1 = Some (new_limit l)"
    using raise_result [of os "proc_init w" l] assms by (auto simp: proc_init_def)
  let ?s = "(proc_init w)\<lparr>initial_fd_limit := l, kernel := w1\<rparr>"
  obtain w2 where "call_setrlimit os l ?s = ?s\<lparr>kernel := w2\<rparr>" "getrlimit os w2 = Some l"
    using call_setrlimit_ok [of os ?s "new_limit l" l] assms r(2) new_limit_between [of l] by auto
  then show ?thesis
    using assms(4) r(2) unfolding r(1) restore_resource_limits_def by (simp add: proc_init_def)
qed

text \<open>A kernel that keeps one limit and refuses to exceed the hard limit.\<close>

definition sample_os :: "rlimit os" where
  "sample_os = \<lparr>getrlimit = Some,
     setrlimit = (\<lambda>l w. if rlim_cur l \<le> rlim_max l \<and> rlim_max l \<le> rlim_max w then (True, l) else (False, w))\<rparr>"

lemma sample_os_laws: "kernel_laws sample_os"
  by (auto simp: kernel_laws_def sample_os_def)

theorem raise_then_restore_witness:
  "getrlimit sample_os (kernel (restore_resource_limits sample_os
     (raise_resource_limits sample_os (proc_init \<lparr>rlim_cur = 1024, rlim_max = 1048576\<rparr>)))) =
   Some \<lparr>rlim_cur = 1024, rlim_max = 1048576\<rparr>"
  using raise_then_restore [OF sample_os_laws, of "\<lparr>rlim_cur = 1024, rlim_max = 1048576\<rparr>"
      "\<lparr>rlim_cur = 1024, rlim_max = 1048576\<rparr>"]
  by (simp add: soft_within_hard_def) (simp add: sample_os_def)

text \<open>When the limit cannot be read, the first call sets nothing (the zeros it starts from are
  capped at 0), says so once, and restoring does nothing.\<close>

theorem unreadable_limit_sets_nothing:
  assumes "getrlimit os w = None"
  shows "raise_resource_limits os (proc_init w) =
      (proc_init w)\<lparr>errors := [''Failed to get file descriptor limit'']\<rparr> \<and>
    restore_resource_limits os (raise_resource_limits os (proc_init w)) =
      raise_resource_limits os (proc_init w)"
  using assms
  by (simp add: raise_resource_limits_def restore_resource_limits_def proc_init_def log_error_def
      new_limit_def RLIM_INFINITY_def)

theorem unreadable_limit_sets_nothing_witness:
  "raise_resource_limits \<lparr>getrlimit = (\<lambda>w. None), setrlimit = (\<lambda>l w. (True, w + 1))\<rparr> (proc_init (0 :: nat)) =
     (proc_init 0)\<lparr>errors := [''Failed to get file descriptor limit'']\<rparr>"
  using unreadable_limit_sets_nothing [of "\<lparr>getrlimit = (\<lambda>w. None), setrlimit = (\<lambda>l w. (True, w + 1))\<rparr>" "0 :: nat"]
  by simp

text \<open>Raising twice forgets the original limit: the second call records the raised one.\<close>

lemma raise_twice_forgets:
  assumes "kernel_laws os" "getrlimit os w = Some l" "soft_within_hard l"
  shows "initial_fd_limit (raise_resource_limits os (raise_resource_limits os (proc_init w))) = new_limit l"
proof -
  obtain w1 where r: "raise_resource_limits os (proc_init w) = (proc_init w)\<lparr>initial_fd_limit := l, kernel := w1\<rparr>"
      "getrlimit os w1 = Some (new_limit l)"
    using raise_result [of os "proc_init w" l] assms by (auto simp: proc_init_def)
  have "soft_within_hard (new_limit l)"
    using new_limit_between [of l] by (simp add: soft_within_hard_def)
  then show ?thesis
    using raise_result [of os "(proc_init w)\<lparr>initial_fd_limit := l, kernel := w1\<rparr>" "new_limit l"] assms(1) r
    by auto
qed

end
