(* ===== verification/Bench_Main.thy ===== *)
theory Bench_Main
  imports Bench_Server Rlimit
begin

text \<open>
  \<open>main\<close> of \<open>asio/benchmark/benchmark_mt.cpp\<close>: the argument, the resource limits, the pool and the
  server, composed from theories \<open>Rlimit\<close>, \<open>Logging\<close>, \<open>Context_Pool\<close> and \<open>Bench_Server\<close>.
\<close>

section \<open>std::stoul\<close>

text \<open>
  In base 10, with \<open>unsigned long\<close> of 64 bits: white space and a sign may come before the digits, text may
  follow them, and a minus sign negates the result modulo 2 to the 64.
\<close>

definition is_space :: "char \<Rightarrow> bool" where
  "is_space c \<longleftrightarrow> c \<in> {CHR '' '', CHR 0x09, CHR 0x0A, CHR 0x0B, CHR 0x0C, CHR 0x0D}"

datatype stoul_exception = invalid_argument | out_of_range

definition stoul_digits :: "string \<Rightarrow> stoul_exception + 64 word" where
  "stoul_digits s =
     (let ds = takeWhile is_digit s in
      if ds = [] then Inl invalid_argument
      else if 2 ^ 64 \<le> nat_of_dec ds then Inl out_of_range
      else Inr (of_nat (nat_of_dec ds)))"

definition stoul :: "string \<Rightarrow> stoul_exception + 64 word" where
  "stoul str =
     (case dropWhile is_space str of
        [] \<Rightarrow> Inl invalid_argument
      | c # s \<Rightarrow>
          if c = CHR ''-'' then (case stoul_digits s of Inl e \<Rightarrow> Inl e | Inr n \<Rightarrow> Inr (- n))
          else if c = CHR ''+'' then stoul_digits s
          else stoul_digits (c # s))"

lemma digit_no_space: "is_digit c \<Longrightarrow> \<not> is_space c \<and> c \<noteq> CHR ''-'' \<and> c \<noteq> CHR ''+''"
  by (auto simp: is_digit_def is_space_def)

lemma stoul_number:
  assumes "n < 2 ^ 64" "r = [] \<or> \<not> is_digit (hd r)"
  shows "stoul (dec_nat n @ r) = Inr (of_nat n)"
proof -
  obtain c t where c: "dec_nat n = c # t" by (cases "dec_nat n") (metis Nil_is_append_conv dec_nat.simps not_Cons_self2)
  have d: "is_digit c" using dec_nat_digits [of c n] c by simp
  have t: "takeWhile is_digit (dec_nat n @ r) = dec_nat n"
    using assms(2) dec_nat_digits [of _ n] by (cases r) (auto simp: takeWhile_append2)
  have "stoul (dec_nat n @ r) = stoul_digits (dec_nat n @ r)"
    using digit_no_space [OF d] by (simp add: stoul_def c)
  also have "\<dots> = Inr (of_nat n)" using assms(1) t c nat_of_dec_dec_nat [of n] by (simp add: stoul_digits_def Let_def)
  finally show ?thesis .
qed

section \<open>main\<close>

text \<open>
  What \<open>main\<close> comes to: a return with what it printed, an uncaught exception of \<open>stoul\<close> or of the acceptor that cannot have the port,
  undefined behaviour, a pool that is never complete, or a server whose event loops run, with the limits and the logger as they
  then are.
\<close>

datatype ('c, 'k) outcome = Returned int string | Uncaught stoul_exception | Port_taken string
  | Undefined_access hazard | Never_ready | Serving "'c server_machine" "'k proc" log_world

definition main_bench ::
  "'k os \<Rightarrow> bool \<Rightarrow> ('c, 'w) asio_api \<Rightarrow> string option \<Rightarrow> string \<Rightarrow> string list \<Rightarrow> 'k \<Rightarrow> log_world \<Rightarrow> 'w \<Rightarrow> ('c, 'k) outcome"
where
  "main_bench os ndebug a bound address argv k lw w =
     (if length argv \<noteq> 2 then Returned (- 1) (''Usage: '' @ concat (take 1 argv) @ '' ${num_threads}'' @ [CHR 0x0A])
      else
       (let s = raise_resource_limits os (proc_init k);
            lw = SET_LOG_LEVEL ndebug WARN lw
        in case stoul (argv ! 1) of
             Inl e \<Rightarrow> Uncaught e
           | Inr num_threads \<Rightarrow>
              (case main_mt a bound address num_threads w of
                 None \<Rightarrow> Never_ready
               | Some (Inl (Hazard e)) \<Rightarrow> Undefined_access e
               | Some (Inl (Not_bound what)) \<Rightarrow> Port_taken what
               | Some (Inr m) \<Rightarrow> Serving m s lw)))"

text \<open>After \<open>pool.run()\<close>, if it ever returns.\<close>

definition main_after_run :: "'k os \<Rightarrow> 'k proc \<Rightarrow> 'k proc" where
  "main_after_run os s = restore_resource_limits os s"

lemma main_mt_cases:
  "case main_mt a bound address n w of
     None \<Rightarrow> 2 ^ 32 \<le> unat n
   | Some (Inl (Hazard e)) \<Rightarrow> n = 0 \<and> e = undefined_access
   | Some (Inl (Not_bound what)) \<Rightarrow> 0 < unat n \<and> unat n < 2 ^ 32 \<and> bound = Some what
   | Some (Inr m) \<Rightarrow> 0 < unat n \<and> unat n < 2 ^ 32 \<and> bound = None \<and> (\<exists>p w'. IOContextPool a n w = Some (p, w') \<and>
       acceptor_context (world m) = io_contexts p ! 0)"
proof (cases "IOContextPool a n w")
  case None
  then show ?thesis using IOContextPool_result [where a = a and n = n and w = w] by (simp add: main_mt_def)
next
  case (Some q)
  obtain p w' where q: "q = (p, w')" by (cases q)
  have p: "unat n < 2 ^ 32" "length (io_contexts p) = unat n" "next_io_context p = 0" "pool_inv p"
    using IOContextPool_result [where a = a and n = n and w = w] Some q by simp_all
  show ?thesis
  proof (cases "io_contexts p = []")
    case True
    then have "n = 0" using p(2) by (metis length_0_conv unat_eq_0)
    then show ?thesis using no_threads_no_server [of a bound address w] by simp
  next
    case False
    then have n: "0 < unat n" using p(2) by (metis length_greater_0_conv)
    show ?thesis
    proof (cases bound)
      case None
      obtain m where m: "tcp_server None address 8000 p = Inr m" "bench.client_inv (io_contexts p) m"
        using tcp_server_starts [OF p(4) False p(3), of address 8000] by auto
      have "acceptor_context (world m) = io_contexts p ! 0"
        using m(2) by (simp add: bench.client_inv_def server_good_def)
      then show ?thesis using Some q p m(1) n None by (simp add: main_mt_def)
    next
      case (Some what)
      obtain ctx p' where "get_io_context p = Some (ctx, p')" using get_io_context_step [OF p(4) False] by auto
      then show ?thesis using \<open>IOContextPool a n w = Some q\<close> q p(1) n Some by (simp add: main_mt_def tcp_server_def)
    qed
  qed
qed

text \<open>
  C15: started with a number below 2 to the 64 as its only argument, on a free port the program serves exactly if the number is at least 1
  and below 2 to the 32, with the limits raised first; with 0 it reads out of range, with 2 to the 32 or
  more the pool is never complete. When the port cannot be had, the numbers that would have been served end it with an
  exception that nothing catches.
\<close>

theorem number_of_threads_decides:
  assumes "n < 2 ^ 64"
  shows "case main_bench os ndebug a bound address [prog, dec_nat n] k lw w of
      Serving m s lw' \<Rightarrow> 0 < n \<and> n < 2 ^ 32 \<and> bound = None \<and> s = raise_resource_limits os (proc_init k) \<and>
        lw' = SET_LOG_LEVEL ndebug WARN lw \<and> (\<exists>p w'. IOContextPool a (of_nat n) w = Some (p, w') \<and>
        acceptor_context (world m) = io_contexts p ! 0)
    | Port_taken what \<Rightarrow> 0 < n \<and> n < 2 ^ 32 \<and> bound = Some what
    | Undefined_access e \<Rightarrow> n = 0
    | Never_ready \<Rightarrow> 2 ^ 32 \<le> n
    | _ \<Rightarrow> False"
proof -
  have "stoul (dec_nat n) = Inr (of_nat n)" using stoul_number [OF assms, of "[]"] by simp
  moreover have "unat (of_nat n :: 64 word) = n" using assms by (simp add: unat_of_nat)
  ultimately show ?thesis
    using main_mt_cases [where a = a and bound = bound and address = address and n = "of_nat n" and w = w]
    by (auto simp: main_bench_def Let_def unat_eq_0 [symmetric] split: option.splits sum.splits start_failure.splits)
qed

text \<open>A negative number is taken for a huge one: with \<open>-1\<close> the program never serves.\<close>

lemma negative_number_never_serves:
  "main_bench os ndebug a bound address [prog, ''-1''] k lw w = Never_ready"
proof -
  have s: "stoul ''-1'' = Inr (- 1)"
    by (simp add: stoul_def is_space_def stoul_digits_def is_digit_def nat_of_dec_def digit_val_def)
  have "unat (- 1 :: 64 word) = 2 ^ 64 - 1" by (simp add: unat_minus_1)
  then have "main_mt a bound address (- 1) w = None"
    using main_mt_cases [where a = a and bound = bound and address = address and n = "- 1" and w = w]
    by (auto split: option.splits sum.splits start_failure.splits)
  then show ?thesis by (simp add: main_bench_def Let_def s)
qed

theorem number_of_threads_decides_witness:
  "(\<exists>m s lw'. main_bench sample_os True sample_asio None ''0.0.0.0'' [''benchmark_mt'', ''2''] \<lparr>rlim_cur = 1024, rlim_max = 4096\<rparr> world_init [] =
     Serving m s lw' \<and> s = raise_resource_limits sample_os (proc_init \<lparr>rlim_cur = 1024, rlim_max = 4096\<rparr>)) \<and>
   main_bench sample_os True sample_asio (Some ''bind: Address already in use'') ''0.0.0.0'' [''benchmark_mt'', ''2'']
     \<lparr>rlim_cur = 1024, rlim_max = 4096\<rparr> world_init [] = Port_taken ''bind: Address already in use''"
proof -
  note w = number_of_threads_decides [where n = 2 and os = sample_os and ndebug = True and a = sample_asio
      and address = "''0.0.0.0''" and prog = "''benchmark_mt''" and k = "\<lparr>rlim_cur = 1024, rlim_max = 4096\<rparr>"
      and lw = world_init and w = "[]"]
  show ?thesis
    using w [where bound = None] w [where bound = "Some ''bind: Address already in use''"]
    by (simp add: dec_nat.simps split: outcome.splits)
qed

end
