(* ===== verification/Flight.thy ===== *)
theory Flight
  imports Prelude
begin

text \<open>
  \<open>arrow/cookbook/flight.cc\<close>: the Flight service that keeps datasets as Parquet files, and the
  greeting service. Arrow's file system, Parquet and Flight are not in the repository: their calls
  are the fields of \<open>storage_api\<close>, over the state \<open>'fs\<close> of the service's root directory.
\<close>

section \<open>The calls to Arrow\<close>

record file_info =
  file_path :: string
  base_name :: string
  extension :: string
  is_file :: bool
  file_size :: nat

record ('fs, 'i, 'sink, 'reader, 'schema, 'table, 'batch, 'stream, 'loc, 'e) storage_api =
  list_files :: "string \<Rightarrow> 'fs \<Rightarrow> 'e + file_info list"
  file_info_of :: "string \<Rightarrow> 'fs \<Rightarrow> 'e + file_info"
  open_input :: "string \<Rightarrow> 'fs \<Rightarrow> 'e + 'i"
  open_output :: "string \<Rightarrow> 'fs \<Rightarrow> ('e + 'sink) \<times> 'fs"
  delete_file :: "string \<Rightarrow> 'fs \<Rightarrow> ('e + unit) \<times> 'fs"
  parquet_open :: "'i \<Rightarrow> 'e + 'reader"
  reader_schema :: "'reader \<Rightarrow> 'e + 'schema"
  reader_num_rows :: "'reader \<Rightarrow> nat"
  reader_table :: "'reader \<Rightarrow> 'e + 'table"
  parquet_write :: "'table \<Rightarrow> nat \<Rightarrow> 'sink \<Rightarrow> 'fs \<Rightarrow> ('e + unit) \<times> 'fs"
  stream_table :: "'stream \<Rightarrow> 'e + 'table"
  table_schema :: "'table \<Rightarrow> 'schema"
  table_batches :: "'table \<Rightarrow> 'e + 'batch list"
  batch_stream :: "'batch list \<Rightarrow> 'schema \<Rightarrow> 'e + 'stream"
  grpc_location :: "string \<Rightarrow> nat \<Rightarrow> 'e + 'loc"
  server_port :: nat

text \<open>The statuses the service returns: those of Arrow, passed on, and its own.\<close>

datatype 'e status = Failed 'e | Invalid string | NotImplemented string

datatype descriptor_type = UNKNOWN | PATH | CMD

record flight_descriptor =
  desc_type :: descriptor_type
  path :: "string list"

record ('schema, 'loc) flight_info =
  info_schema :: 'schema
  info_descriptor :: flight_descriptor
  ticket :: string
  locations :: "'loc list"
  total_records :: nat
  total_bytes :: nat

record action_request =
  action_type :: string
  action_body :: string

type_synonym ('fs, 'e, 'x) service = "('fs, 'e status, 'x) action"

section \<open>ParquetStorageService\<close>

definition ok :: "'e + 'x \<Rightarrow> ('fs, 'e, 'x) service" where
  "ok r = (case r of Inl e \<Rightarrow> raise (Failed e) | Inr x \<Rightarrow> ret x)"

definition root :: "('fs \<Rightarrow> ('e + 'x) \<times> 'fs) \<Rightarrow> ('fs, 'e, 'x) service" where
  "root f fs = (case f fs of (r, fs') \<Rightarrow> ok r fs')"

definition kActionDropDataset :: "string \<times> string" where
  "kActionDropDataset = (''drop_dataset'', ''Delete a dataset.'')"

definition Path :: "string list \<Rightarrow> flight_descriptor" where
  "Path p = \<lparr>desc_type = PATH, path = p\<rparr>"

definition FileInfoFromDescriptor ::
  "('fs, 'i, 'sink, 'reader, 'schema, 'table, 'batch, 'stream, 'loc, 'e) storage_api \<Rightarrow> flight_descriptor \<Rightarrow>
   ('fs, 'e, file_info) service" where
  "FileInfoFromDescriptor S d =
     (if desc_type d \<noteq> PATH then raise (Invalid ''Must provide PATH-type FlightDescriptor'')
      else if length (path d) \<noteq> 1 then
        raise (Invalid ''Must provide PATH-type FlightDescriptor with one path component'')
      else seq (gets (file_info_of S (path d ! 0))) ok)"

definition MakeFlightInfo ::
  "('fs, 'i, 'sink, 'reader, 'schema, 'table, 'batch, 'stream, 'loc, 'e) storage_api \<Rightarrow> file_info \<Rightarrow>
   ('fs, 'e, ('schema, 'loc) flight_info) service" where
  "MakeFlightInfo S file_info =
     seq (seq (gets (open_input S (file_path file_info))) ok) (\<lambda>input.
     seq (ok (parquet_open S input)) (\<lambda>reader.
     seq (ok (reader_schema S reader)) (\<lambda>schema.
     seq (ok (grpc_location S ''localhost'' (server_port S))) (\<lambda>location.
     ret \<lparr>info_schema = schema, info_descriptor = Path [base_name file_info],
          ticket = base_name file_info, locations = [location],
          total_records = reader_num_rows S reader, total_bytes = file_size file_info\<rparr>))))"

fun list_loop ::
  "('fs, 'i, 'sink, 'reader, 'schema, 'table, 'batch, 'stream, 'loc, 'e) storage_api \<Rightarrow> file_info list \<Rightarrow>
   ('schema, 'loc) flight_info list \<Rightarrow> ('fs, 'e, ('schema, 'loc) flight_info list) service" where
  "list_loop S [] flights = ret flights"
| "list_loop S (file_info # listing) flights =
     (if \<not> is_file file_info \<or> extension file_info \<noteq> ''parquet'' then list_loop S listing flights
      else seq (MakeFlightInfo S file_info) (\<lambda>info. list_loop S listing (flights @ [info])))"

definition ListFlights ::
  "('fs, 'i, 'sink, 'reader, 'schema, 'table, 'batch, 'stream, 'loc, 'e) storage_api \<Rightarrow>
   ('fs, 'e, ('schema, 'loc) flight_info list) service" where
  "ListFlights S = seq (seq (gets (list_files S ''/'')) ok) (\<lambda>listing. list_loop S listing [])"

definition GetFlightInfo ::
  "('fs, 'i, 'sink, 'reader, 'schema, 'table, 'batch, 'stream, 'loc, 'e) storage_api \<Rightarrow> flight_descriptor \<Rightarrow>
   ('fs, 'e, ('schema, 'loc) flight_info) service" where
  "GetFlightInfo S d = seq (FileInfoFromDescriptor S d) (\<lambda>file_info. MakeFlightInfo S file_info)"

text \<open>The upload is read (\<open>ToTable\<close>) only after the output file has been opened.\<close>

definition DoPut ::
  "('fs, 'i, 'sink, 'reader, 'schema, 'table, 'batch, 'stream, 'loc, 'e) storage_api \<Rightarrow> flight_descriptor \<Rightarrow>
   'stream \<Rightarrow> ('fs, 'e, unit) service" where
  "DoPut S d reader =
     seq (FileInfoFromDescriptor S d) (\<lambda>file_info.
     seq (root (open_output S (file_path file_info))) (\<lambda>sink.
     seq (ok (stream_table S reader)) (\<lambda>table.
     root (parquet_write S table 65536 sink))))"

definition DoGet ::
  "('fs, 'i, 'sink, 'reader, 'schema, 'table, 'batch, 'stream, 'loc, 'e) storage_api \<Rightarrow> string \<Rightarrow>
   ('fs, 'e, 'stream) service" where
  "DoGet S request_ticket =
     seq (seq (gets (open_input S request_ticket)) ok) (\<lambda>input.
     seq (ok (parquet_open S input)) (\<lambda>reader.
     seq (ok (reader_table S reader)) (\<lambda>table.
     seq (ok (table_batches S table)) (\<lambda>batches.
     ok (batch_stream S batches (table_schema S table))))))"

definition ListActions :: "(string \<times> string) list" where
  "ListActions = [kActionDropDataset]"

definition DoActionDropDataset ::
  "('fs, 'i, 'sink, 'reader, 'schema, 'table, 'batch, 'stream, 'loc, 'e) storage_api \<Rightarrow> string \<Rightarrow>
   ('fs, 'e, unit) service" where
  "DoActionDropDataset S key = root (delete_file S key)"

definition DoAction ::
  "('fs, 'i, 'sink, 'reader, 'schema, 'table, 'batch, 'stream, 'loc, 'e) storage_api \<Rightarrow> action_request \<Rightarrow>
   ('fs, 'e, unit) service" where
  "DoAction S action =
     (if action_type action = fst kActionDropDataset then DoActionDropDataset S (action_body action)
      else raise (NotImplemented (''Unknown action type: '' @ action_type action)))"

section \<open>HelloWorldServiceImpl\<close>

datatype grpc_status = OK | INVALID_ARGUMENT string

definition SayHello :: "string \<Rightarrow> string \<Rightarrow> grpc_status \<times> string" where
  "SayHello name reply =
     (if name = [] then (INVALID_ARGUMENT ''Must provide a name!'', reply) else (OK, ''Hello, '' @ name))"

section \<open>Requests that change nothing\<close>

lemma ok_run [simp]: "ok (Inr x) fs = (Inr x, fs)" "ok (Inl e) fs = (Inl (Failed e), fs)"
  by (simp_all add: ok_def)

lemma snd_ok [simp]: "snd (ok r fs) = fs"
  by (cases r) simp_all

lemma snd_seq:
  assumes "snd (m fs) = fs" "\<And>x. snd (k x fs) = fs"
  shows "snd (seq m k fs) = fs"
  using assms by (cases "m fs" rule: prod.exhaust) (auto simp: seq_def split: sum.splits)

lemma snd_gets_ok [simp]: "snd (seq (gets g) ok fs) = fs"
  by (rule snd_seq) simp_all

lemma FileInfo_reads: "snd (FileInfoFromDescriptor S d fs) = fs"
  by (simp add: FileInfoFromDescriptor_def)

lemma MakeFlightInfo_reads: "snd (MakeFlightInfo S f fs) = fs"
  unfolding MakeFlightInfo_def by (intro snd_seq) simp_all

lemma list_loop_reads: "snd (list_loop S fis flights fs) = fs"
  by (induction fis arbitrary: flights) (simp_all add: snd_seq MakeFlightInfo_reads)

lemma ListFlights_reads: "snd (ListFlights S fs) = fs"
  unfolding ListFlights_def by (rule snd_seq) (simp_all add: list_loop_reads)

lemma GetFlightInfo_reads: "snd (GetFlightInfo S d fs) = fs"
  unfolding GetFlightInfo_def by (rule snd_seq) (simp_all add: FileInfo_reads MakeFlightInfo_reads)

lemma DoGet_reads: "snd (DoGet S t fs) = fs"
  unfolding DoGet_def by (intro snd_seq) simp_all

section \<open>Listing\<close>

definition is_dataset :: "file_info \<Rightarrow> bool" where
  "is_dataset f \<longleftrightarrow> is_file f \<and> extension f = ''parquet''"

lemma list_loop_ok:
  assumes "list_all2 (\<lambda>f i. MakeFlightInfo S f fs = (Inr i, fs)) (filter is_dataset fis) infos"
  shows "list_loop S fis flights fs = (Inr (flights @ infos), fs)"
  using assms
proof (induction fis arbitrary: flights infos)
  case Nil
  then show ?case by simp
next
  case (Cons f fis)
  show ?case
  proof (cases "is_dataset f")
    case True
    then obtain i is' where i: "infos = i # is'" "MakeFlightInfo S f fs = (Inr i, fs)"
        "list_all2 (\<lambda>f i. MakeFlightInfo S f fs = (Inr i, fs)) (filter is_dataset fis) is'"
      using Cons.prems by (auto simp: list_all2_Cons1)
    then show ?thesis using Cons.IH [OF i(3)] True by (simp add: is_dataset_def)
  next
    case False
    then show ?thesis using Cons.IH [of infos flights] Cons.prems by (auto simp: is_dataset_def)
  qed
qed

lemma list_loop_fails:
  assumes "f \<in> set (filter is_dataset fis)" "MakeFlightInfo S f fs = (Inl e, fs)"
  shows "\<exists>e'. list_loop S fis flights fs = (Inl e', fs)"
  using assms(1)
proof (induction fis arbitrary: flights)
  case Nil
  then show ?case by simp
next
  case (Cons g fis)
  show ?case
  proof (cases "is_dataset g")
    case True
    note g = this
    obtain r where r: "MakeFlightInfo S g fs = (r, fs)"
      using MakeFlightInfo_reads [of S g fs] by (cases "MakeFlightInfo S g fs") simp
    show ?thesis
    proof (cases r)
      case (Inl e')
      then show ?thesis using r g by (simp add: is_dataset_def)
    next
      case (Inr i)
      then have "f \<in> set (filter is_dataset fis)"
        using Cons.prems assms(2) r by (auto split: if_splits)
      then show ?thesis using Cons.IH [of "flights @ [i]"] r Inr g by (simp add: is_dataset_def)
    qed
  next
    case False
    then show ?thesis using Cons by (auto simp: is_dataset_def)
  qed
qed

text \<open>\<open>ListFlights\<close> lists exactly the Parquet files of the root directory, one flight for each, in
  the directory's order, each described as \<open>GetFlightInfo\<close> would; it fails if it cannot describe one
  of them, and reads no other file.\<close>

theorem ListFlights_lists_datasets:
  assumes "list_files S ''/'' fs = Inr listing"
  shows "case ListFlights S fs of
      (Inr infos, fs') \<Rightarrow> fs' = fs \<and>
        list_all2 (\<lambda>f i. MakeFlightInfo S f fs = (Inr i, fs)) (filter is_dataset listing) infos
    | (Inl e, fs') \<Rightarrow> fs' = fs \<and> (\<exists>f e'. f \<in> set (filter is_dataset listing) \<and> MakeFlightInfo S f fs = (Inl e', fs))"
proof (cases "\<forall>f\<in>set (filter is_dataset listing). \<exists>i. MakeFlightInfo S f fs = (Inr i, fs)")
  case True
  then obtain info where "\<forall>f\<in>set (filter is_dataset listing). MakeFlightInfo S f fs = (Inr (info f), fs)"
    by metis
  then have a: "list_all2 (\<lambda>f i. MakeFlightInfo S f fs = (Inr i, fs)) (filter is_dataset listing)
      (map info (filter is_dataset listing))"
    unfolding list_all2_map2 by (auto intro: list.rel_refl_strong)
  then show ?thesis
    using list_loop_ok [OF a, of "[]"] assms by (simp add: ListFlights_def)
next
  case False
  then obtain f where f: "f \<in> set (filter is_dataset listing)" "\<And>i. MakeFlightInfo S f fs \<noteq> (Inr i, fs)"
    by blast
  obtain e where e: "MakeFlightInfo S f fs = (Inl e, fs)"
    using MakeFlightInfo_reads [of S f fs] f(2) by (cases "MakeFlightInfo S f fs"; cases "fst (MakeFlightInfo S f fs)") auto
  obtain e' where "ListFlights S fs = (Inl e', fs)"
    using list_loop_fails [OF f(1) e, of "[]"] assms by (auto simp: ListFlights_def)
  moreover have "\<exists>f e'. f \<in> set (filter is_dataset listing) \<and> MakeFlightInfo S f fs = (Inl e', fs)"
    using f(1) e by blast
  ultimately show ?thesis by simp
qed

section \<open>Uploads\<close>

text \<open>What the service relies on: the information about a path names that path, a Parquet file that
  was written reads back, and the batches of a table make a stream of that table.\<close>

definition storage_laws ::
  "('fs, 'i, 'sink, 'reader, 'schema, 'table, 'batch, 'stream, 'loc, 'e) storage_api \<Rightarrow> bool" where
  "storage_laws S \<longleftrightarrow>
     (\<forall>p fs f. file_info_of S p fs = Inr f \<longrightarrow> file_path f = p) \<and>
     (\<forall>p fs s fs1 t n fs2. open_output S p fs = (Inr s, fs1) \<and> parquet_write S t n s fs1 = (Inr (), fs2) \<longrightarrow>
        (\<exists>i r. open_input S p fs2 = Inr i \<and> parquet_open S i = Inr r \<and> reader_table S r = Inr t)) \<and>
     (\<forall>t bs s. table_batches S t = Inr bs \<and> batch_stream S bs (table_schema S t) = Inr s \<longrightarrow>
        stream_table S s = Inr t)"

lemma ok_InrD: "ok r fs = (Inr x, fs') \<Longrightarrow> r = Inr x \<and> fs' = fs"
  by (cases r) auto

lemma root_run: "f fs = (Inr x, fs') \<Longrightarrow> root f fs = (Inr x, fs')"
  by (simp add: root_def)

lemma root_InrD: "root f fs = (Inr x, fs') \<Longrightarrow> f fs = (Inr x, fs')"
  by (cases "f fs") (auto simp: root_def dest: ok_InrD)

lemma FileInfo_InrD:
  assumes "FileInfoFromDescriptor S d fs = (Inr f, fs')"
  shows "fs' = fs \<and> (\<exists>p. d = Path [p] \<and> file_info_of S p fs = Inr f)"
proof -
  have d: "desc_type d = PATH" "length (path d) = 1"
    using assms by (auto simp: FileInfoFromDescriptor_def split: if_splits)
  then obtain p where p: "path d = [p]" by (auto simp: length_Suc_conv)
  then have "d = Path [p]" using d(1) by (simp add: Path_def)
  then show ?thesis
    using assms d p by (auto simp: FileInfoFromDescriptor_def dest: ok_InrD)
qed

text \<open>What was put is what is got: after a successful \<open>DoPut\<close> under a path, every successful
  \<open>DoGet\<close> with that path as its ticket streams the uploaded table.\<close>

theorem put_then_get:
  assumes laws: "storage_laws S" and put: "DoPut S d upload fs = (Inr (), fs')"
  shows "\<exists>p t. d = Path [p] \<and> stream_table S upload = Inr t \<and>
    (\<forall>s fs''. DoGet S p fs' = (Inr s, fs'') \<longrightarrow> stream_table S s = Inr t \<and> fs'' = fs')"
proof -
  obtain f fs0 where f: "FileInfoFromDescriptor S d fs = (Inr f, fs0)"
    and p1: "seq (root (open_output S (file_path f))) (\<lambda>sink.
     seq (ok (stream_table S upload)) (\<lambda>table. root (parquet_write S table 65536 sink))) fs0 = (Inr (), fs')"
    using put unfolding DoPut_def by (rule seq_InrE)
  obtain p where p: "fs0 = fs" "d = Path [p]" "file_info_of S p fs = Inr f"
    using FileInfo_InrD [OF f] by blast
  have fp: "file_path f = p" using laws p(3) unfolding storage_laws_def by blast
  obtain sink fs1 where s: "root (open_output S p) fs = (Inr sink, fs1)"
    and p2: "seq (ok (stream_table S upload)) (\<lambda>table. root (parquet_write S table 65536 sink)) fs1 = (Inr (), fs')"
    using p1 unfolding p(1) fp by (rule seq_InrE)
  obtain t fs2 where t: "ok (stream_table S upload) fs1 = (Inr t, fs2)"
    and p3: "root (parquet_write S t 65536 sink) fs2 = (Inr (), fs')"
    using p2 by (rule seq_InrE)
  have t': "stream_table S upload = Inr t" "fs2 = fs1" using ok_InrD [OF t] by simp_all
  obtain i r where r: "open_input S p fs' = Inr i" "parquet_open S i = Inr r" "reader_table S r = Inr t"
    using laws root_InrD [OF s] root_InrD [OF p3] t'(2) unfolding storage_laws_def by blast
  have "stream_table S st = Inr t \<and> fs'' = fs'" if "DoGet S p fs' = (Inr st, fs'')" for st fs''
  proof -
    have "seq (ok (table_batches S t)) (\<lambda>bs. ok (batch_stream S bs (table_schema S t))) fs' = (Inr st, fs'')"
      using that r by (simp add: DoGet_def seq_assoc)
    then obtain bs fs3 where "ok (table_batches S t) fs' = (Inr bs, fs3)"
        "ok (batch_stream S bs (table_schema S t)) fs3 = (Inr st, fs'')"
      by (rule seq_InrE)
    then show ?thesis using laws unfolding storage_laws_def by (blast dest: ok_InrD)
  qed
  then show ?thesis using p(2) t'(1) by blast
qed

text \<open>C25: an upload that breaks off loses the dataset stored under its path before, since the file is
  opened for writing first: the request fails with the stream's error in the state after the
  truncation. And as long as the file is not a Parquet file any more, \<open>ListFlights\<close> fails as well.\<close>

theorem broken_upload_loses_data:
  assumes "file_info_of S p fs = Inr f" "file_path f = p" "open_output S p fs = (Inr sink, fs1)"
    and "stream_table S upload = Inl e"
  shows "DoPut S (Path [p]) upload fs = (Inl (Failed e), fs1) \<and>
    (\<forall>listing g i e'. list_files S ''/'' fs1 = Inr listing \<and> g \<in> set (filter is_dataset listing) \<and> file_path g = p \<and>
       open_input S p fs1 = Inr i \<and> parquet_open S i = Inl e' \<longrightarrow> (\<exists>st. ListFlights S fs1 = (Inl st, fs1)))"
proof (intro conjI allI impI)
  have "root (open_output S p) fs = (Inr sink, fs1)" using assms(3) by (simp add: root_def)
  then show "DoPut S (Path [p]) upload fs = (Inl (Failed e), fs1)"
    using assms by (simp add: DoPut_def FileInfoFromDescriptor_def Path_def)
  fix listing g i e'
  assume l: "list_files S ''/'' fs1 = Inr listing \<and> g \<in> set (filter is_dataset listing) \<and> file_path g = p \<and>
       open_input S p fs1 = Inr i \<and> parquet_open S i = Inl e'"
  then have "MakeFlightInfo S g fs1 = (Inl (Failed e'), fs1)"
    by (simp add: MakeFlightInfo_def seq_assoc)
  then show "\<exists>st. ListFlights S fs1 = (Inl st, fs1)"
    using list_loop_fails [of g listing S fs1 "Failed e'" "[]"] l by (auto simp: ListFlights_def)
qed

section \<open>Requests that are refused\<close>

lemma invalid_descriptor:
  assumes "desc_type d \<noteq> PATH \<or> length (path d) \<noteq> 1"
  shows "\<exists>msg. DoPut S d upload fs = (Inl (Invalid msg), fs) \<and> GetFlightInfo S d fs = (Inl (Invalid msg), fs)"
  using assms by (auto simp: DoPut_def GetFlightInfo_def FileInfoFromDescriptor_def)

lemma actions_listed_are_known:
  "(\<exists>msg. DoAction S a fs = (Inl (NotImplemented msg), fs)) \<longleftrightarrow> action_type a \<notin> fst ` set ListActions"
proof -
  have "DoActionDropDataset S k fs \<noteq> (Inl (NotImplemented msg), fs')" for k msg fs'
  proof (cases "delete_file S k fs")
    case (Pair r fs1)
    then show ?thesis by (cases r) (simp_all add: DoActionDropDataset_def root_def)
  qed
  then show ?thesis by (auto simp: DoAction_def ListActions_def)
qed

text \<open>The ticket of a flight is the file's base name: for a dataset put under a path with a
  directory, \<open>GetFlightInfo\<close> hands out a ticket that is not its path, so \<open>DoGet\<close> opens another file.\<close>

theorem ticket_is_base_name:
  assumes "file_info_of S p fs = Inr f" "GetFlightInfo S (Path [p]) fs = (Inr info, fs')"
  shows "ticket info = base_name f \<and> info_descriptor info = Path [base_name f] \<and>
    (base_name f \<noteq> p \<longrightarrow> ticket info \<noteq> p \<and> info_descriptor info \<noteq> Path [p])"
proof -
  have "MakeFlightInfo S f fs = (Inr info, fs')"
    using assms by (simp add: GetFlightInfo_def FileInfoFromDescriptor_def Path_def)
  then show ?thesis
    by (auto simp: MakeFlightInfo_def Path_def elim!: seq_InrE)
qed

lemma SayHello_reply: "SayHello name reply = (OK, r) \<longleftrightarrow> name \<noteq> [] \<and> r = ''Hello, '' @ name"
  by (auto simp: SayHello_def)

section \<open>A storage to evaluate on\<close>

text \<open>
  One directory with one name, \<open>a.parquet\<close>: absent (\<open>None\<close>), truncated (\<open>Some None\<close>) or a table, a
  number. An upload is a number, or \<open>None\<close> for one that breaks off.
\<close>

definition sample_info :: "string \<Rightarrow> file_info" where
  "sample_info p = \<lparr>file_path = p, base_name = ''a.parquet'', extension = ''parquet'', is_file = True, file_size = 4\<rparr>"

definition sample_storage ::
  "(nat option option, nat option, unit, nat, unit, nat, nat, nat option, string, string) storage_api" where
  "sample_storage = \<lparr>list_files = (\<lambda>d fs. Inr (if fs = None then [] else [sample_info ''a.parquet''])),
     file_info_of = (\<lambda>p fs. Inr (sample_info p)),
     open_input = (\<lambda>p fs. case fs of None \<Rightarrow> Inl ''no file'' | Some c \<Rightarrow> Inr c),
     open_output = (\<lambda>p fs. (Inr (), Some None)),
     delete_file = (\<lambda>p fs. (Inr (), None)),
     parquet_open = (\<lambda>i. case i of None \<Rightarrow> Inl ''not Parquet'' | Some t \<Rightarrow> Inr t),
     reader_schema = (\<lambda>r. Inr ()), reader_num_rows = (\<lambda>r. 1), reader_table = Inr,
     parquet_write = (\<lambda>t n s fs. (Inr (), Some (Some t))),
     stream_table = (\<lambda>s. case s of None \<Rightarrow> Inl ''broken'' | Some t \<Rightarrow> Inr t),
     table_schema = (\<lambda>t. ()), table_batches = (\<lambda>t. Inr [t]),
     batch_stream = (\<lambda>bs sc. Inr (Some (hd bs))), grpc_location = (\<lambda>h p. Inr h), server_port = 0\<rparr>"

lemma sample_storage_laws: "storage_laws sample_storage"
  by (auto simp: storage_laws_def sample_storage_def sample_info_def)

theorem ListFlights_lists_datasets_witness:
  "\<exists>infos. ListFlights sample_storage (Some (Some 7)) = (Inr infos, Some (Some 7)) \<and> length infos = 1"
proof -
  have l: "list_files sample_storage ''/'' (Some (Some 7)) = Inr [sample_info ''a.parquet'']"
    by (simp add: sample_storage_def)
  have d: "filter is_dataset [sample_info ''a.parquet''] = [sample_info ''a.parquet'']"
    by (simp add: is_dataset_def sample_info_def)
  have "MakeFlightInfo sample_storage (sample_info ''a.parquet'') (Some (Some 7)) \<noteq> (Inl e', Some (Some 7))" for e'
    by (simp add: MakeFlightInfo_def seq_assoc sample_storage_def)
  then show ?thesis
    using ListFlights_lists_datasets [OF l] unfolding d
    by (auto split: prod.splits sum.splits dest: list_all2_lengthD)
qed

theorem put_then_get_witness:
  "\<exists>s. DoGet sample_storage ''a.parquet'' (Some (Some 7)) = (Inr s, Some (Some 7)) \<and>
    stream_table sample_storage s = Inr 7"
proof -
  have put: "DoPut sample_storage (Path [''a.parquet'']) (Some 7) None = (Inr (), Some (Some 7))"
    by (simp add: DoPut_def FileInfoFromDescriptor_def Path_def) (simp add: sample_storage_def root_run)
  have get: "DoGet sample_storage ''a.parquet'' (Some (Some 7)) = (Inr (Some 7), Some (Some 7))"
    by (simp add: DoGet_def seq_assoc sample_storage_def)
  have "Path [''a.parquet''] = Path [p] \<Longrightarrow> p = ''a.parquet''" for p by (simp add: Path_def)
  then show ?thesis
    using put_then_get [OF sample_storage_laws put] get by (auto simp: sample_storage_def)
qed

theorem broken_upload_loses_data_witness:
  "DoPut sample_storage (Path [''a.parquet'']) None (Some (Some 7)) = (Inl (Failed ''broken''), Some None) \<and>
   (\<exists>st. ListFlights sample_storage (Some None) = (Inl st, Some None))"
proof -
  have a: "file_info_of sample_storage ''a.parquet'' (Some (Some 7)) = Inr (sample_info ''a.parquet'')"
    "file_path (sample_info ''a.parquet'') = ''a.parquet''"
    "open_output sample_storage ''a.parquet'' (Some (Some 7)) = (Inr (), Some None)"
    "stream_table sample_storage None = Inl ''broken''"
    "list_files sample_storage ''/'' (Some None) = Inr [sample_info ''a.parquet'']"
    "open_input sample_storage ''a.parquet'' (Some None) = Inr None"
    "parquet_open sample_storage None = Inl ''not Parquet''"
    "filter is_dataset [sample_info ''a.parquet''] = [sample_info ''a.parquet'']"
    by (simp_all add: sample_storage_def sample_info_def is_dataset_def)
  show ?thesis
    using broken_upload_loses_data [OF a(1-4)] a(2,5-8) by (metis list.set_intros(1))
qed

theorem ticket_is_base_name_witness:
  "\<exists>info. GetFlightInfo sample_storage (Path [''sub/a.parquet'']) (Some (Some 7)) = (Inr info, Some (Some 7)) \<and>
    ticket info \<noteq> ''sub/a.parquet''"
proof -
  have f: "file_info_of sample_storage ''sub/a.parquet'' (Some (Some 7)) = Inr (sample_info ''sub/a.parquet'')"
    by (simp add: sample_storage_def)
  obtain info where i: "GetFlightInfo sample_storage (Path [''sub/a.parquet'']) (Some (Some 7)) = (Inr info, Some (Some 7))"
    by (simp add: GetFlightInfo_def FileInfoFromDescriptor_def Path_def MakeFlightInfo_def seq_assoc)
       (simp add: sample_storage_def)
  show ?thesis
    using ticket_is_base_name [OF f i] i by (simp add: sample_info_def)
qed

end
