(* ===== verification/Flight_Store.thy ===== *)
theory Flight_Store
  imports Flight
begin

text \<open>
  The contract of \<open>ParquetStorageService\<close> (\<open>arrow/cookbook/flight.cc\<close>) as a store of tables by path,
  and that the service's handlers refine it for every sequence of requests.
\<close>

section \<open>Requests\<close>

text \<open>The virtual functions of \<open>FlightServerBase\<close> that the service overrides, as requests.\<close>

datatype 'stream request = Put flight_descriptor 'stream | Get string | Info flight_descriptor | List
  | Actions | Act action_request

datatype ('schema, 'loc, 'stream, 'e) response = Refused "'e status" | Done | Stream 'stream
  | Flight "('schema, 'loc) flight_info" | Flights "('schema, 'loc) flight_info list"
  | Action_types "(string \<times> string) list"

definition answer :: "('x \<Rightarrow> ('schema, 'loc, 'stream, 'e) response) \<Rightarrow> ('e status + 'x) \<times> 'fs \<Rightarrow>
    ('schema, 'loc, 'stream, 'e) response \<times> 'fs" where
  "answer f r = ((case fst r of Inl e \<Rightarrow> Refused e | Inr x \<Rightarrow> f x), snd r)"

fun handle ::
  "('fs, 'i, 'sink, 'reader, 'schema, 'table, 'batch, 'stream, 'loc, 'e) storage_api \<Rightarrow> 'stream request \<Rightarrow>
   'fs \<Rightarrow> ('schema, 'loc, 'stream, 'e) response \<times> 'fs" where
  "handle S (Put d upload) fs = answer (\<lambda>_. Done) (DoPut S d upload fs)"
| "handle S (Get t) fs = answer Stream (DoGet S t fs)"
| "handle S (Info d) fs = answer Flight (GetFlightInfo S d fs)"
| "handle S List fs = answer Flights (ListFlights S fs)"
| "handle S Actions fs = (Action_types ListActions, fs)"
| "handle S (Act a) fs = answer (\<lambda>_. Done) (DoAction S a fs)"

fun serve ::
  "('fs, 'i, 'sink, 'reader, 'schema, 'table, 'batch, 'stream, 'loc, 'e) storage_api \<Rightarrow> 'stream request list \<Rightarrow>
   'fs \<Rightarrow> ('schema, 'loc, 'stream, 'e) response list \<times> 'fs" where
  "serve S [] fs = ([], fs)"
| "serve S (q # qs) fs =
     (case handle S q fs of (a, fs1) \<Rightarrow> (case serve S qs fs1 of (as, fs2) \<Rightarrow> (a # as, fs2)))"

section \<open>The store\<close>

text \<open>
  The datasets as clients can observe them, apart from the service. \<open>same_file p q\<close>: the paths \<open>p\<close> and \<open>q\<close> may
  name one file (they are equal up to redundant separators or \<open>.\<close>, or there are links). \<open>stored fs p\<close> is what the readable
  Parquet file at \<open>p\<close> holds, if there is one; \<open>table_data\<close> is what a table holds, whatever the chunks of its columns (Arrow's \<open>Table::Equals\<close>);
  \<open>read_back\<close> is what Parquet gives back of a table that it has written, which need not be the table (types that
  Parquet does not have are converted).
\<close>

record ('fs, 'table, 'data) store_view =
  same_file :: "string \<Rightarrow> string \<Rightarrow> bool"
  stored :: "'fs \<Rightarrow> string \<Rightarrow> 'data option"
  table_data :: "'table \<Rightarrow> 'data"
  read_back :: "'table \<Rightarrow> 'data"

text \<open>A change to the file at \<open>p\<close>: every path keeps what it had, except that those that may name that file may have got one of \<open>ds\<close>.\<close>

definition touches :: "(string \<Rightarrow> string \<Rightarrow> bool) \<Rightarrow> string \<Rightarrow> 'data option set \<Rightarrow> (string \<Rightarrow> 'data option) \<Rightarrow>
    (string \<Rightarrow> 'data option) \<Rightarrow> bool" where
  "touches same p ds m m' \<longleftrightarrow> (\<forall>q. m' q = m q \<or> same p q \<and> m' q \<in> ds)"

lemma touches_refl [simp]: "touches same p ds m m"
  by (simp add: touches_def)

lemma touches_mono: "touches same p ds m m' \<Longrightarrow> ds \<subseteq> ds' \<Longrightarrow> touches same p ds' m m'"
  unfolding touches_def by blast

lemma touches_trans: "touches same p ds m m1 \<Longrightarrow> touches same p ds m1 m2 \<Longrightarrow> touches same p ds m m2"
  unfolding touches_def by metis

lemma touches_other: "touches same p ds m m' \<Longrightarrow> \<not> same p q \<Longrightarrow> m' q = m q"
  unfolding touches_def by blast

lemma touches_alias: "same p' = same p \<Longrightarrow> touches same p' ds m m' = touches same p ds m m'"
  by (simp add: touches_def)

text \<open>
  What a request may answer and do to the store \<open>m\<close>: a successful upload stores what Parquet keeps of its table; one that
  fails loses at most what is stored in the file it names; a download streams what is stored; dropping
  a dataset removes it; everything else leaves the store alone. No request touches other files.
\<close>

fun store_step ::
  "('fs, 'table, 'data) store_view \<Rightarrow> ('stream \<Rightarrow> 'e + 'table) \<Rightarrow> 'stream request \<Rightarrow> ('schema, 'loc, 'stream, 'e) response \<Rightarrow>
   (string \<Rightarrow> 'data option) \<Rightarrow> (string \<Rightarrow> 'data option) \<Rightarrow> bool" where
  "store_step V content (Put d upload) Done m m' \<longleftrightarrow>
     (\<exists>p t. d = Path [p] \<and> content upload = Inr t \<and> m' p = Some (read_back V t) \<and>
        touches (same_file V) p {None, Some (read_back V t)} m m')"
| "store_step V content (Put d upload) (Refused e) m m' \<longleftrightarrow>
     m' = m \<or> (\<exists>p. d = Path [p] \<and>
        touches (same_file V) p (insert None {Some (read_back V t) |t. content upload = Inr t}) m m')"
| "store_step V content (Get p) (Stream s) m m' \<longleftrightarrow>
     m' = m \<and> (\<exists>x. m p = Some x \<and> (\<forall>t. content s = Inr t \<longrightarrow> table_data V t = x))"
| "store_step V content (Act a) Done m m' \<longleftrightarrow>
     action_type a = ''drop_dataset'' \<and> m' (action_body a) = None \<and> touches (same_file V) (action_body a) {None} m m'"
| "store_step V content (Get p) (Refused e) m m' \<longleftrightarrow> m' = m"
| "store_step V content (Act a) (Refused e) m m' \<longleftrightarrow> m' = m"
| "store_step V content (Info d) (Flight f) m m' \<longleftrightarrow> m' = m"
| "store_step V content (Info d) (Refused e) m m' \<longleftrightarrow> m' = m"
| "store_step V content List (Flights f) m m' \<longleftrightarrow> m' = m"
| "store_step V content List (Refused e) m m' \<longleftrightarrow> m' = m"
| "store_step V content Actions (Action_types l) m m' \<longleftrightarrow> m' = m"
| "store_step V content q a m m' \<longleftrightarrow> False"

inductive store_run ::
  "('fs, 'table, 'data) store_view \<Rightarrow> ('stream \<Rightarrow> 'e + 'table) \<Rightarrow> (string \<Rightarrow> 'data option) \<Rightarrow> 'stream request list \<Rightarrow>
   ('schema, 'loc, 'stream, 'e) response list \<Rightarrow> (string \<Rightarrow> 'data option) \<Rightarrow> bool"
  for V content where
  store_nil [intro]: "store_run V content m [] [] m"
| store_cons [intro]: "store_step V content q a m m' \<Longrightarrow> store_run V content m' qs as m'' \<Longrightarrow>
    store_run V content m (q # qs) (a # as) m''"

inductive_cases store_run_NilE [elim!]: "store_run V content m [] as m'"
inductive_cases store_run_ConsE [elim!]: "store_run V content m (q # qs) as m'"

section \<open>What the service relies on\<close>

text \<open>
  The path in a \<open>FileInfo\<close> names the file asked for (a subtree file system drops leading separators). Opening a stream and writing
  to it changes the file at its path and no other: it is truncated, and a table written is readable as far as Parquet
  keeps it. Nothing is said of what a write that fails leaves in that file. Deleting
  removes it. A stream made of a table's batches, if it can be read, gives a table with the same data.
\<close>

definition store_laws ::
  "('fs, 'i, 'sink, 'reader, 'schema, 'table, 'batch, 'stream, 'loc, 'e) storage_api \<Rightarrow>
   ('fs, 'table, 'data) store_view \<Rightarrow> bool" where
  "store_laws S V \<longleftrightarrow>
     (\<forall>p fs f. file_info_of S p fs = Inr f \<longrightarrow>
        same_file V (file_path f) = same_file V p \<and> (\<forall>fs'. stored V fs' (file_path f) = stored V fs' p)) \<and>
     (\<forall>p fs r fs'. open_output S p fs = (r, fs') \<longrightarrow> touches (same_file V) p {None} (stored V fs) (stored V fs')) \<and>
     (\<forall>p fs s fs1 t n r fs2. open_output S p fs = (Inr s, fs1) \<longrightarrow> parquet_write S t n s fs1 = (r, fs2) \<longrightarrow>
        touches (same_file V) p {None, Some (read_back V t)} (stored V fs1) (stored V fs2) \<and>
        (r = Inr () \<longrightarrow> stored V fs2 p = Some (read_back V t))) \<and>
     (\<forall>p fs e fs'. delete_file S p fs = (Inl e, fs') \<longrightarrow> stored V fs' = stored V fs) \<and>
     (\<forall>p fs fs'. delete_file S p fs = (Inr (), fs') \<longrightarrow>
        stored V fs' p = None \<and> touches (same_file V) p {None} (stored V fs) (stored V fs')) \<and>
     (\<forall>p fs i r t. open_input S p fs = Inr i \<longrightarrow> parquet_open S i = Inr r \<longrightarrow> reader_table S r = Inr t \<longrightarrow>
        stored V fs p = Some (table_data V t)) \<and>
     (\<forall>t bs s t'. table_batches S t = Inr bs \<longrightarrow> batch_stream S bs (table_schema S t) = Inr s \<longrightarrow>
        stream_table S s = Inr t' \<longrightarrow> table_data V t' = table_data V t)"

lemma store_lawsD:
  assumes "store_laws S V"
  shows "file_info_of S p fs = Inr f \<Longrightarrow> same_file V (file_path f) = same_file V p"
    and "file_info_of S p fs = Inr f \<Longrightarrow> stored V fs' (file_path f) = stored V fs' p"
    and "open_output S p fs = (r, fs') \<Longrightarrow> touches (same_file V) p {None} (stored V fs) (stored V fs')"
    and "open_output S p fs = (Inr s, fs1) \<Longrightarrow> parquet_write S t n s fs1 = (rw, fs2) \<Longrightarrow>
      touches (same_file V) p {None, Some (read_back V t)} (stored V fs1) (stored V fs2)"
    and "open_output S p fs = (Inr s, fs1) \<Longrightarrow> parquet_write S t n s fs1 = (Inr (), fs2) \<Longrightarrow>
      stored V fs2 p = Some (read_back V t)"
    and "delete_file S p fs = (Inl e, fs') \<Longrightarrow> stored V fs' = stored V fs"
    and "delete_file S p fs = (Inr (), fs') \<Longrightarrow>
      stored V fs' p = None \<and> touches (same_file V) p {None} (stored V fs) (stored V fs')"
    and "open_input S p fs = Inr i \<Longrightarrow> parquet_open S i = Inr pr \<Longrightarrow> reader_table S pr = Inr t \<Longrightarrow>
      stored V fs p = Some (table_data V t)"
    and "table_batches S t = Inr bs \<Longrightarrow> batch_stream S bs (table_schema S t) = Inr st \<Longrightarrow> stream_table S st = Inr t' \<Longrightarrow>
      table_data V t' = table_data V t"
  using assms unfolding store_laws_def by fastforce+

section \<open>The handlers refine the store\<close>

lemma DoPut_step:
  assumes L: "store_laws S V" and run: "DoPut S d upload fs = (r, fs')"
  shows "case r of
      Inr _ \<Rightarrow> \<exists>p t. d = Path [p] \<and> stream_table S upload = Inr t \<and> stored V fs' p = Some (read_back V t) \<and>
        touches (same_file V) p {None, Some (read_back V t)} (stored V fs) (stored V fs')
    | Inl e \<Rightarrow> stored V fs' = stored V fs \<or> (\<exists>p. d = Path [p] \<and>
        touches (same_file V) p (insert None {Some (read_back V t) |t. stream_table S upload = Inr t}) (stored V fs) (stored V fs'))"
proof (cases "FileInfoFromDescriptor S d fs")
  case (Pair r0 fs0)
  have fs0: "fs0 = fs" using FileInfo_reads [of S d fs] Pair by simp
  show ?thesis
  proof (cases r0)
    case (Inl e)
    then show ?thesis using run Pair fs0 by (auto simp: DoPut_def)
  next
    case (Inr f)
    obtain p where p: "d = Path [p]" "file_info_of S p fs = Inr f"
      using FileInfo_InrD [of S d fs f fs0] Pair Inr by blast
    note same = touches_alias [OF store_lawsD(1) [OF L p(2)]] and at = store_lawsD(2) [OF L p(2)]
    have run1: "seq (root (open_output S (file_path f))) (\<lambda>sink. seq (ok (stream_table S upload)) (\<lambda>table.
        root (parquet_write S table 65536 sink))) fs = (r, fs')"
      using run Pair Inr fs0 by (simp add: DoPut_def)
    obtain ro fs1 where o: "open_output S (file_path f) fs = (ro, fs1)" by (cases "open_output S (file_path f) fs")
    have v1: "touches (same_file V) p {None} (stored V fs) (stored V fs1)"
      using store_lawsD(3) [OF L o] by (simp add: same)
    then have broken: "touches (same_file V) p (insert None {Some (read_back V t) |t. stream_table S upload = Inr t})
        (stored V fs) (stored V fs1)"
      by (rule touches_mono) blast
    show ?thesis
    proof (cases ro)
      case (Inl e)
      then show ?thesis using run1 o broken p by (auto simp: root_def seq_def)
    next
      case (Inr sink)
      show ?thesis
      proof (cases "stream_table S upload")
        case (Inl e)
        then show ?thesis using run1 o Inr broken p by (auto simp: root_def)
      next
        case t: (Inr t)
        obtain rw fs2 where w: "parquet_write S t 65536 sink fs1 = (rw, fs2)"
          by (cases "parquet_write S t 65536 sink fs1")
        have "touches (same_file V) p {None, Some (read_back V t)} (stored V fs1) (stored V fs2)"
          using store_lawsD(4) [OF L o [unfolded Inr] w] by (simp add: same)
        then have v2: "touches (same_file V) p {None, Some (read_back V t)} (stored V fs) (stored V fs2)"
          by (rule touches_trans [OF touches_mono [OF v1], rotated]) simp
        have "insert None {Some (read_back V t) |t. stream_table S upload = Inr t} = {None, Some (read_back V t)}"
          using t by auto
        moreover have "stored V fs2 p = Some (read_back V t)" if "rw = Inr ()"
          using store_lawsD(5) [OF L o [unfolded Inr] w [unfolded that]] by (simp add: at)
        moreover have "r = (case rw of Inl e \<Rightarrow> Inl (Failed e) | Inr u \<Rightarrow> Inr u)" "fs' = fs2"
          using run1 o Inr t w by (cases rw; simp add: root_def)+
        ultimately show ?thesis using v2 p(1) t by (cases rw) auto
      qed
    qed
  qed
qed

lemma DoGet_step:
  assumes L: "store_laws S V" and run: "DoGet S p fs = (Inr s, fs')"
  shows "\<exists>x. stored V fs p = Some x \<and> (\<forall>t. stream_table S s = Inr t \<longrightarrow> table_data V t = x)"
proof -
  obtain i where i: "open_input S p fs = Inr i"
    using run by (cases "open_input S p fs") (simp_all add: DoGet_def seq_assoc)
  obtain r where r: "parquet_open S i = Inr r"
    using run i by (cases "parquet_open S i") (simp_all add: DoGet_def seq_assoc)
  obtain t where t: "reader_table S r = Inr t"
    using run i r by (cases "reader_table S r") (simp_all add: DoGet_def seq_assoc)
  obtain bs where b: "table_batches S t = Inr bs"
    using run i r t by (cases "table_batches S t") (simp_all add: DoGet_def seq_assoc)
  have "batch_stream S bs (table_schema S t) = Inr s"
    using run i r t b by (auto simp: DoGet_def seq_assoc dest: ok_InrD)
  then show ?thesis using store_lawsD(8) [OF L i r t] store_lawsD(9) [OF L b] by blast
qed

lemma DoAction_step:
  assumes L: "store_laws S V" and run: "DoAction S a fs = (r, fs')"
  shows "case r of
      Inr _ \<Rightarrow> action_type a = ''drop_dataset'' \<and> stored V fs' (action_body a) = None \<and>
        touches (same_file V) (action_body a) {None} (stored V fs) (stored V fs')
    | Inl e \<Rightarrow> stored V fs' = stored V fs"
proof (cases "delete_file S (action_body a) fs")
  case (Pair rd fs1)
  then show ?thesis
    using run store_lawsD(6,7) [OF L, of "action_body a" fs]
    by (cases rd) (auto simp: DoAction_def DoActionDropDataset_def kActionDropDataset_def root_def split: if_splits)
qed

lemma handle_step:
  assumes L: "store_laws S V" and run: "handle S q fs = (a, fs')"
  shows "store_step V (stream_table S) q a (stored V fs) (stored V fs')"
proof (cases q)
  case (Put d upload)
  obtain r fs1 where r: "DoPut S d upload fs = (r, fs1)" by (cases "DoPut S d upload fs")
  show ?thesis using DoPut_step [OF L r] run r Put by (cases r) (auto simp: answer_def)
next
  case (Get p)
  obtain r fs1 where r: "DoGet S p fs = (r, fs1)" by (cases "DoGet S p fs")
  have "fs1 = fs" using DoGet_reads [of S p fs] r by simp
  then show ?thesis using DoGet_step [OF L] run r Get by (cases r) (auto simp: answer_def)
next
  case (Info d)
  then show ?thesis
    using run GetFlightInfo_reads [of S d fs] by (cases "fst (GetFlightInfo S d fs)") (auto simp: answer_def)
next
  case List
  then show ?thesis
    using run ListFlights_reads [of S fs] by (cases "fst (ListFlights S fs)") (auto simp: answer_def)
next
  case Actions
  then show ?thesis using run by auto
next
  case (Act ac)
  obtain r fs1 where r: "DoAction S ac fs = (r, fs1)" by (cases "DoAction S ac fs")
  show ?thesis using DoAction_step [OF L r] run r Act by (cases r) (auto simp: answer_def)
qed

lemma serve_run:
  assumes "store_laws S V" "serve S qs fs = (as, fs')"
  shows "store_run V (stream_table S) (stored V fs) qs as (stored V fs')"
  using assms(2)
proof (induction qs arbitrary: fs as)
  case Nil
  then show ?case by auto
next
  case (Cons q qs)
  obtain a fs1 where h: "handle S q fs = (a, fs1)" by (cases "handle S q fs")
  obtain as1 fs2 where s: "serve S qs fs1 = (as1, fs2)" by (cases "serve S qs fs1")
  have "as = a # as1" "fs2 = fs'" using Cons.prems h s by auto
  then show ?case using Cons.IH [of fs1 as1] s handle_step [OF assms(1) h] by auto
qed

text \<open>
  C2: the service refines the store: whatever sequence of requests it handles, its answers and the
  datasets it leaves in the files are a run of the store from the datasets it started with. A request changes at most the file it
  names, under whatever path.
\<close>

theorem service_refines_store:
  assumes "store_laws S V" "serve S qs fs = (as, fs')"
  shows "store_run V (stream_table S) (stored V fs) qs as (stored V fs')"
  using assms by (rule serve_run)

section \<open>What clients see\<close>

text \<open>A request that neither uploads to nor drops a path that may name the file at \<open>p\<close>.\<close>

definition leaves_alone :: "('fs, 'table, 'data) store_view \<Rightarrow> string \<Rightarrow> 'stream request \<Rightarrow> bool" where
  "leaves_alone V p q =
     (case q of
        Put d _ \<Rightarrow> \<not> (desc_type d = PATH \<and> length (path d) = 1 \<and> same_file V (path d ! 0) p)
      | Act a \<Rightarrow> \<not> same_file V (action_body a) p
      | _ \<Rightarrow> True)"

lemma store_step_frame:
  assumes "store_step V content q a m m'" "leaves_alone V p q"
  shows "m' p = m p"
  using assms by (cases q; cases a) (auto simp: leaves_alone_def Path_def dest: touches_other)

lemma store_run_frame:
  assumes "store_run V content m qs as m'" "\<forall>q\<in>set qs. leaves_alone V p q"
  shows "m' p = m p"
  using assms by induction (auto dest: store_step_frame)

lemma store_run_append:
  "store_run V content m (qs @ qs') as m' \<Longrightarrow>
   \<exists>as1 as2 m1. as = as1 @ as2 \<and> length as1 = length qs \<and> store_run V content m qs as1 m1 \<and> store_run V content m1 qs' as2 m'"
proof (induction qs arbitrary: m as)
  case Nil
  then show ?case by (intro exI [of _ "[]"] exI [of _ as] exI [of _ m]) (simp add: store_nil)
next
  case (Cons q qs)
  then obtain a as0 m0 where 0: "as = a # as0" "store_step V content q a m m0" "store_run V content m0 (qs @ qs') as0 m'"
    by auto
  obtain as1 as2 m1 where "as0 = as1 @ as2" "length as1 = length qs" "store_run V content m0 qs as1 m1" "store_run V content m1 qs' as2 m'"
    using Cons.IH [OF 0(3)] by blast
  then show ?case using 0 by (intro exI [of _ "a # as1"] exI [of _ as2] exI [of _ m1]) (auto intro: store_cons)
qed

text \<open>
  C17: any client gets what was put: after an upload under a path that was answered with success, and any requests of any
  clients that neither upload to nor drop a path that may name the same file, a download of that path that is answered
  with a stream streams what Parquet keeps of the uploaded table.
\<close>

theorem download_after_upload:
  fixes as :: "('schema, 'loc, 'stream, 'e) response list"
  assumes L: "store_laws S V"
    and "serve S (Put (Path [p]) upload # qs @ [Get p]) fs = (Done # as @ [Stream s], fs')"
    and "length as = length qs" "\<forall>q\<in>set qs. leaves_alone V p q"
  shows "\<exists>t. stream_table S upload = Inr t \<and> (\<forall>u. stream_table S s = Inr u \<longrightarrow> table_data V u = read_back V t)"
proof -
  have "store_run V (stream_table S) (stored V fs) (Put (Path [p]) upload # qs @ [Get p]) (Done # as @ [Stream s]) (stored V fs')"
    by (rule serve_run [OF L assms(2)])
  then obtain m1 where 1: "store_step V (stream_table S) (Put (Path [p]) upload) (Done :: ('schema, 'loc, 'stream, 'e) response) (stored V fs) m1"
      "store_run V (stream_table S) m1 (qs @ [Get p]) (as @ [Stream s]) (stored V fs')" by auto
  then obtain t where t: "stream_table S upload = Inr t" "m1 p = Some (read_back V t)" by (auto simp: Path_def)
  obtain as1 as2 m2 where "as @ [Stream s] = as1 @ as2" "length as1 = length qs" and 2: "store_run V (stream_table S) m1 qs as1 m2"
      "store_run V (stream_table S) m2 [Get p] as2 (stored V fs')"
    using store_run_append [OF 1(2)] by blast
  then have "as2 = [Stream s]" using assms(3) by (simp add: append_eq_append_conv)
  moreover have "m2 p = Some (read_back V t)" using store_run_frame [OF 2(1) assms(4)] t(2) by simp
  ultimately show ?thesis using 2(2) t(1) by auto
qed

section \<open>A store to evaluate on\<close>

text \<open>A file is absent, no Parquet file (\<open>Some None\<close>), or a table, a number. An upload is a number, or
  \<open>None\<close> for one that breaks off. A leading separator in a path is dropped.\<close>

definition file_name :: "string \<Rightarrow> string" where
  "file_name p = dropWhile (\<lambda>c. c = CHR 0x2F) p"

definition sample_store ::
  "(string \<Rightarrow> nat option option, nat option, string, nat, unit, nat, nat, nat option, string, string) storage_api" where
  "sample_store = \<lparr>list_files = (\<lambda>d fs. Inr []),
     file_info_of = (\<lambda>p fs. Inr ((sample_info (file_name p))\<lparr>base_name := file_name p\<rparr>)),
     open_input = (\<lambda>p fs. case fs (file_name p) of None \<Rightarrow> Inl ''no file'' | Some c \<Rightarrow> Inr c),
     open_output = (\<lambda>p fs. (Inr (file_name p), fs(file_name p \<mapsto> None))),
     delete_file = (\<lambda>p fs. if fs (file_name p) = None then (Inl ''no file'', fs) else (Inr (), fs(file_name p := None))),
     parquet_open = (\<lambda>i. case i of None \<Rightarrow> Inl ''not Parquet'' | Some t \<Rightarrow> Inr t),
     reader_schema = (\<lambda>r. Inr ()), reader_num_rows = (\<lambda>r. 1), reader_table = Inr,
     parquet_write = (\<lambda>t n f fs. (Inr (), fs(f \<mapsto> Some t))),
     stream_table = (\<lambda>s. case s of None \<Rightarrow> Inl ''broken'' | Some t \<Rightarrow> Inr t),
     table_schema = (\<lambda>t. ()), table_batches = (\<lambda>t. Inr [t]),
     batch_stream = (\<lambda>bs sc. Inr (Some (hd bs))), grpc_location = (\<lambda>h p. Inr h), server_port = 0\<rparr>"

definition sample_view :: "(string \<Rightarrow> nat option option, nat, nat) store_view" where
  "sample_view = \<lparr>same_file = (\<lambda>p q. file_name p = file_name q),
     stored = (\<lambda>fs p. case fs (file_name p) of Some (Some t) \<Rightarrow> Some t | _ \<Rightarrow> None),
     table_data = (\<lambda>t. t), read_back = (\<lambda>t. t)\<rparr>"

lemma file_name_idem [simp]: "file_name (file_name p) = file_name p"
  unfolding file_name_def by (induction p) auto

lemma sample_calls_of_store:
  "open_output sample_store p fs = (Inr (file_name p), fs(file_name p \<mapsto> None))"
  "parquet_write sample_store t n f fs = (Inr (), fs(f \<mapsto> Some t))"
  "delete_file sample_store p fs =
     (if fs (file_name p) = None then (Inl ''no file'', fs) else (Inr (), fs(file_name p := None)))"
  "file_info_of sample_store p fs = Inr ((sample_info (file_name p))\<lparr>base_name := file_name p\<rparr>)"
  by (simp_all add: sample_store_def)

lemma sample_view_simps [simp]:
  "same_file sample_view p q \<longleftrightarrow> file_name p = file_name q"
  "stored sample_view fs p = (case fs (file_name p) of Some (Some t) \<Rightarrow> Some t | _ \<Rightarrow> None)"
  "table_data sample_view t = t" "read_back sample_view t = t"
  by (simp_all add: sample_view_def)

lemma sample_store_laws: "store_laws sample_store sample_view"
proof -
  have w: "touches (same_file sample_view) p {None} (stored sample_view fs) (stored sample_view (fs(file_name p := c)))"
    if "c = None \<or> c = Some None" for p fs c
    using that by (auto simp: touches_def)
  have w': "touches (same_file sample_view) p {None, Some t} (stored sample_view (fs(file_name p \<mapsto> None)))
      (stored sample_view (fs(file_name p \<mapsto> Some t)))"
    for p fs t
    by (auto simp: touches_def)
  have r: "stored sample_view fs p = Some t" if "open_input sample_store p fs = Inr i" "parquet_open sample_store i = Inr r"
      "reader_table sample_store r = Inr t" for fs p i r t
    using that by (cases "fs (file_name p)"; cases i) (simp_all add: sample_store_def)
  have b: "t' = t" if "table_batches sample_store t = Inr bs" "batch_stream sample_store bs (table_schema sample_store t) = Inr st"
      "stream_table sample_store st = Inr t'" for t bs st t'
    using that by (simp add: sample_store_def) auto
  show ?thesis
    unfolding store_laws_def
  proof (intro conjI allI impI)
    fix p fs i r t
    assume "open_input sample_store p fs = Inr i" "parquet_open sample_store i = Inr r" "reader_table sample_store r = Inr t"
    then show "stored sample_view fs p = Some (table_data sample_view t)" using r by simp
  next
    fix t bs st t'
    assume "table_batches sample_store t = Inr bs" "batch_stream sample_store bs (table_schema sample_store t) = Inr st"
      "stream_table sample_store st = Inr t'"
    then show "table_data sample_view t' = table_data sample_view t" using b by simp
  qed (auto simp: sample_calls_of_store sample_info_def w w' split: if_splits)
qed

lemmas sample_service = DoPut_def FileInfoFromDescriptor_def Path_def DoGet_def seq_assoc DoAction_def
  DoActionDropDataset_def kActionDropDataset_def answer_def root_def

lemma sample_put: "handle sample_store (Put (Path [p]) (Some t)) fs = (Done, fs(file_name p \<mapsto> Some t))"
  by (simp add: sample_service) (simp add: sample_store_def sample_info_def seq_def root_def)

lemma sample_get: "fs (file_name p) = Some (Some t) \<Longrightarrow> handle sample_store (Get p) fs = (Stream (Some t), fs)"
  by (simp add: sample_service) (simp add: sample_store_def)

lemma sample_drop: "fs (file_name p) \<noteq> None \<Longrightarrow>
    handle sample_store (Act \<lparr>action_type = ''drop_dataset'', action_body = p\<rparr>) fs = (Done, fs(file_name p := None))"
  by (simp add: sample_service) (simp add: sample_store_def)

lemma sample_names [simp]: "file_name ''a'' = ''a''" "file_name ''/a'' = ''a''" "file_name ''b'' = ''b''"
  "file_name ''airquality.parquet'' = ''airquality.parquet''"
  by (simp_all add: file_name_def)

theorem service_refines_store_witness:
  "\<exists>m. store_run sample_view (stream_table sample_store) (\<lambda>p. None)
     [Put (Path [''/a'']) (Some 7), Get ''a'', Act \<lparr>action_type = ''drop_dataset'', action_body = ''a''\<rparr>]
     ([Done, Stream (Some 7), Done] :: (unit, string, nat option, string) response list) m \<and> m ''/a'' = None"
proof -
  let ?qs = "[Put (Path [''/a'']) (Some 7), Get ''a'', Act \<lparr>action_type = ''drop_dataset'', action_body = ''a''\<rparr>]"
  have s: "serve sample_store ?qs (\<lambda>p. None) = ([Done, Stream (Some 7), Done], \<lambda>p. None)"
    by (simp add: sample_put sample_get sample_drop fun_eq_iff del: handle.simps)
  have v: "stored sample_view (\<lambda>p. None) = (\<lambda>p. None)" by (simp add: fun_eq_iff)
  show ?thesis
    using service_refines_store [OF sample_store_laws s] unfolding v by (intro exI [of _ "\<lambda>p. None"] conjI) simp_all
qed

theorem download_after_upload_witness:
  "fst (serve sample_store [Put (Path [''a'']) (Some 7), Put (Path [''b'']) (Some 8), Get ''a''] (\<lambda>p. None)) =
     [Done, Done, Stream (Some 7)] \<and> read_back sample_view 7 = 7 \<and> stream_table sample_store (Some 7) = Inr 7"
proof -
  have s: "serve sample_store (Put (Path [''a'']) (Some 7) # [Put (Path [''b'']) (Some 8)] @ [Get ''a'']) (\<lambda>p. None) =
      (Done # [Done] @ [Stream (Some 7)], [''a'' \<mapsto> Some 7, ''b'' \<mapsto> Some 8])"
    by (simp add: sample_put sample_get del: handle.simps)
  have "\<exists>t. stream_table sample_store (Some 7) = Inr t \<and>
      (\<forall>u. stream_table sample_store (Some 7) = Inr u \<longrightarrow> table_data sample_view u = read_back sample_view t)"
    by (rule download_after_upload [OF sample_store_laws s]) (simp_all add: leaves_alone_def Path_def)
  then show ?thesis using s by (simp add: sample_store_def)
qed

end
