(* ===== verification/Recipes.thy ===== *)
theory Recipes
  imports Prelude "HOL-Library.List_Lexorder" "HOL-Library.Char_ord"
begin

text \<open>
  \<open>arrow/cookbook/common.cc\<close>, the macros of \<open>common.h\<close> it uses, and \<open>main.cc\<close>: recording the
  output of the recipes and merging it into a file. Arrow's builders, arrays, tables and file
  systems are not in the repository: the calls made to them are the fields of \<open>arrow_api\<close>, and
  \<open>arrow_laws\<close> is what their documentation says of them.
\<close>

section \<open>The calls to Arrow\<close>

text \<open>
  A failed \<open>Status\<close> is an \<open>'e\<close>. \<open>get_string\<close> is undefined (\<open>None\<close>) beyond the array's end, and
  for an array that is no string array (a null pointer after the cast). \<open>make_table\<close> is
  \<open>RecordBatch::Make\<close> and \<open>Table::FromRecordBatches\<close> for one batch with the recipes' schema.
\<close>

record ('b, 'a, 't, 'i, 'fs, 'e) arrow_api =
  new_builder :: 'b
  append_string :: "string \<Rightarrow> 'b \<Rightarrow> 'e + 'b"
  finish :: "'b \<Rightarrow> 'e + ('a \<times> 'b)"
  builder_length :: "'b \<Rightarrow> nat"
  array_length :: "'a \<Rightarrow> nat"
  get_string :: "'a \<Rightarrow> nat \<Rightarrow> string option"
  make_table :: "nat \<Rightarrow> 'a list \<Rightarrow> 'e + 't"
  num_rows :: "'t \<Rightarrow> nat"
  column_chunks :: "'t \<Rightarrow> nat \<Rightarrow> 'a list"
  open_input_file :: "string \<Rightarrow> 'fs \<Rightarrow> 'e + 'i"
  read_stream :: "'i \<Rightarrow> 'e + 't"
  open_output_stream :: "string \<Rightarrow> 'fs \<Rightarrow> ('e + unit) \<times> 'fs"
  write_table :: "string \<Rightarrow> 't \<Rightarrow> 'fs \<Rightarrow> ('e + unit) \<times> 'fs"
  close_writer :: "string \<Rightarrow> 'fs \<Rightarrow> ('e + unit) \<times> 'fs"

text \<open>How an operation ends other than with a result: a failed status, or undefined behaviour.\<close>

datatype 'e failure = Status 'e | UB

text \<open>The static variables, \<open>rout\<close>, the failures gtest has recorded, and the file system.\<close>

record ('b, 'fs) recipes =
  test_names_builder :: 'b
  test_output_builder :: 'b
  current_recipe :: string
  rout :: string
  test_failures :: "string list"
  files :: 'fs

definition recipes_init :: "('b, 'a, 't, 'i, 'fs, 'e) arrow_api \<Rightarrow> 'fs \<Rightarrow> ('b, 'fs) recipes" where
  "recipes_init A fs = \<lparr>test_names_builder = new_builder A, test_output_builder = new_builder A,
     current_recipe = [], rout = [], test_failures = [], files = fs\<rparr>"

text \<open>\<open>FAIL()\<close> records a failure and returns from the function it is in, not from its caller.\<close>

definition FAIL :: "string \<Rightarrow> ('b, 'fs) recipes \<Rightarrow> ('b, 'fs) recipes" where
  "FAIL msg w = w\<lparr>test_failures := test_failures w @ [msg]\<rparr>"

text \<open>\<open>ASSERT_OK(expr)\<close>: record the failure and return, or go on with the value.\<close>

definition ASSERT_OK :: "string \<Rightarrow> ('e \<Rightarrow> string) \<Rightarrow> 'e + 'x \<Rightarrow> ('x \<Rightarrow> ('b, 'fs) recipes \<Rightarrow> ('b, 'fs) recipes) \<Rightarrow>
    ('b, 'fs) recipes \<Rightarrow> ('b, 'fs) recipes" where
  "ASSERT_OK expr to_string r k w =
     (case r of
        Inl st \<Rightarrow> FAIL ([CHR 0x27] @ expr @ [CHR 0x27] @ '' failed with '' @ to_string st) w
      | Inr x \<Rightarrow> k x w)"

section \<open>Recording\<close>

definition StartRecipe :: "string \<Rightarrow> ('b, 'fs) recipes \<Rightarrow> ('b, 'fs) recipes" where
  "StartRecipe recipe_name w =
     (if current_recipe w \<noteq> [] then
        FAIL (''Attempt to start a recipe '' @ recipe_name @ '' but the recipe '' @ current_recipe w @
              '' has not been marked finished'') w
      else if recipe_name = [] then FAIL ''Invalid empty recipe name'' w
      else w\<lparr>current_recipe := recipe_name, rout := []\<rparr>)"

definition EndRecipe ::
  "('b, 'a, 't, 'i, 'fs, 'e) arrow_api \<Rightarrow> ('e \<Rightarrow> string) \<Rightarrow> string \<Rightarrow> ('b, 'fs) recipes \<Rightarrow> ('b, 'fs) recipes"
where
  "EndRecipe A to_string recipe_name w =
     (if current_recipe w \<noteq> recipe_name then
        FAIL (''Attempt to end a recipe '' @ recipe_name @ '' but the recipe was not in progress'') w
      else (let recipe_output = rout w in
        ASSERT_OK ''test_names_builder.Append(recipe_name)'' to_string
          (append_string A recipe_name (test_names_builder w)) (\<lambda>b w.
        ASSERT_OK ''test_output_builder.Append(recipe_output)'' to_string
          (append_string A recipe_output (test_output_builder w)) (\<lambda>b w.
        w\<lparr>test_output_builder := b, current_recipe := []\<rparr>) (w\<lparr>test_names_builder := b\<rparr>)) w))"

text \<open>What a recipe does in between: write to \<open>rout\<close>.\<close>

definition rout_write :: "string \<Rightarrow> ('b, 'fs) recipes \<Rightarrow> ('b, 'fs) recipes" where
  "rout_write s w = w\<lparr>rout := rout w @ s\<rparr>"

definition HasRecipeOutput :: "('b, 'a, 't, 'i, 'fs, 'e) arrow_api \<Rightarrow> ('b, 'fs) recipes \<Rightarrow> bool" where
  "HasRecipeOutput A w \<longleftrightarrow> 0 < builder_length A (test_names_builder w)"

section \<open>Tables\<close>

type_synonym ('b, 'fs, 'e, 'x) recipe_action = "(('b, 'fs) recipes, 'e failure, 'x) action"

text \<open>\<open>ARROW_ASSIGN_OR_RAISE\<close> of a call that returns a result.\<close>

definition status :: "'e + 'x \<Rightarrow> ('w, 'e failure, 'x) action" where
  "status r = (case r of Inl e \<Rightarrow> raise (Status e) | Inr x \<Rightarrow> ret x)"

definition file_op :: "('fs \<Rightarrow> ('e + 'x) \<times> 'fs) \<Rightarrow> ('b, 'fs, 'e, 'x) recipe_action" where
  "file_op f w = (case f (files w) of (r, fs) \<Rightarrow> status r (w\<lparr>files := fs\<rparr>))"

definition MakeEmptyStringArray ::
  "('b, 'a, 't, 'i, 'fs, 'e) arrow_api \<Rightarrow> ('b, 'fs, 'e, 'a) recipe_action" where
  "MakeEmptyStringArray A =
     (case finish A (new_builder A) of Inl e \<Rightarrow> raise UB | Inr (arr, b) \<Rightarrow> ret arr)"

definition MakeEmptyRecipesTable ::
  "('b, 'a, 't, 'i, 'fs, 'e) arrow_api \<Rightarrow> ('b, 'fs, 'e, 't) recipe_action" where
  "MakeEmptyRecipesTable A =
     seq (MakeEmptyStringArray A) (\<lambda>a. seq (MakeEmptyStringArray A) (\<lambda>b. status (make_table A 0 [a, b])))"

definition ReadRecipeTable ::
  "('b, 'a, 't, 'i, 'fs, 'e) arrow_api \<Rightarrow> 'i \<Rightarrow> ('b, 'fs, 'e, 't) recipe_action" where
  "ReadRecipeTable A in_file = status (read_stream A in_file)"

definition LoadExistingRecipeOutputTable ::
  "('b, 'a, 't, 'i, 'fs, 'e) arrow_api \<Rightarrow> string \<Rightarrow> ('b, 'fs, 'e, 't) recipe_action" where
  "LoadExistingRecipeOutputTable A filename =
     seq (gets (\<lambda>w. open_input_file A filename (files w))) (\<lambda>maybe_in.
       (case maybe_in of Inl e \<Rightarrow> MakeEmptyRecipesTable A | Inr in_file \<Rightarrow> ReadRecipeTable A in_file))"

definition CreateRecipeOutputTable ::
  "('b, 'a, 't, 'i, 'fs, 'e) arrow_api \<Rightarrow> ('b, 'fs, 'e, 't) recipe_action" where
  "CreateRecipeOutputTable A =
     seq (seq (gets (\<lambda>w. finish A (test_names_builder w))) status) (\<lambda>(test_names, b).
     seq (modify (\<lambda>w. w\<lparr>test_names_builder := b\<rparr>)) (\<lambda>_.
     seq (seq (gets (\<lambda>w. finish A (test_output_builder w))) status) (\<lambda>(test_outputs, b).
     seq (modify (\<lambda>w. w\<lparr>test_output_builder := b\<rparr>)) (\<lambda>_.
     status (make_table A (array_length A test_names) [test_names, test_outputs])))))"

text \<open>
  \<open>PopulateMap\<close> reads as many rows as the table has out of the first chunk of its two columns.
\<close>

fun populate_rows ::
  "('b, 'a, 't, 'i, 'fs, 'e) arrow_api \<Rightarrow> 'a \<Rightarrow> 'a \<Rightarrow> nat list \<Rightarrow> (string \<Rightarrow> string option) \<Rightarrow>
   ('b, 'fs, 'e, string \<Rightarrow> string option) recipe_action" where
  "populate_rows A ns os [] values = ret values"
| "populate_rows A ns os (i # is) values =
     (case (get_string A ns i, get_string A os i) of
        (Some n, Some out) \<Rightarrow> populate_rows A ns os is (values(n \<mapsto> out))
      | _ \<Rightarrow> raise UB)"

definition PopulateMap ::
  "('b, 'a, 't, 'i, 'fs, 'e) arrow_api \<Rightarrow> 't \<Rightarrow> (string \<Rightarrow> string option) \<Rightarrow>
   ('b, 'fs, 'e, string \<Rightarrow> string option) recipe_action" where
  "PopulateMap A table values =
     (if num_rows A table = 0 then ret values
      else (case (column_chunks A table 0, column_chunks A table 1) of
              (table_names # _, table_outputs # _) \<Rightarrow>
                populate_rows A table_names table_outputs [0..<num_rows A table] values
            | _ \<Rightarrow> raise UB))"

text \<open>
  The loop over the \<open>unordered_map\<close> appends its pairs to two builders, in an order that is not
  specified: \<open>order\<close> lists them.
\<close>

fun append_pairs ::
  "('b, 'a, 't, 'i, 'fs, 'e) arrow_api \<Rightarrow> (string \<times> string) list \<Rightarrow> 'b \<Rightarrow> 'b \<Rightarrow>
   ('b, 'fs, 'e, 'b \<times> 'b) recipe_action" where
  "append_pairs A [] nb ob = ret (nb, ob)"
| "append_pairs A ((n, out) # ps) nb ob =
     seq (status (append_string A n nb)) (\<lambda>nb.
     seq (status (append_string A out ob)) (\<lambda>ob. append_pairs A ps nb ob))"

definition MergeRecipeTables ::
  "('b, 'a, 't, 'i, 'fs, 'e) arrow_api \<Rightarrow> ((string \<Rightarrow> string option) \<Rightarrow> (string \<times> string) list) \<Rightarrow> 't \<Rightarrow> 't \<Rightarrow>
   ('b, 'fs, 'e, 't) recipe_action" where
  "MergeRecipeTables A order old_table new_table =
     seq (PopulateMap A old_table Map.empty) (\<lambda>values.
     seq (PopulateMap A new_table values) (\<lambda>values.
     seq (append_pairs A (order values) (new_builder A) (new_builder A)) (\<lambda>(nb, ob).
     seq (status (finish A nb)) (\<lambda>(names_arr, _).
     seq (status (finish A ob)) (\<lambda>(outputs_arr, _).
     status (make_table A (array_length A names_arr) [names_arr, outputs_arr]))))))"

definition DumpRecipeOutput ::
  "('b, 'a, 't, 'i, 'fs, 'e) arrow_api \<Rightarrow> ((string \<Rightarrow> string option) \<Rightarrow> (string \<times> string) list) \<Rightarrow> string \<Rightarrow>
   ('b, 'fs, 'e, unit) recipe_action" where
  "DumpRecipeOutput A order output_filename =
     seq (CreateRecipeOutputTable A) (\<lambda>new_table.
     seq (LoadExistingRecipeOutputTable A output_filename) (\<lambda>old_table.
     seq (MergeRecipeTables A order old_table new_table) (\<lambda>merged_table.
     seq (file_op (open_output_stream A output_filename)) (\<lambda>_.
     seq (file_op (write_table A output_filename merged_table)) (\<lambda>_.
     file_op (close_writer A output_filename))))))"

text \<open>
  \<open>main\<close> after the tests returned \<open>retval\<close>: its exit status. (Undefined behaviour has none.)
\<close>

definition main_cookbook ::
  "('b, 'a, 't, 'i, 'fs, 'e) arrow_api \<Rightarrow> ((string \<Rightarrow> string option) \<Rightarrow> (string \<times> string) list) \<Rightarrow> int \<Rightarrow>
   ('b, 'fs) recipes \<Rightarrow> int option \<times> ('b, 'fs) recipes" where
  "main_cookbook A order retval w =
     (if retval = 0 \<and> HasRecipeOutput A w then
        (case DumpRecipeOutput A order ''recipes_out.arrow'' w of
           (Inr (), w') \<Rightarrow> (Some retval, w')
         | (Inl (Status st), w') \<Rightarrow> (Some (- 1), w')
         | (Inl UB, w') \<Rightarrow> (None, w'))
      else (Some retval, w))"

section \<open>Finding the test data\<close>

text \<open>
  Paths of \<open>std::filesystem\<close>: whether there is a root directory, and the components after it.
  The parent of the root directory is the root directory itself.
\<close>

record fs_path =
  has_root :: bool
  components :: "string list"

definition parent_path :: "fs_path \<Rightarrow> fs_path" where
  "parent_path p = (if components p = [] then p else p\<lparr>components := butlast (components p)\<rparr>)"

definition has_parent_path :: "fs_path \<Rightarrow> bool" where
  "has_parent_path p \<longleftrightarrow> has_root (parent_path p) \<or> components (parent_path p) \<noteq> []"

definition path_append :: "fs_path \<Rightarrow> string \<Rightarrow> fs_path" where
  "path_append p c = p\<lparr>components := components p @ [c]\<rparr>"

text \<open>How the search fails: with the status \<open>Invalid\<close> and its message, or with what \<open>std::filesystem::exists\<close> throws.\<close>

datatype search_failure = Not_located string | Exists_throws string

partial_function (option) find_test_data ::
  "(fs_path \<Rightarrow> string + bool) \<Rightarrow> string \<Rightarrow> fs_path \<Rightarrow> (search_failure + fs_path) option" where
  "find_test_data exists test_data_name path_iter =
     (if has_parent_path path_iter then
        (case exists (path_append path_iter ''testdata'') of
           Inl what \<Rightarrow> Some (Inl (Exists_throws what))
         | Inr found \<Rightarrow>
             if found then Some (Inr (path_append (path_append path_iter ''testdata'') test_data_name))
             else find_test_data exists test_data_name (parent_path path_iter))
      else Some (Inl (Not_located
        ''Could not locate testdata directory.  Tests must be run inside of the cookbook repo'')))"

definition FindTestDataFile ::
  "(fs_path \<Rightarrow> string + bool) \<Rightarrow> fs_path \<Rightarrow> string \<Rightarrow> (search_failure + fs_path) option" where
  "FindTestDataFile exists current_path test_data_name = find_test_data exists test_data_name current_path"

section \<open>Finding the test data: properties\<close>

definition up :: "nat \<Rightarrow> fs_path \<Rightarrow> fs_path" where
  "up k p = p\<lparr>components := take (length (components p) - k) (components p)\<rparr>"

definition testdata_at :: "(fs_path \<Rightarrow> string + bool) \<Rightarrow> fs_path \<Rightarrow> nat \<Rightarrow> string + bool" where
  "testdata_at exists p k = exists (path_append (up k p) ''testdata'')"

lemma has_root_parent [simp]: "has_root (parent_path p) = has_root p"
  by (simp add: parent_path_def)

lemma has_parent_path_absolute: "has_root p \<Longrightarrow> has_parent_path p"
  by (simp add: has_parent_path_def)

lemma up_0 [simp]: "up 0 p = p"
  by (simp add: up_def)

lemma up_parent: "up k (parent_path p) = up (Suc k) p"
  by (cases "components p = []") (simp_all add: up_def parent_path_def butlast_conv_take min_def)

text \<open>What a search that ends found at the first directory, counted upwards, for which \<open>exists\<close> did not say no.\<close>

definition search_result :: "(fs_path \<Rightarrow> string + bool) \<Rightarrow> fs_path \<Rightarrow> string \<Rightarrow> search_failure + fs_path \<Rightarrow> bool" where
  "search_result exists p n r \<longleftrightarrow> (\<exists>k. (\<forall>j<k. testdata_at exists p j = Inr False) \<and>
     (case testdata_at exists p k of
        Inl what \<Rightarrow> r = Inl (Exists_throws what)
      | Inr found \<Rightarrow> found \<and> r = Inr (path_append (path_append (up k p) ''testdata'') n)))"

lemma testdata_at_parent: "testdata_at exists (parent_path p) j = testdata_at exists p (Suc j)"
  by (simp add: testdata_at_def up_parent)

lemma search_result_here:
  "testdata_at exists p 0 = Inl what \<Longrightarrow> search_result exists p n (Inl (Exists_throws what))"
  "testdata_at exists p 0 = Inr True \<Longrightarrow> search_result exists p n (Inr (path_append (path_append p ''testdata'') n))"
  unfolding search_result_def by (rule exI [of _ 0], simp)+

lemma search_result_above:
  assumes "testdata_at exists p 0 = Inr False" "search_result exists (parent_path p) n r"
  shows "search_result exists p n r"
proof -
  obtain k where k: "\<forall>j<k. testdata_at exists p (Suc j) = Inr False"
    "case testdata_at exists p (Suc k) of Inl what \<Rightarrow> r = Inl (Exists_throws what)
     | Inr found \<Rightarrow> found \<and> r = Inr (path_append (path_append (up (Suc k) p) ''testdata'') n)"
    using assms(2) unfolding search_result_def testdata_at_parent up_parent by blast
  have "testdata_at exists p j = Inr False" if "j < Suc k" for j
    using that k(1) assms(1) by (cases j) auto
  then show ?thesis using k(2) unfolding search_result_def by blast
qed

lemma find_test_data_result:
  assumes "find_test_data exists n p = Some r"
  shows "has_root p \<longrightarrow> search_result exists p n r"
proof (rule find_test_data.raw_induct [OF _ assms, where P = "\<lambda>exists n p r. has_root p \<longrightarrow> search_result exists p n r"], intro impI)
  fix find :: "(fs_path \<Rightarrow> string + bool) \<Rightarrow> string \<Rightarrow> fs_path \<Rightarrow> (search_failure + fs_path) option" and "exists" n p r
  assume IH: "\<And>exists n p r. find exists n p = Some r \<Longrightarrow> has_root p \<longrightarrow> search_result exists p n r"
    and step: "(if has_parent_path p then
        (case exists (path_append p ''testdata'') of
           Inl what \<Rightarrow> Some (Inl (Exists_throws what))
         | Inr found \<Rightarrow>
             if found then Some (Inr (path_append (path_append p ''testdata'') n))
             else find exists n (parent_path p))
      else Some (Inl (Not_located
        ''Could not locate testdata directory.  Tests must be run inside of the cookbook repo''))) = Some r"
    and root: "has_root p"
  show "search_result exists p n r"
  proof (cases "testdata_at exists p 0")
    case (Inl what)
    then show ?thesis
      using step root search_result_here(1) [OF Inl] by (simp add: has_parent_path_absolute testdata_at_def)
  next
    case (Inr found)
    show ?thesis
    proof (cases found)
      case True
      then show ?thesis
        using step root Inr search_result_here(2) by (force simp: has_parent_path_absolute testdata_at_def)
    next
      case False
      then have "find exists n (parent_path p) = Some r"
        using step root Inr by (simp add: has_parent_path_absolute testdata_at_def)
      then have "search_result exists (parent_path p) n r" using IH root by simp
      then show ?thesis using Inr False by (simp add: search_result_above)
    qed
  qed
qed

lemma find_test_data_finds:
  "has_root p \<Longrightarrow> testdata_at exists p k \<noteq> Inr False \<Longrightarrow> \<exists>r. find_test_data exists n p = Some r"
proof (induction k arbitrary: p)
  case 0
  then show ?case
    by (subst find_test_data.simps) (auto simp: has_parent_path_absolute testdata_at_def split: sum.splits)
next
  case (Suc k)
  then have "\<exists>r. find_test_data exists n (parent_path p) = Some r"
    by (simp add: testdata_at_parent)
  then show ?case
    using Suc.prems(1) by (subst find_test_data.simps) (auto simp: has_parent_path_absolute split: sum.splits)
qed

text \<open>C18: from an absolute current directory, the search returns exactly when the directory or one above it has a
  \<open>testdata\<close> entry (or asking for one throws), and then the path under the nearest one; it never returns the error, and
  does not return at all otherwise, since the root directory has a parent path, itself.\<close>

theorem FindTestDataFile_result:
  assumes "has_root current_path"
  shows "case FindTestDataFile exists current_path name of
      None \<Rightarrow> \<forall>k. testdata_at exists current_path k = Inr False
    | Some (Inl f) \<Rightarrow> \<exists>k what. testdata_at exists current_path k = Inl what \<and>
        (\<forall>j<k. testdata_at exists current_path j = Inr False) \<and> f = Exists_throws what
    | Some (Inr path) \<Rightarrow> \<exists>k. testdata_at exists current_path k = Inr True \<and>
        (\<forall>j<k. testdata_at exists current_path j = Inr False) \<and>
        path = path_append (path_append (up k current_path) ''testdata'') name"
proof (cases "find_test_data exists name current_path")
  case None
  then show ?thesis
    using find_test_data_finds [OF assms, of "exists" _ name] by (auto simp: FindTestDataFile_def)
next
  case (Some r)
  then obtain k where k: "\<forall>j<k. testdata_at exists current_path j = Inr False"
    "case testdata_at exists current_path k of Inl what \<Rightarrow> r = Inl (Exists_throws what)
     | Inr found \<Rightarrow> found \<and> r = Inr (path_append (path_append (up k current_path) ''testdata'') name)"
    using find_test_data_result [OF Some] assms unfolding search_result_def by blast
  then show ?thesis
    using Some by (cases "testdata_at exists current_path k") (auto simp: FindTestDataFile_def)
qed

theorem FindTestDataFile_result_witness:
  "FindTestDataFile (\<lambda>p. Inr (components p = [''repo'', ''testdata''])) \<lparr>has_root = True, components = [''repo'', ''build'']\<rparr> ''a.parquet''
     = Some (Inr \<lparr>has_root = True, components = [''repo'', ''testdata'', ''a.parquet'']\<rparr>) \<and>
   FindTestDataFile (\<lambda>p. Inr False) \<lparr>has_root = True, components = [''tmp'']\<rparr> ''a.parquet'' = None"
proof
  show "FindTestDataFile (\<lambda>p. Inr (components p = [''repo'', ''testdata''])) \<lparr>has_root = True, components = [''repo'', ''build'']\<rparr> ''a.parquet''
     = Some (Inr \<lparr>has_root = True, components = [''repo'', ''testdata'', ''a.parquet'']\<rparr>)"
    by (simp add: FindTestDataFile_def find_test_data.simps has_parent_path_def parent_path_def path_append_def)
  show "FindTestDataFile (\<lambda>p. Inr False) \<lparr>has_root = True, components = [''tmp'']\<rparr> ''a.parquet'' = None"
    using FindTestDataFile_result [of "\<lparr>has_root = True, components = [''tmp'']\<rparr>" "\<lambda>p. Inr False" "''a.parquet''"]
    by (auto simp: testdata_at_def split: option.splits sum.splits)
qed

section \<open>What Arrow promises\<close>

text \<open>
  \<open>bs\<close> and \<open>as\<close> are the texts a builder and an array hold. A builder appends at its end; \<open>Finish\<close>
  gives an array of what was appended and empties the builder; a table made of one batch has one
  chunk in each column.
\<close>

definition arrow_laws ::
  "('b, 'a, 't, 'i, 'fs, 'e) arrow_api \<Rightarrow> ('b \<Rightarrow> string list) \<Rightarrow> ('a \<Rightarrow> string list) \<Rightarrow> bool" where
  "arrow_laws A bs as \<longleftrightarrow>
     bs (new_builder A) = [] \<and>
     (\<forall>s b b'. append_string A s b = Inr b' \<longrightarrow> bs b' = bs b @ [s]) \<and>
     (\<forall>b a b'. finish A b = Inr (a, b') \<longrightarrow> as a = bs b \<and> bs b' = []) \<and>
     (\<forall>b. builder_length A b = length (bs b)) \<and>
     (\<forall>a. array_length A a = length (as a)) \<and>
     (\<forall>a i. get_string A a i = (if i < length (as a) then Some (as a ! i) else None)) \<and>
     (\<forall>n arrs t. make_table A n arrs = Inr t \<longrightarrow>
        num_rows A t = n \<and> (\<forall>i<length arrs. column_chunks A t i = [arrs ! i]))"

text \<open>A table of names and outputs held in one chunk.\<close>

definition recipe_rows ::
  "('b, 'a, 't, 'i, 'fs, 'e) arrow_api \<Rightarrow> ('a \<Rightarrow> string list) \<Rightarrow> 't \<Rightarrow> (string \<times> string) list \<Rightarrow> bool" where
  "recipe_rows A as t rows \<longleftrightarrow> num_rows A t = length rows \<and>
     (\<exists>ns os. column_chunks A t 0 = [ns] \<and> column_chunks A t 1 = [os] \<and>
        as ns = map fst rows \<and> as os = map snd rows)"

text \<open>The order in which the hash map is traversed: each pair once.\<close>

definition lists_map :: "((string \<Rightarrow> string option) \<Rightarrow> (string \<times> string) list) \<Rightarrow> bool" where
  "lists_map order \<longleftrightarrow> (\<forall>m. finite (dom m) \<longrightarrow> distinct (map fst (order m)) \<and> map_of (order m) = m)"

lemma arrow_lawsD:
  assumes "arrow_laws A bs as"
  shows "bs (new_builder A) = []"
    and "append_string A s b = Inr b' \<Longrightarrow> bs b' = bs b @ [s]"
    and "finish A b = Inr (a, b') \<Longrightarrow> as a = bs b \<and> bs b' = []"
    and "builder_length A b = length (bs b)"
    and "array_length A a = length (as a)"
    and "get_string A a i = (if i < length (as a) then Some (as a ! i) else None)"
    and "make_table A n arrs = Inr t \<Longrightarrow> num_rows A t = n"
    and "make_table A n arrs = Inr t \<Longrightarrow> i < length arrs \<Longrightarrow> column_chunks A t i = [arrs ! i]"
  using assms unfolding arrow_laws_def by blast+

section \<open>Recording\<close>

definition recipe ::
  "('b, 'a, 't, 'i, 'fs, 'e) arrow_api \<Rightarrow> ('e \<Rightarrow> string) \<Rightarrow> string \<times> string \<Rightarrow> ('b, 'fs) recipes \<Rightarrow> ('b, 'fs) recipes"
where
  "recipe A to_string r w =
     EndRecipe A to_string (fst r) (rout_write (snd r) (StartRecipe (fst r) w))"

definition recorded :: "('b \<Rightarrow> string list) \<Rightarrow> ('b, 'fs) recipes \<Rightarrow> (string \<times> string) list \<Rightarrow> bool" where
  "recorded bs w rows \<longleftrightarrow> bs (test_names_builder w) = map fst rows \<and> bs (test_output_builder w) = map snd rows"

lemma recipe_recorded:
  assumes "arrow_laws A bs as" and total: "\<And>s b. \<exists>b'. append_string A s b = Inr b'"
    and "fst r \<noteq> []" "current_recipe w = []" "recorded bs w rows"
  shows "recorded bs (recipe A ts r w) (rows @ [r]) \<and> current_recipe (recipe A ts r w) = [] \<and>
    test_failures (recipe A ts r w) = test_failures w \<and> files (recipe A ts r w) = files w"
proof -
  obtain n out where r: "r = (n, out)" "n \<noteq> []" using assms(3) by (cases r) auto
  obtain b1 where b1: "append_string A n (test_names_builder w) = Inr b1" using total by blast
  obtain b2 where b2: "append_string A out (test_output_builder w) = Inr b2" using total by blast
  have "recipe A ts r w = w\<lparr>rout := out, test_names_builder := b1, test_output_builder := b2, current_recipe := []\<rparr>"
    using r b1 b2 assms(4)
    by (simp add: recipe_def EndRecipe_def StartRecipe_def rout_write_def ASSERT_OK_def Let_def)
  then show ?thesis
    using arrow_lawsD(2) [OF assms(1) b1] arrow_lawsD(2) [OF assms(1) b2] assms(4,5) r
    by (simp add: recorded_def)
qed

text \<open>With builders that do not fail, recipes that are started and ended one after the other
  are recorded with exactly the output each wrote, in order, and no failure is recorded.\<close>

theorem recipes_are_recorded:
  assumes "arrow_laws A bs as" "\<And>s b. \<exists>b'. append_string A s b = Inr b'"
    and "\<forall>r\<in>set rs. fst r \<noteq> []"
  shows "recorded bs (fold (recipe A ts) rs (recipes_init A fs)) rs \<and>
    current_recipe (fold (recipe A ts) rs (recipes_init A fs)) = [] \<and>
    test_failures (fold (recipe A ts) rs (recipes_init A fs)) = []"
proof -
  have "recorded bs (fold (recipe A ts) rs w) (rows @ rs) \<and> current_recipe (fold (recipe A ts) rs w) = [] \<and>
      test_failures (fold (recipe A ts) rs w) = test_failures w"
    if "current_recipe w = []" "recorded bs w rows" for rows w
    using that assms(3)
  proof (induction rs arbitrary: w rows)
    case (Cons r rs)
    have r: "recorded bs (recipe A ts r w) (rows @ [r])" "current_recipe (recipe A ts r w) = []"
        "test_failures (recipe A ts r w) = test_failures w"
      using recipe_recorded [OF assms(1,2) _ Cons.prems(1,2)] Cons.prems(3) by simp_all
    then show ?case using Cons.IH [OF r(2,1)] Cons.prems(3) by simp
  qed simp
  from this [of "recipes_init A fs" "[]"] show ?thesis
    using arrow_lawsD(1) [OF assms(1)] by (simp add: recipes_init_def recorded_def)
qed

text \<open>Out of order, \<open>StartRecipe\<close> and \<open>EndRecipe\<close> record a failure and change nothing else.\<close>

lemma recipes_out_of_order:
  assumes "current_recipe w \<noteq> []"
  shows "(\<exists>msg. StartRecipe n w = FAIL msg w) \<and>
    (n \<noteq> current_recipe w \<longrightarrow> (\<exists>msg. EndRecipe A ts n w = FAIL msg w))"
  using assms by (auto simp: StartRecipe_def EndRecipe_def)

text \<open>But ending a recipe without a name succeeds when none is in progress.\<close>

lemma nameless_recipe_is_recorded:
  assumes "arrow_laws A bs as" "\<And>s b. \<exists>b'. append_string A s b = Inr b'" "recorded bs w rows"
    "current_recipe w = []"
  shows "recorded bs (EndRecipe A ts [] w) (rows @ [([], rout w)]) \<and>
    test_failures (EndRecipe A ts [] w) = test_failures w"
proof -
  obtain b1 where b1: "append_string A [] (test_names_builder w) = Inr b1" using assms(2) by blast
  obtain b2 where b2: "append_string A (rout w) (test_output_builder w) = Inr b2" using assms(2) by blast
  show ?thesis
    using arrow_lawsD(2) [OF assms(1) b1] arrow_lawsD(2) [OF assms(1) b2] assms(3,4) b1 b2
    by (simp add: recorded_def EndRecipe_def ASSERT_OK_def Let_def)
qed

section \<open>Merging\<close>

lemma status_run [simp]: "status (Inr x) w = (Inr x, w)" "status (Inl e) w = (Inl (Status e), w)"
  by (simp_all add: status_def)

lemma status_InrD: "status r w = (Inr x, w') \<Longrightarrow> r = Inr x \<and> w' = w"
  by (cases r) auto

lemma populate_rows_eq:
  assumes "arrow_laws A bs as" "as ns = map fst rows" "as os = map snd rows" "set is \<subseteq> {..<length rows}"
  shows "populate_rows A ns os is m w = (Inr (m ++ map_of (rev (map (\<lambda>i. rows ! i) is))), w)"
  using assms(4)
proof (induction "is" arbitrary: m)
  case Nil
  then show ?case by simp
next
  case (Cons i "is")
  have g: "get_string A ns i = Some (fst (rows ! i))" "get_string A os i = Some (snd (rows ! i))"
    using Cons.prems assms(2,3) by (simp_all add: arrow_lawsD(6) [OF assms(1)])
  show ?case
    using Cons g by (simp add: map_add_assoc map_of_append map_add_upds split: prod.splits)
qed

lemma PopulateMap_eq:
  assumes "arrow_laws A bs as" "recipe_rows A as t rows"
  shows "PopulateMap A t m w = (Inr (m ++ map_of (rev rows)), w)"
proof (cases "rows = []")
  case True
  then show ?thesis using assms(2) by (simp add: PopulateMap_def recipe_rows_def)
next
  case False
  obtain ns os where t: "num_rows A t = length rows" "column_chunks A t 0 = [ns]" "column_chunks A t 1 = [os]"
      "as ns = map fst rows" "as os = map snd rows"
    using assms(2) by (auto simp: recipe_rows_def)
  have "set [0..<length rows] \<subseteq> {..<length rows}" by auto
  from populate_rows_eq [OF assms(1) t(4,5) this, of m w] show ?thesis
    using t False by (simp add: PopulateMap_def map_nth)
qed

lemma append_pairs_ok:
  assumes "arrow_laws A bs as" "append_pairs A ps nb ob w = (Inr (nb', ob'), w')"
  shows "bs nb' = bs nb @ map fst ps \<and> bs ob' = bs ob @ map snd ps \<and> w' = w"
  using assms(2)
proof (induction ps arbitrary: nb ob)
  case Nil
  then show ?case by simp
next
  case (Cons p ps)
  obtain n out where p: "p = (n, out)" by (cases p)
  obtain b1 where b1: "append_string A n nb = Inr b1"
    using Cons.prems by (cases "append_string A n nb") (auto simp: p)
  obtain b2 where b2: "append_string A out ob = Inr b2"
    using Cons.prems b1 by (cases "append_string A out ob") (auto simp: p)
  have "append_pairs A ps b1 b2 w = (Inr (nb', ob'), w')"
    using Cons.prems b1 b2 by (simp add: p)
  then show ?case
    using Cons.IH arrow_lawsD(2) [OF assms(1) b1] arrow_lawsD(2) [OF assms(1) b2] by (simp add: p)
qed

lemma append_pairs_no_UB: "append_pairs A ps nb ob w \<noteq> (Inl UB, w')"
proof (induction ps arbitrary: nb ob)
  case (Cons p ps)
  obtain n out where p: "p = (n, out)" by (cases p)
  show ?case
    using Cons.IH by (cases "append_string A n nb"; cases "append_string A out ob") (simp_all add: p)
qed simp

lemma make_table_rows:
  assumes "arrow_laws A bs as" "make_table A (array_length A na) [na, oa] = Inr t"
    "as na = map fst rows" "as oa = map snd rows"
  shows "recipe_rows A as t rows"
proof -
  have "num_rows A t = length rows"
    using arrow_lawsD(7) [OF assms(1,2)] arrow_lawsD(5) [OF assms(1)] assms(3) by simp
  then show ?thesis
    using arrow_lawsD(8) [OF assms(1,2), of 0] arrow_lawsD(8) [OF assms(1,2), of 1] assms(3,4)
    by (auto simp: recipe_rows_def)
qed

lemma finish_status_cases:
  obtains (ok) a b' where "finish A b = Inr (a, b')" | (err) e where "finish A b = Inl e"
  by (cases "finish A b") auto

lemma append_pairs_world: "snd (append_pairs A ps nb ob w) = w"
proof (induction ps arbitrary: nb ob)
  case (Cons p ps)
  obtain n out where p: "p = (n, out)" by (cases p)
  show ?case
    using Cons.IH by (cases "append_string A n nb"; cases "append_string A out ob") (simp_all add: p)
qed simp

text \<open>The last steps of a merge: two arrays and the table of them.\<close>

definition table_of_builders ::
  "('b, 'a, 't, 'i, 'fs, 'e) arrow_api \<Rightarrow> 'b \<Rightarrow> 'b \<Rightarrow> ('b, 'fs, 'e, 't) recipe_action" where
  "table_of_builders A nb ob =
     seq (status (finish A nb)) (\<lambda>(names_arr, _).
     seq (status (finish A ob)) (\<lambda>(outputs_arr, _).
     status (make_table A (array_length A names_arr) [names_arr, outputs_arr])))"

lemma table_of_builders_rows:
  assumes A: "arrow_laws A bs as" and b: "bs nb = map fst ps" "bs ob = map snd ps"
  shows "case table_of_builders A nb ob w of
      (Inr t, w') \<Rightarrow> w' = w \<and> recipe_rows A as t ps
    | (Inl f, w') \<Rightarrow> w' = w \<and> f \<noteq> UB"
proof (cases rule: finish_status_cases [of A nb])
  case (ok na nb')
  note na = ok
  show ?thesis
  proof (cases rule: finish_status_cases [of A ob])
    case (ok oa ob')
    have "as na = map fst ps" "as oa = map snd ps"
      using arrow_lawsD(3) [OF A na] arrow_lawsD(3) [OF A ok] b by simp_all
    then show ?thesis
      using make_table_rows [OF A]
      by (cases "make_table A (array_length A na) [na, oa]") (auto simp: table_of_builders_def na ok)
  qed (simp add: table_of_builders_def na)
qed (simp add: table_of_builders_def)

text \<open>Merging gives a table with each recipe once, the new table's output winning over the old
  one's and a later row over an earlier one, whatever the order of the hash map; on tables of one
  chunk it can fail only with a status, and never reads out of range.\<close>

theorem MergeRecipeTables_merges:
  assumes A: "arrow_laws A bs as" and o': "lists_map order"
    and old: "recipe_rows A as told old" and new: "recipe_rows A as tnew new"
  shows "case MergeRecipeTables A order told tnew w of
      (Inr t, w') \<Rightarrow> w' = w \<and> (\<exists>rows. recipe_rows A as t rows \<and> distinct (map fst rows) \<and>
        map_of rows = map_of (rev old) ++ map_of (rev new))
    | (Inl f, w') \<Rightarrow> w' = w \<and> f \<noteq> UB"
proof -
  let ?m = "map_of (rev old) ++ map_of (rev new)"
  have ord: "distinct (map fst (order ?m))" "map_of (order ?m) = ?m"
    using o' unfolding lists_map_def by (simp_all add: finite_dom_map_of)
  have e: "MergeRecipeTables A order told tnew w =
     seq (append_pairs A (order ?m) (new_builder A) (new_builder A)) (\<lambda>(nb, ob). table_of_builders A nb ob) w"
    using PopulateMap_eq [OF A old, of Map.empty w] PopulateMap_eq [OF A new, of "map_of (rev old)" w]
    by (simp add: MergeRecipeTables_def table_of_builders_def)
  obtain r where r: "append_pairs A (order ?m) (new_builder A) (new_builder A) w = (r, w)"
    using append_pairs_world [of A "order ?m" "new_builder A" "new_builder A" w] by (metis prod.collapse)
  show ?thesis
  proof (cases r)
    case (Inl f)
    then show ?thesis using append_pairs_no_UB [of A "order ?m"] r by (auto simp: e)
  next
    case (Inr q)
    obtain nb ob where q: "q = (nb, ob)" by (cases q)
    have "bs nb = map fst (order ?m)" "bs ob = map snd (order ?m)"
      using append_pairs_ok [OF A, of "order ?m" "new_builder A" "new_builder A" w nb ob w] r Inr q
        arrow_lawsD(1) [OF A] by simp_all
    note rows = table_of_builders_rows [OF A this, of w]
    have "MergeRecipeTables A order told tnew w = table_of_builders A nb ob w" using r Inr q by (simp add: e)
    then show ?thesis using rows ord by (auto split: prod.splits sum.splits)
  qed
qed

section \<open>Dumping\<close>

text \<open>A file to which a stream with one non-empty table of one-chunk columns has been written reads
  back as a table with the same contents.\<close>

definition file_laws ::
  "('b, 'a, 't, 'i, 'fs, 'e) arrow_api \<Rightarrow> ('a \<Rightarrow> string list) \<Rightarrow> bool" where
  "file_laws A as \<longleftrightarrow>
     (\<forall>f t rows fs fs1 fs2 fs3. open_output_stream A f fs = (Inr (), fs1) \<and> write_table A f t fs1 = (Inr (), fs2) \<and>
        close_writer A f fs2 = (Inr (), fs3) \<and> recipe_rows A as t rows \<and> rows \<noteq> [] \<longrightarrow>
        (\<exists>i t'. open_input_file A f fs3 = Inr i \<and> read_stream A i = Inr t' \<and> recipe_rows A as t' rows))"

text \<open>The rows of the output file before the dump; a file that cannot be opened has none.\<close>

definition file_rows ::
  "('b, 'a, 't, 'i, 'fs, 'e) arrow_api \<Rightarrow> ('a \<Rightarrow> string list) \<Rightarrow> string \<Rightarrow> 'fs \<Rightarrow> (string \<times> string) list \<Rightarrow> bool" where
  "file_rows A as f fs rows \<longleftrightarrow>
     (case open_input_file A f fs of
        Inl e \<Rightarrow> rows = []
      | Inr i \<Rightarrow> \<exists>t. read_stream A i = Inr t \<and> recipe_rows A as t rows)"

lemma MakeEmptyStringArray_ok:
  assumes "arrow_laws A bs as" "MakeEmptyStringArray A w = (Inr a, w')"
  shows "as a = [] \<and> w' = w"
  using assms(2) arrow_lawsD(1) [OF assms(1)] arrow_lawsD(3) [OF assms(1), of "new_builder A" a]
  by (cases "finish A (new_builder A)") (auto simp: MakeEmptyStringArray_def)

lemma MakeEmptyRecipesTable_ok:
  assumes A: "arrow_laws A bs as" and m: "MakeEmptyRecipesTable A w = (Inr t, w')"
  shows "recipe_rows A as t [] \<and> w' = w"
proof -
  obtain a w1 where a: "MakeEmptyStringArray A w = (Inr a, w1)"
      "seq (MakeEmptyStringArray A) (\<lambda>b. status (make_table A 0 [a, b])) w1 = (Inr t, w')"
    using m unfolding MakeEmptyRecipesTable_def by (rule seq_InrE)
  obtain b w2 where b: "MakeEmptyStringArray A w1 = (Inr b, w2)" "status (make_table A 0 [a, b]) w2 = (Inr t, w')"
    using a(2) by (rule seq_InrE)
  have e: "as a = []" "as b = []" "w2 = w"
    using MakeEmptyStringArray_ok [OF A a(1)] MakeEmptyStringArray_ok [OF A b(1)] by simp_all
  have t: "make_table A (array_length A a) [a, b] = Inr t" "w' = w"
    using status_InrD [OF b(2)] e arrow_lawsD(5) [OF A, of a] by simp_all
  show ?thesis using make_table_rows [OF A t(1), of "[]"] e t(2) by simp
qed

lemma LoadExisting_ok:
  assumes A: "arrow_laws A bs as" and f: "file_rows A as f (files w) rows"
    and l: "LoadExistingRecipeOutputTable A f w = (Inr t, w')"
  shows "recipe_rows A as t rows \<and> w' = w"
proof (cases "open_input_file A f (files w)")
  case (Inl e)
  then show ?thesis
    using f l MakeEmptyRecipesTable_ok [OF A, of w t w']
    by (simp add: file_rows_def LoadExistingRecipeOutputTable_def)
next
  case (Inr i)
  then show ?thesis
    using f l by (auto simp: file_rows_def LoadExistingRecipeOutputTable_def ReadRecipeTable_def)
qed

lemma CreateRecipeOutputTable_ok:
  assumes A: "arrow_laws A bs as" and rec: "recorded bs w rows"
    and c: "CreateRecipeOutputTable A w = (Inr t, w')"
  shows "recipe_rows A as t rows \<and> recorded bs w' [] \<and> files w' = files w"
proof (cases rule: finish_status_cases [of A "test_names_builder w"])
  case (err e)
  then show ?thesis using c by (simp add: CreateRecipeOutputTable_def seq_assoc)
next
  case (ok na nb)
  note n = ok
  show ?thesis
  proof (cases rule: finish_status_cases [of A "test_output_builder w"])
    case (err e)
    then show ?thesis using c by (simp add: CreateRecipeOutputTable_def seq_assoc n)
  next
    case (ok oa ob)
    have as': "as na = map fst rows" "as oa = map snd rows" "bs nb = []" "bs ob = []"
      using arrow_lawsD(3) [OF A n] arrow_lawsD(3) [OF A ok] rec by (simp_all add: recorded_def)
    have r: "status (make_table A (array_length A na) [na, oa])
        (w\<lparr>test_names_builder := nb, test_output_builder := ob\<rparr>) = (Inr t, w')"
      using c by (simp add: CreateRecipeOutputTable_def seq_assoc n ok)
    show ?thesis
      using status_InrD [OF r] make_table_rows [OF A _ as'(1,2)] as'(3,4) by (simp add: recorded_def)
  qed
qed

lemma file_op_InrD:
  assumes "file_op f w = (Inr x, w')"
  shows "f (files w) = (Inr x, files w') \<and> w' = w\<lparr>files := files w'\<rparr>"
proof (cases "f (files w)")
  case (Pair r fs)
  then show ?thesis using assms status_InrD [of r "w\<lparr>files := fs\<rparr>" x w'] by (simp add: file_op_def)
qed

lemma dump_result:
  assumes A: "arrow_laws A bs as" and F: "file_laws A as" and o': "lists_map order"
    and rec: "recorded bs w new" "new \<noteq> []" and old: "file_rows A as f (files w) old"
    and dump: "DumpRecipeOutput A order f w = (Inr (), w')"
  shows "\<exists>rows. file_rows A as f (files w') rows \<and> distinct (map fst rows) \<and>
    map_of rows = map_of (rev old) ++ map_of (rev new) \<and> \<not> HasRecipeOutput A w'"
proof -
  obtain tn w1 where c: "CreateRecipeOutputTable A w = (Inr tn, w1)"
    and d1: "seq (LoadExistingRecipeOutputTable A f) (\<lambda>old_table.
     seq (MergeRecipeTables A order old_table tn) (\<lambda>merged_table.
     seq (file_op (open_output_stream A f)) (\<lambda>_.
     seq (file_op (write_table A f merged_table)) (\<lambda>_.
     file_op (close_writer A f))))) w1 = (Inr (), w')"
    using dump unfolding DumpRecipeOutput_def by (rule seq_InrE)
  have c': "recipe_rows A as tn new" "recorded bs w1 []" "files w1 = files w"
    using CreateRecipeOutputTable_ok [OF A rec(1) c] by simp_all
  obtain told w2 where l: "LoadExistingRecipeOutputTable A f w1 = (Inr told, w2)"
    and d2: "seq (MergeRecipeTables A order told tn) (\<lambda>merged_table.
     seq (file_op (open_output_stream A f)) (\<lambda>_.
     seq (file_op (write_table A f merged_table)) (\<lambda>_.
     file_op (close_writer A f)))) w2 = (Inr (), w')"
    using d1 by (rule seq_InrE)
  have l': "recipe_rows A as told old" "w2 = w1"
    using LoadExisting_ok [OF A _ l, of old] old c'(3) by simp_all
  obtain tm w3 where m: "MergeRecipeTables A order told tn w2 = (Inr tm, w3)"
    and d3: "seq (file_op (open_output_stream A f)) (\<lambda>_.
     seq (file_op (write_table A f tm)) (\<lambda>_. file_op (close_writer A f))) w3 = (Inr (), w')"
    using d2 by (rule seq_InrE)
  obtain rows where rows: "recipe_rows A as tm rows" "distinct (map fst rows)"
      "map_of rows = map_of (rev old) ++ map_of (rev new)" "w3 = w2"
    using MergeRecipeTables_merges [OF A o' l'(1) c'(1), of w2] m by auto
  obtain w4 where w4: "file_op (open_output_stream A f) w3 = (Inr (), w4)"
    and d4: "seq (file_op (write_table A f tm)) (\<lambda>_. file_op (close_writer A f)) w4 = (Inr (), w')"
    using d3 by (auto elim: seq_InrE)
  obtain w5 where w5: "file_op (write_table A f tm) w4 = (Inr (), w5)"
    and d5: "file_op (close_writer A f) w5 = (Inr (), w')"
    using d4 by (auto elim: seq_InrE)
  note o1 = file_op_InrD [OF w4] and o2 = file_op_InrD [OF w5] and o3 = file_op_InrD [OF d5]
  have ne: "rows \<noteq> []"
  proof
    assume "rows = []"
    then have "map_of (rev new) = Map.empty" using rows(3) by (simp add: map_add_def fun_eq_iff split: option.splits)
    then show False using rec(2) by simp
  qed
  have "\<exists>i t'. open_input_file A f (files w') = Inr i \<and> read_stream A i = Inr t' \<and> recipe_rows A as t' rows"
    using F o1 o2 o3 rows(1) ne unfolding file_laws_def by blast
  then have "file_rows A as f (files w') rows" by (auto simp: file_rows_def)
  moreover have "test_names_builder w' = test_names_builder w1"
    using o1 o2 o3 rows(4) l'(2) by (metis recipes.select_convs(1) recipes.surjective recipes.update_convs(6))
  then have "\<not> HasRecipeOutput A w'"
    using c'(2) arrow_lawsD(4) [OF A] by (simp add: HasRecipeOutput_def recorded_def)
  ultimately show ?thesis using rows by blast
qed

text \<open>C4: a dump that succeeds leaves in the file the recipes it had merged with the new ones, each
  once, new ones winning; and it empties the builders, so that there is no recipe output any more
  and \<open>main\<close> does not dump again.\<close>

theorem DumpRecipeOutput_merges:
  assumes A: "arrow_laws A bs as" and F: "file_laws A as" and o': "lists_map order"
    and rec: "recorded bs w new" "new \<noteq> []" and old: "file_rows A as f (files w) old"
    and dump: "DumpRecipeOutput A order f w = (Inr (), w')"
  shows "\<exists>rows. file_rows A as f (files w') rows \<and> distinct (map fst rows) \<and>
    map_of rows = map_of (rev old) ++ map_of (rev new) \<and> \<not> HasRecipeOutput A w'"
  using assms by (rule dump_result)

text \<open>If no call of Arrow fails, a dump into a new file succeeds.\<close>

definition never_fails :: "('b, 'a, 't, 'i, 'fs, 'e) arrow_api \<Rightarrow> bool" where
  "never_fails A \<longleftrightarrow> (\<forall>s b. \<exists>b'. append_string A s b = Inr b') \<and> (\<forall>b. \<exists>r. finish A b = Inr r) \<and>
     (\<forall>n arrs. \<exists>t. make_table A n arrs = Inr t) \<and> (\<forall>f fs. \<exists>fs'. open_output_stream A f fs = (Inr (), fs')) \<and>
     (\<forall>f t fs. \<exists>fs'. write_table A f t fs = (Inr (), fs')) \<and> (\<forall>f fs. \<exists>fs'. close_writer A f fs = (Inr (), fs'))"

lemma append_pairs_total:
  assumes "never_fails A"
  shows "\<exists>nb' ob'. append_pairs A ps nb ob w = (Inr (nb', ob'), w)"
proof (induction ps arbitrary: nb ob)
  case (Cons p ps)
  obtain n out where p: "p = (n, out)" by (cases p)
  obtain nb1 where n: "append_string A n nb = Inr nb1" using assms unfolding never_fails_def by blast
  obtain ob1 where o': "append_string A out ob = Inr ob1" using assms unfolding never_fails_def by blast
  show ?case using Cons.IH [of nb1 ob1] by (simp add: p n o')
qed simp

lemma merge_succeeds:
  assumes A: "arrow_laws A bs as" "never_fails A" and t: "recipe_rows A as told old" "recipe_rows A as tnew new"
  shows "\<exists>t. MergeRecipeTables A order told tnew w = (Inr t, w)"
proof -
  let ?m = "map_of (rev old) ++ map_of (rev new)"
  obtain nb ob where ab: "append_pairs A (order ?m) (new_builder A) (new_builder A) w = (Inr (nb, ob), w)"
    using append_pairs_total [OF A(2)] by blast
  obtain a1 b1 where f1: "finish A nb = Inr (a1, b1)" using A(2) unfolding never_fails_def by (metis surj_pair)
  obtain a2 b2 where f2: "finish A ob = Inr (a2, b2)" using A(2) unfolding never_fails_def by (metis surj_pair)
  obtain t where t': "make_table A (array_length A a1) [a1, a2] = Inr t" using A(2) unfolding never_fails_def by blast
  show ?thesis
    using PopulateMap_eq [OF A(1) t(1), of Map.empty w] PopulateMap_eq [OF A(1) t(2), of "map_of (rev old)" w] ab
    by (simp add: MergeRecipeTables_def f1 f2 t')
qed

lemma file_op_total: "\<forall>fs. \<exists>fs'. f fs = (Inr x, fs') \<Longrightarrow> \<exists>w'. file_op f w = (Inr x, w')"
  by (metis (mono_tags, lifting) case_prod_conv file_op_def status_run(1))

lemma dump_succeeds:
  assumes A: "arrow_laws A bs as" "never_fails A" and rec: "recorded bs w rows" and new: "open_input_file A f (files w) = Inl e"
  shows "\<exists>w'. DumpRecipeOutput A order f w = (Inr (), w')"
proof -
  obtain a1 b1 where f1: "finish A (test_names_builder w) = Inr (a1, b1)" using A(2) unfolding never_fails_def by (metis surj_pair)
  obtain a2 b2 where f2: "finish A (test_output_builder w) = Inr (a2, b2)" using A(2) unfolding never_fails_def by (metis surj_pair)
  obtain a3 b3 where f3: "finish A (new_builder A) = Inr (a3, b3)" using A(2) unfolding never_fails_def by (metis surj_pair)
  obtain t where t: "make_table A (array_length A a1) [a1, a2] = Inr t" using A(2) unfolding never_fails_def by blast
  obtain t0 where t0: "make_table A 0 [a3, a3] = Inr t0" using A(2) unfolding never_fails_def by blast
  obtain w1 where c: "CreateRecipeOutputTable A w = (Inr t, w1)"
    by (simp add: CreateRecipeOutputTable_def seq_assoc f1 f2 t)
  have c': "recipe_rows A as t rows" "files w1 = files w"
    using CreateRecipeOutputTable_ok [OF A(1) rec c] by simp_all
  have l: "LoadExistingRecipeOutputTable A f w1 = (Inr t0, w1)"
    using c'(2) new
    by (simp add: LoadExistingRecipeOutputTable_def MakeEmptyRecipesTable_def MakeEmptyStringArray_def f3 t0)
  have "file_rows A as f (files w1) []" using c'(2) new by (simp add: file_rows_def)
  then have l': "recipe_rows A as t0 []" using LoadExisting_ok [OF A(1) _ l] by blast
  obtain tm where m: "MergeRecipeTables A order t0 t w1 = (Inr tm, w1)" using merge_succeeds [OF A l' c'(1)] by blast
  obtain w2 where w2: "file_op (open_output_stream A f) w1 = (Inr (), w2)"
    using file_op_total [of "open_output_stream A f" "()" w1] A(2) unfolding never_fails_def by blast
  obtain w3 where w3: "file_op (write_table A f tm) w2 = (Inr (), w3)"
    using file_op_total [of "write_table A f tm" "()" w2] A(2) unfolding never_fails_def by blast
  obtain w4 where w4: "file_op (close_writer A f) w3 = (Inr (), w4)"
    using file_op_total [of "close_writer A f" "()" w3] A(2) unfolding never_fails_def by blast
  show ?thesis using c l m w2 w3 w4 by (simp add: DumpRecipeOutput_def)
qed

section \<open>An Arrow to evaluate on\<close>

text \<open>Builders and arrays are lists of texts, a table its number of rows and its columns' chunks, a
  file system a map from names to tables.\<close>

definition sample_arrow ::
  "(string list, string list, nat \<times> string list list list, nat \<times> string list list list,
    string \<Rightarrow> (nat \<times> string list list list) option, string) arrow_api" where
  "sample_arrow = \<lparr>new_builder = [], append_string = (\<lambda>s b. Inr (b @ [s])), finish = (\<lambda>b. Inr (b, [])),
     builder_length = length, array_length = length,
     get_string = (\<lambda>a i. if i < length a then Some (a ! i) else None),
     make_table = (\<lambda>n arrs. Inr (n, map (\<lambda>a. [a]) arrs)),
     num_rows = fst, column_chunks = (\<lambda>t i. snd t ! i),
     open_input_file = (\<lambda>f fs. case fs f of None \<Rightarrow> Inl ''no such file'' | Some t \<Rightarrow> Inr t),
     read_stream = Inr, open_output_stream = (\<lambda>f fs. (Inr (), fs(f := None))),
     write_table = (\<lambda>f t fs. (Inr (), fs(f \<mapsto> t))), close_writer = (\<lambda>f fs. (Inr (), fs))\<rparr>"

lemma sample_arrow_laws: "arrow_laws sample_arrow (\<lambda>b. b) (\<lambda>a. a)"
  by (auto simp: arrow_laws_def sample_arrow_def)

lemma sample_file_laws: "file_laws sample_arrow (\<lambda>a. a)"
  by (auto simp: file_laws_def sample_arrow_def)

lemma sample_never_fails: "never_fails sample_arrow"
  by (simp add: never_fails_def sample_arrow_def)

definition sorted_pairs :: "(string \<Rightarrow> string option) \<Rightarrow> (string \<times> string) list" where
  "sorted_pairs m = map (\<lambda>k. (k, the (m k))) (sorted_list_of_set (dom m))"

lemma sorted_pairs_lists_map: "lists_map sorted_pairs"
proof -
  have "map_of (sorted_pairs m) k = m k" if "finite (dom m)" for m k
    using that by (cases "m k") (auto simp: sorted_pairs_def map_of_map_restrict restrict_map_def dom_def)
  then show ?thesis
    by (auto simp: lists_map_def sorted_pairs_def comp_def)
qed

definition sample_recorded ::
  "(string list, string \<Rightarrow> (nat \<times> string list list list) option) recipes" where
  "sample_recorded = fold (recipe sample_arrow id) [(''Start'', ''Listening''), (''Stop'', ''Done'')]
     (recipes_init sample_arrow (\<lambda>f. None))"

theorem recipes_are_recorded_witness:
  "recorded (\<lambda>b. b) sample_recorded [(''Start'', ''Listening''), (''Stop'', ''Done'')]"
  using recipes_are_recorded [OF sample_arrow_laws, of "[(''Start'', ''Listening''), (''Stop'', ''Done'')]" id "\<lambda>f. None"]
  by (simp add: sample_recorded_def) (simp add: sample_arrow_def)

lemma sample_rows:
  "recipe_rows sample_arrow (\<lambda>a. a) (1, [[[''a'']], [[''x'']]]) [(''a'', ''x'')]"
  "recipe_rows sample_arrow (\<lambda>a. a) (2, [[[''b'', ''a'']], [[''y'', ''z'']]]) [(''b'', ''y''), (''a'', ''z'')]"
  by (simp_all add: recipe_rows_def sample_arrow_def)

theorem MergeRecipeTables_merges_witness:
  "\<exists>t rows. MergeRecipeTables sample_arrow sorted_pairs (1, [[[''a'']], [[''x'']]])
      (2, [[[''b'', ''a'']], [[''y'', ''z'']]]) sample_recorded = (Inr t, sample_recorded) \<and>
    recipe_rows sample_arrow (\<lambda>a. a) t rows \<and> map_of rows = [''a'' \<mapsto> ''z'', ''b'' \<mapsto> ''y'']"
proof -
  obtain t where t: "MergeRecipeTables sample_arrow sorted_pairs (1, [[[''a'']], [[''x'']]])
      (2, [[[''b'', ''a'']], [[''y'', ''z'']]]) sample_recorded = (Inr t, sample_recorded)"
    using merge_succeeds [OF sample_arrow_laws sample_never_fails sample_rows] by blast
  have "(map_of (rev [(''a'', ''x'')]) ++ map_of (rev [(''b'', ''y''), (''a'', ''z'')])) =
      [''a'' \<mapsto> ''z'', ''b'' \<mapsto> ''y'']"
    by (auto simp: fun_eq_iff map_add_def)
  then show ?thesis
    using MergeRecipeTables_merges [OF sample_arrow_laws sorted_pairs_lists_map sample_rows, of sample_recorded] t
    by (auto simp del: rev.simps)
qed

theorem DumpRecipeOutput_merges_witness:
  "\<exists>w' rows. DumpRecipeOutput sample_arrow sorted_pairs ''recipes_out.arrow'' sample_recorded = (Inr (), w') \<and>
    file_rows sample_arrow (\<lambda>a. a) ''recipes_out.arrow'' (files w') rows \<and>
    map_of rows = [''Start'' \<mapsto> ''Listening'', ''Stop'' \<mapsto> ''Done''] \<and> \<not> HasRecipeOutput sample_arrow w'"
proof -
  let ?rows = "[(''Start'', ''Listening''), (''Stop'', ''Done'')]"
  have files: "files sample_recorded = (\<lambda>f. None)"
    by (simp add: sample_recorded_def recipe_def EndRecipe_def StartRecipe_def rout_write_def ASSERT_OK_def
        recipes_init_def) (simp add: sample_arrow_def)
  have rec: "recorded (\<lambda>b. b) sample_recorded ?rows"
    using recipes_are_recorded [OF sample_arrow_laws, of ?rows id "\<lambda>f. None"]
    by (simp add: sample_recorded_def) (simp add: sample_arrow_def)
  obtain w' where d: "DumpRecipeOutput sample_arrow sorted_pairs ''recipes_out.arrow'' sample_recorded = (Inr (), w')"
    using dump_succeeds [OF sample_arrow_laws sample_never_fails rec, of "''recipes_out.arrow''"] files
    by (auto simp: sample_arrow_def)
  have old: "file_rows sample_arrow (\<lambda>a. a) ''recipes_out.arrow'' (files sample_recorded) []"
    unfolding files by (simp add: file_rows_def sample_arrow_def)
  have m: "map_of (rev ?rows) = [''Start'' \<mapsto> ''Listening'', ''Stop'' \<mapsto> ''Done'']"
    by (simp add: fun_upd_twist)
  show ?thesis
    using DumpRecipeOutput_merges [OF sample_arrow_laws sample_file_laws sorted_pairs_lists_map rec _ old d] d m
    by auto
qed

end
