(* ===== verification/Recipe_Runs.thy ===== *)
theory Recipe_Runs
  imports Recipes
begin

text \<open>
  What the cookbook's test functions (\<open>arrow/cookbook/flight.cc\<close>, \<open>datasets.cc\<close>) have in common: functions
  that return a \<open>Status\<close>, made of recipes, which write to \<open>rout\<close> between \<open>StartRecipe\<close> and
  \<open>EndRecipe\<close> and return early when a call fails.  \<open>common.cc\<close>, modelled in \<open>Recipes\<close>.
\<close>

section \<open>Steps of a test function\<close>

text \<open>
  How a test function ends other than with \<open>Status::OK\<close>: with a failed status, with an exception (and its
  message), or not at all, since \<open>FindTestDataFile\<close> may not return.
\<close>

datatype 'e ending = Fails 'e | Throws string | Undefined_behaviour | Hangs

type_synonym ('b, 'fs, 'e, 'x) run = "(('b, 'fs) recipes, 'e ending, 'x) action"

text \<open>\<open>ARROW_ASSIGN_OR_RAISE\<close> and \<open>ARROW_RETURN_NOT_OK\<close>: of a value, of a call that reads the file system,
  of one that changes it.\<close>

definition call :: "'e + 'x \<Rightarrow> ('b, 'fs, 'e, 'x) run" where
  "call r = (case r of Inl e \<Rightarrow> raise (Fails e) | Inr x \<Rightarrow> ret x)"

definition read_fs :: "('fs \<Rightarrow> 'e + 'x) \<Rightarrow> ('b, 'fs, 'e, 'x) run" where
  "read_fs f w = call (f (files w)) w"

definition change_fs :: "('fs \<Rightarrow> ('e + 'x) \<times> 'fs) \<Rightarrow> ('b, 'fs, 'e, 'x) run" where
  "change_fs f w = (case f (files w) of (r, fs) \<Rightarrow> call r (w\<lparr>files := fs\<rparr>))"

definition emit :: "string \<Rightarrow> ('b, 'fs, 'e, unit) run" where
  "emit s = modify (rout_write s)"

abbreviation (input) endl :: string where "endl \<equiv> [CHR 0x0A]"

text \<open>\<open>FindTestDataFile\<close>; \<open>invalid\<close> makes the status \<open>Invalid\<close> with a message.\<close>

definition find_data_file ::
  "(string \<Rightarrow> 'e) \<Rightarrow> (fs_path \<Rightarrow> string + bool) \<Rightarrow> fs_path \<Rightarrow> string \<Rightarrow> ('b, 'fs, 'e, fs_path) run" where
  "find_data_file invalid exists cwd name =
     (case FindTestDataFile exists cwd name of
        None \<Rightarrow> raise Hangs
      | Some (Inl (Not_located msg)) \<Rightarrow> raise (Fails (invalid msg))
      | Some (Inl (Exists_throws what)) \<Rightarrow> raise (Throws what)
      | Some (Inr p) \<Rightarrow> ret p)"

text \<open>\<open>return DumpRecipeOutput(...)\<close>.\<close>

definition dump ::
  "('b, 'a, 't, 'i, 'fs, 'e) arrow_api \<Rightarrow> ((string \<Rightarrow> string option) \<Rightarrow> (string \<times> string) list) \<Rightarrow> string \<Rightarrow>
   ('b, 'fs, 'e, unit) run" where
  "dump A order f w =
     (case DumpRecipeOutput A order f w of
        (Inr u, w') \<Rightarrow> (Inr u, w')
      | (Inl (Status e), w') \<Rightarrow> (Inl (Fails e), w')
      | (Inl UB, w') \<Rightarrow> (Inl Undefined_behaviour, w'))"

text \<open>\<open>StartRecipe(name)\<close>, what the recipe does, \<open>EndRecipe(name)\<close>. An early return skips the end.\<close>

definition in_recipe ::
  "('b, 'a, 't, 'i, 'fs, 'e) arrow_api \<Rightarrow> ('e \<Rightarrow> string) \<Rightarrow> string \<Rightarrow> ('b, 'fs, 'e, 'x) run \<Rightarrow>
   ('b, 'fs, 'e, 'x) run" where
  "in_recipe A ts name body =
     seq (modify (StartRecipe name)) (\<lambda>_. seq body (\<lambda>x. seq (modify (EndRecipe A ts name)) (\<lambda>_. ret x)))"

text \<open>
  \<open>ASSERT_OK(f())\<close> as the body of a gtest case: a failed status is recorded, and so is an exception, which
  gtest catches. \<open>None\<close> if the call does not return.
\<close>

definition assert_test :: "string \<Rightarrow> ('e \<Rightarrow> string) \<Rightarrow> ('b, 'fs, 'e, unit) run \<Rightarrow> ('b, 'fs) recipes \<Rightarrow>
    ('b, 'fs) recipes option" where
  "assert_test expr ts f w =
     (case f w of
        (Inr _, w') \<Rightarrow> Some w'
      | (Inl (Fails e), w') \<Rightarrow> Some (ASSERT_OK expr ts (Inl e :: 'e + unit) (\<lambda>_ w. w) w')
      | (Inl (Throws what), w') \<Rightarrow> Some (FAIL what w')
      | (Inl Undefined_behaviour, w') \<Rightarrow> None
      | (Inl Hangs, w') \<Rightarrow> None)"

section \<open>Steps that leave the recording alone\<close>

text \<open>What a recipe does in between touches \<open>rout\<close> and the file system only.\<close>

definition same_record :: "('b, 'fs) recipes \<Rightarrow> ('b, 'fs) recipes \<Rightarrow> bool" where
  "same_record w w' \<longleftrightarrow> test_names_builder w' = test_names_builder w \<and>
     test_output_builder w' = test_output_builder w \<and> current_recipe w' = current_recipe w \<and>
     test_failures w' = test_failures w"

definition plain :: "('b, 'fs, 'e, 'x) run \<Rightarrow> bool" where
  "plain m \<longleftrightarrow> (\<forall>w. same_record w (snd (m w)))"

named_theorems plain_intros \<open>steps that leave the recording alone\<close>

lemma same_record_refl [simp]: "same_record w w"
  by (simp add: same_record_def)

lemma same_record_trans: "same_record w w1 \<Longrightarrow> same_record w1 w2 \<Longrightarrow> same_record w w2"
  by (simp add: same_record_def)

lemma plainD: "plain m \<Longrightarrow> m w = (r, w') \<Longrightarrow> same_record w w'"
  by (metis plain_def snd_conv)

lemma plain_ret [plain_intros]: "plain (ret x)" and plain_raise [plain_intros]: "plain (raise e)"
  by (simp_all add: plain_def)

lemma plain_call [plain_intros]: "plain (call r)"
  by (cases r) (simp_all add: plain_def call_def)

lemma plain_read_fs [plain_intros]: "plain (read_fs f)"
  by (simp add: plain_def read_fs_def plain_call [unfolded plain_def])

lemma plain_change_fs [plain_intros]: "plain (change_fs f :: ('b, 'fs, 'e, 'x) run)"
  unfolding plain_def
proof
  fix w :: "('b, 'fs) recipes"
  obtain r fs where f: "f (files w) = (r, fs)" by (cases "f (files w)")
  have "same_record w (w\<lparr>files := fs\<rparr>)" by (simp add: same_record_def)
  moreover have "same_record (w\<lparr>files := fs\<rparr>) (snd (call r (w\<lparr>files := fs\<rparr>)))"
    using plain_call [unfolded plain_def] by blast
  ultimately show "same_record w (snd (change_fs f w))" by (auto simp: change_fs_def f intro: same_record_trans)
qed

lemma plain_emit [plain_intros]: "plain (emit s)"
  by (simp add: plain_def emit_def rout_write_def same_record_def)

lemma plain_seq [plain_intros]:
  assumes "plain m" "\<And>x. plain (k x)"
  shows "plain (seq m k)"
  unfolding plain_def
proof
  fix w
  obtain r w1 where m: "m w = (r, w1)" by (cases "m w")
  then have "same_record w w1" by (rule plainD [OF assms(1)])
  then show "same_record w (snd (seq m k w))"
    using m assms(2) by (cases r) (auto simp: plain_def intro: same_record_trans)
qed

lemma plain_find_data_file [plain_intros]: "plain (find_data_file invalid ex cwd n)"
  by (auto simp: find_data_file_def plain_def split: option.split sum.split search_failure.split)

section \<open>Steps that record no failure\<close>

text \<open>A dump records no failure.\<close>

definition silent :: "(('b, 'fs) recipes, 'e, 'x) action \<Rightarrow> bool" where
  "silent m \<longleftrightarrow> (\<forall>w. test_failures (snd (m w)) = test_failures w)"

named_theorems silent_intros \<open>operations that record no failure\<close>

lemma silent_seq [silent_intros]: "silent m \<Longrightarrow> (\<And>x. silent (k x)) \<Longrightarrow> silent (seq m k)"
  unfolding silent_def seq_def by (auto split: prod.splits sum.splits) (metis snd_conv)+

lemma silent_basic [silent_intros]: "silent (ret x)" "silent (raise e)" "silent (status r)" "silent (gets f)" "silent (file_op g)"
  by (auto simp: silent_def status_def gets_def file_op_def split: sum.splits prod.splits)

lemma silent_modify [silent_intros]: "(\<And>w. test_failures (f w) = test_failures w) \<Longrightarrow> silent (modify f)"
  by (simp add: silent_def)

lemma silent_append_pairs [silent_intros]: "silent (append_pairs A ps nb ob)"
proof (induction ps arbitrary: nb ob)
  case (Cons p ps)
  obtain n out where p: "p = (n, out)" by (cases p)
  show ?case unfolding p append_pairs.simps by (intro silent_intros Cons.IH)
qed (simp only: append_pairs.simps silent_basic)

lemma silent_populate_rows [silent_intros]: "silent (populate_rows A ns os rs m)"
proof (induction rs arbitrary: m)
  case (Cons i rs)
  show ?case
    unfolding populate_rows.simps by (cases "get_string A ns i"; cases "get_string A os i") (simp_all only: prod.case option.case Cons.IH silent_basic)
qed (simp only: populate_rows.simps silent_basic)

lemma silent_PopulateMap [silent_intros]: "silent (PopulateMap A t m)"
  unfolding PopulateMap_def
  by (cases "num_rows A t = 0"; cases "column_chunks A t 0"; cases "column_chunks A t 1")
    (simp_all only: simp_thms if_True if_False prod.case list.case silent_intros)

lemma silent_empty [silent_intros]: "silent (MakeEmptyStringArray A)"
  by (cases "finish A (new_builder A)") (auto simp: MakeEmptyStringArray_def silent_def)

lemma silent_dump: "silent (DumpRecipeOutput A order f)"
proof -
  have l: "silent (LoadExistingRecipeOutputTable A f)"
    unfolding LoadExistingRecipeOutputTable_def MakeEmptyRecipesTable_def ReadRecipeTable_def
    by (intro silent_intros) (split sum.split, intro conjI allI impI silent_intros)
  have c: "silent (CreateRecipeOutputTable A)"
    unfolding CreateRecipeOutputTable_def by (intro silent_intros | split prod.split | intro allI impI | simp)+
  have m: "silent (MergeRecipeTables A order t u)" for t u
    unfolding MergeRecipeTables_def by (intro silent_intros | split prod.split | intro allI impI)+
  show ?thesis unfolding DumpRecipeOutput_def by (intro silent_intros l c m)
qed

section \<open>A recipe\<close>

text \<open>Failures are only ever added.\<close>

lemma StartRecipe_failures: "length (test_failures w) \<le> length (test_failures (StartRecipe n w))"
  by (simp add: StartRecipe_def FAIL_def)

lemma EndRecipe_failures: "length (test_failures w) \<le> length (test_failures (EndRecipe A ts n w))"
  by (simp add: EndRecipe_def FAIL_def ASSERT_OK_def Let_def split: sum.split)

lemma in_recipe_failures:
  assumes "plain body" "in_recipe A ts name body w = (r, w')"
  shows "length (test_failures w) \<le> length (test_failures w')"
proof -
  obtain r1 w1 where b: "body (StartRecipe name w) = (r1, w1)" by (cases "body (StartRecipe name w)")
  then have "test_failures w1 = test_failures (StartRecipe name w)" using plainD [OF assms(1)] by (simp add: same_record_def)
  moreover have "w' = w1 \<or> w' = EndRecipe A ts name w1" using assms(2) b by (cases r1) (auto simp: in_recipe_def)
  ultimately show ?thesis using StartRecipe_failures [of w name] EndRecipe_failures [of w1 A ts name] by (auto intro: order_trans)
qed

text \<open>A recipe that ends without a failure has been recorded: a call of \<open>Append\<close> that fails records one.\<close>

lemma in_recipe_InrE:
  assumes A: "arrow_laws A bs as"
    and "plain body" "name \<noteq> []" "current_recipe w = []" "recorded bs w rows"
    and run: "in_recipe A ts name body w = (Inr x, w')" and passes: "length (test_failures w') \<le> length (test_failures w)"
  obtains w1 where "body (StartRecipe name w) = (Inr x, w1)" "recorded bs w' (rows @ [(name, rout w1)])"
    "files w' = files w1" "current_recipe w' = []" "test_failures w' = test_failures w"
proof -
  have s: "StartRecipe name w = w\<lparr>current_recipe := name, rout := []\<rparr>"
    using assms(3,4) by (simp add: StartRecipe_def)
  obtain y w1 where b: "body (StartRecipe name w) = (Inr y, w1)"
      "seq (modify (EndRecipe A ts name)) (\<lambda>_. ret y) w1 = (Inr x, w')"
    using run by (auto simp: in_recipe_def elim: seq_InrE)
  have w': "w' = EndRecipe A ts name w1" "y = x" using b(2) by auto
  have p: "test_names_builder w1 = test_names_builder w" "test_output_builder w1 = test_output_builder w"
      "current_recipe w1 = name" "test_failures w1 = test_failures w"
    using plainD [OF assms(2) b(1)] by (simp_all add: same_record_def s)
  obtain b1 where b1: "append_string A name (test_names_builder w) = Inr b1"
    using passes by (cases "append_string A name (test_names_builder w)") (simp_all add: w'(1) EndRecipe_def ASSERT_OK_def Let_def FAIL_def p)
  obtain b2 where b2: "append_string A (rout w1) (test_output_builder w) = Inr b2"
    using passes b1 by (cases "append_string A (rout w1) (test_output_builder w)")
      (simp_all add: w'(1) EndRecipe_def ASSERT_OK_def Let_def FAIL_def p)
  have e: "w' = w1\<lparr>test_names_builder := b1, test_output_builder := b2, current_recipe := []\<rparr>"
    using b1 b2 by (simp add: w'(1) EndRecipe_def ASSERT_OK_def Let_def p)
  have "recorded bs w' (rows @ [(name, rout w1)])"
    using arrow_lawsD(2) [OF A b1] arrow_lawsD(2) [OF A b2] assms(5) by (simp add: e recorded_def)
  then show thesis using that b(1) w'(2) p e by simp
qed

text \<open>
  Between recipes: either failures have been added to \<open>tf\<close>, or the recipes named \<open>ns\<close> have been recorded after \<open>rows\<close>, with
  outputs and a file system that satisfy \<open>R\<close>, and no recipe is open.
\<close>

definition stage ::
  "('b \<Rightarrow> string list) \<Rightarrow> (string \<times> string) list \<Rightarrow> string list \<Rightarrow> string list \<Rightarrow> (string list \<Rightarrow> 'fs \<Rightarrow> bool) \<Rightarrow>
   ('b, 'fs) recipes \<Rightarrow> bool" where
  "stage bs rows tf ns R w \<longleftrightarrow> length tf < length (test_failures w) \<or>
     (\<exists>outs. length outs = length ns \<and> recorded bs w (rows @ zip ns outs) \<and> current_recipe w = [] \<and>
        test_failures w = tf \<and> R outs (files w))"

lemma stageE:
  assumes "stage bs rows tf ns R w" "test_failures w = tf"
  obtains outs where "length outs = length ns" "recorded bs w (rows @ zip ns outs)" "current_recipe w = []" "R outs (files w)"
  using assms by (auto simp: stage_def)

lemma in_recipe_stage:
  assumes A: "arrow_laws A bs as"
    and body: "plain body" and name: "name \<noteq> []" and ns': "ns' = ns @ [name]"
    and step: "\<And>outs w0 x w1. length outs = length ns \<Longrightarrow> R outs (files w0) \<Longrightarrow> rout w0 = [] \<Longrightarrow>
      body w0 = (Inr x, w1) \<Longrightarrow> R' x (outs @ [rout w1]) (files w1)"
  shows "hoare (stage bs rows tf ns R) (in_recipe A ts name body) (\<lambda>x. stage bs rows tf ns' (R' x)) (\<lambda>_ _. True)"
proof (rule hoareI)
  fix w x w'
  assume w: "stage bs rows tf ns R w" and run: "in_recipe A ts name body w = (Inr x, w')"
  have grows: "length (test_failures w) \<le> length (test_failures w')" by (rule in_recipe_failures [OF body run])
  show "stage bs rows tf ns' (R' x) w'"
  proof (cases "length tf < length (test_failures w')")
    case False
    then obtain outs where o': "length outs = length ns" "recorded bs w (rows @ zip ns outs)" "current_recipe w = []"
        "test_failures w = tf" "R outs (files w)"
      using w grows by (auto simp: stage_def)
    have passes: "length (test_failures w') \<le> length (test_failures w)" using False o'(4) by simp
    obtain w1 where 1: "body (StartRecipe name w) = (Inr x, w1)"
        "recorded bs w' ((rows @ zip ns outs) @ [(name, rout w1)])" "files w' = files w1" "current_recipe w' = []"
        "test_failures w' = test_failures w"
      by (rule in_recipe_InrE [OF A body name o'(3,2) run passes])
    have "rout (StartRecipe name w) = []" "files (StartRecipe name w) = files w"
      using o'(3) name by (simp_all add: StartRecipe_def)
    then have "R' x (outs @ [rout w1]) (files w')" using step [OF o'(1) _ _ 1(1)] o'(5) 1(3) by simp
    then show ?thesis
      unfolding stage_def ns' using 1 o' by (intro disjI2 exI [of _ "outs @ [rout w1]"]) simp
  qed (simp add: stage_def)
qed simp

text \<open>If \<open>Append\<close> does not fail, a recipe ends without a failure.\<close>

lemma in_recipe_passes:
  assumes total: "\<And>s b. \<exists>b'. append_string A s b = Inr b'" and "plain body" "name \<noteq> []"
  shows "hoare (\<lambda>w. current_recipe w = [] \<and> test_failures w = tf) (in_recipe A ts name body)
    (\<lambda>x w. current_recipe w = [] \<and> test_failures w = tf) (\<lambda>_ _. True)"
proof (rule hoareI)
  fix w x w' assume w: "current_recipe w = [] \<and> test_failures w = tf" and run: "in_recipe A ts name body w = (Inr x, w')"
  obtain y w1 where b: "body (StartRecipe name w) = (Inr y, w1)" "w' = EndRecipe A ts name w1"
    using run by (auto simp: in_recipe_def elim!: seq_InrE)
  have "current_recipe w1 = name" "test_failures w1 = tf"
    using plainD [OF assms(2) b(1)] w assms(3) by (simp_all add: same_record_def StartRecipe_def)
  moreover obtain b1 where "append_string A name (test_names_builder w1) = Inr b1" using total by blast
  moreover obtain b2 where "append_string A (rout w1) (test_output_builder w1) = Inr b2" using total by blast
  ultimately show "current_recipe w' = [] \<and> test_failures w' = tf"
    by (simp add: b(2) EndRecipe_def ASSERT_OK_def Let_def)
qed simp

text \<open>An early return leaves its recipe open.\<close>

lemma in_recipe_hoare:
  assumes total: "\<And>s b. \<exists>b'. append_string A s b = Inr b'" and "plain body" "name \<noteq> []"
  shows "hoare (\<lambda>w. current_recipe w = []) (in_recipe A ts name body)
    (\<lambda>x w. current_recipe w = []) (\<lambda>e w. current_recipe w = name)"
proof (rule hoareI)
  fix w x w' assume w: "current_recipe w = []" and run: "in_recipe A ts name body w = (Inr x, w')"
  obtain y w1 where b: "body (StartRecipe name w) = (Inr y, w1)" "w' = EndRecipe A ts name w1"
    using run by (auto simp: in_recipe_def elim!: seq_InrE)
  have "current_recipe w1 = name"
    using plainD [OF assms(2) b(1)] w assms(3) by (simp add: same_record_def StartRecipe_def)
  moreover obtain b1 where "append_string A name (test_names_builder w1) = Inr b1" using total by blast
  moreover obtain b2 where "append_string A (rout w1) (test_output_builder w1) = Inr b2" using total by blast
  ultimately show "current_recipe w' = []"
    by (simp add: b(2) EndRecipe_def ASSERT_OK_def Let_def)
next
  fix w e w' assume w: "current_recipe w = []" and run: "in_recipe A ts name body w = (Inl e, w')"
  have "body (StartRecipe name w) = (Inl e, w')"
    using run by (cases "body (StartRecipe name w)"; cases "fst (body (StartRecipe name w))")
      (simp_all add: in_recipe_def)
  then show "current_recipe w' = name"
    using plainD [OF assms(2)] w assms(3) by (force simp: same_record_def StartRecipe_def)
qed

lemma in_recipe_open:
  assumes "\<And>s b. \<exists>b'. append_string A s b = Inr b'" "plain body" "name \<noteq> []"
  shows "hoare (\<lambda>w. current_recipe w = []) (in_recipe A ts name body)
    (\<lambda>x w. current_recipe w = []) (\<lambda>e w. current_recipe w \<noteq> [])"
  by (rule hoare_weaken [OF in_recipe_hoare [OF assms]]) (use assms(3) in simp_all)

text \<open>After that, no recipe of the program can be started any more: \<open>StartRecipe\<close> only records a failure.\<close>

lemma open_recipe_blocks:
  "current_recipe w \<noteq> [] \<Longrightarrow> \<exists>msg. StartRecipe n w = FAIL msg w \<and>
    (n \<noteq> current_recipe w \<longrightarrow> (\<exists>msg. EndRecipe A ts n w = FAIL msg w))"
  using recipes_out_of_order [of w n A ts] by blast

section \<open>Runs on a concrete file system\<close>

text \<open>\<open>ends m fs x fs'\<close>: on the file system \<open>fs\<close>, \<open>m\<close> returns \<open>x\<close> and leaves \<open>fs'\<close>.\<close>

definition ends :: "('b, 'fs, 'e, 'x) run \<Rightarrow> 'fs \<Rightarrow> 'e ending + 'x \<Rightarrow> 'fs \<Rightarrow> bool" where
  "ends m fs r fs' \<longleftrightarrow> (\<forall>w. files w = fs \<longrightarrow> (\<exists>w'. m w = (r, w') \<and> files w' = fs'))"

lemma ends_seq: "ends m fs (Inr x) fs1 \<Longrightarrow> ends (k x) fs1 r fs2 \<Longrightarrow> ends (seq m k) fs r fs2"
  unfolding ends_def by (metis seq_ok)

lemma ends_seq_error: "ends m fs (Inl e) fs1 \<Longrightarrow> ends (seq m k) fs (Inl e) fs1"
  unfolding ends_def by (metis seq_fail)

lemma ends_ret: "ends (ret x) fs (Inr x) fs"
  by (simp add: ends_def)

lemma ends_call: "r = Inr x \<Longrightarrow> ends (call r) fs (Inr x) fs"
  by (simp add: ends_def call_def)

lemma ends_emit: "ends (emit s) fs (Inr ()) fs"
  by (simp add: ends_def emit_def rout_write_def)

lemma ends_read_fs: "f fs = Inr x \<Longrightarrow> ends (read_fs f) fs (Inr x) fs"
  by (simp add: ends_def read_fs_def call_def)

lemma ends_change_fs: "f fs = (Inr x, fs') \<Longrightarrow> ends (change_fs f) fs (Inr x) fs'"
  by (simp add: ends_def change_fs_def call_def)

lemma ends_change_fs_error: "f fs = (Inl e, fs') \<Longrightarrow> ends (change_fs f) fs (Inl (Fails e)) fs'"
  by (simp add: ends_def change_fs_def call_def)

lemma ends_find_data_file:
  "FindTestDataFile exists cwd name = Some (Inr p) \<Longrightarrow> ends (find_data_file invalid exists cwd name) fs (Inr p) fs"
  by (simp add: ends_def find_data_file_def)

lemma files_recipe [simp]: "files (StartRecipe n w) = files w" "files (EndRecipe A ts n w) = files w"
  by (auto simp: StartRecipe_def EndRecipe_def FAIL_def ASSERT_OK_def Let_def split: sum.split)

lemma ends_in_recipe: "ends (body :: ('b, 'fs, 'e, 'x) run) fs r fs' \<Longrightarrow> ends (in_recipe A ts name body) fs r fs'"
  unfolding ends_def
proof (intro allI impI)
  fix w :: "('b, 'fs) recipes"
  assume body: "\<forall>w. files w = fs \<longrightarrow> (\<exists>w'. body w = (r, w') \<and> files w' = fs')" and w: "files w = fs"
  obtain w1 where w1: "body (StartRecipe name w) = (r, w1)" "files w1 = fs'"
    using body w by (metis files_recipe(1))
  then show "\<exists>w'. in_recipe A ts name body w = (r, w') \<and> files w' = fs'"
    by (cases r) (auto simp: in_recipe_def)
qed

lemmas ends_intros = ends_ret ends_call ends_emit ends_read_fs ends_change_fs ends_find_data_file ends_in_recipe

end
