(* ===== verification/Flight_Client.thy ===== *)
theory Flight_Client
  imports Flight_Store Recipe_Runs
begin

text \<open>
  \<open>TestPutGetDelete\<close> of \<open>arrow/cookbook/flight.cc\<close>: a client of the storage service, in eight recipes.
  The service is the model of \<open>Flight\<close>; the transport between them, the local file system and
  Parquet are Arrow's and are the fields of \<open>client_api\<close>.
\<close>

section \<open>The calls to Arrow\<close>

text \<open>
  \<open>transport\<close> names the error if a remote call does not reach the service, \<open>remote\<close> is how a status of
  the service arrives at the client. \<open>record_batches\<close> lists what the calls of \<open>Next\<close> return, up to the
  null pointer. The service reads \<open>upload\<close> if the client closes its writer, and \<open>broken_upload\<close> if it
  drops it before.
\<close>

record ('fs, 'i, 'reader, 'schema, 'table, 'batch, 'stream, 'loc, 'e) client_api =
  create_dir :: "string \<Rightarrow> 'fs \<Rightarrow> ('e + unit) \<times> 'fs"
  delete_dir_contents :: "string \<Rightarrow> 'fs \<Rightarrow> ('e + unit) \<times> 'fs"
  for_grpc_tcp :: "string \<Rightarrow> nat \<Rightarrow> 'e + 'loc"
  server_init :: "'loc \<Rightarrow> 'e + unit"
  server_shutdown :: "'e + unit"
  location_text :: "'loc \<Rightarrow> string"
  connect :: "'loc \<Rightarrow> 'e + unit"
  open_local :: "fs_path \<Rightarrow> 'fs \<Rightarrow> 'e + 'i"
  open_file :: "'i \<Rightarrow> 'e + 'reader"
  local_schema :: "'reader \<Rightarrow> 'e + 'schema"
  num_row_groups :: "'reader \<Rightarrow> nat"
  record_batches :: "'reader \<Rightarrow> nat list \<Rightarrow> 'e + ('e + 'batch) list"
  send_batch :: "'batch \<Rightarrow> 'e + unit"
  upload :: "'schema \<Rightarrow> 'batch list \<Rightarrow> 'stream"
  broken_upload :: "'schema \<Rightarrow> 'batch list \<Rightarrow> 'stream"
  transport :: "string \<Rightarrow> 'e option"
  remote :: "'e status \<Rightarrow> 'e"
  descriptor_text :: "flight_descriptor \<Rightarrow> string"
  decode_schema :: "'schema \<Rightarrow> 'e + 'schema"
  schema_text :: "'schema \<Rightarrow> string"
  pretty_print :: "'table \<Rightarrow> 'e + string"
  invalid :: "string \<Rightarrow> 'e"

section \<open>Remote calls\<close>

definition rpc ::
  "('fs, 'i, 'reader, 'schema, 'table, 'batch, 'stream, 'loc, 'e) client_api \<Rightarrow> string \<Rightarrow>
   ('fs, 'e, 'x) service \<Rightarrow> ('b, 'fs, 'e, 'x) run" where
  "rpc C name handler =
     (case transport C name of
        Some e \<Rightarrow> raise (Fails e)
      | None \<Rightarrow> change_fs (\<lambda>fs. case handler fs of (Inl st, fs') \<Rightarrow> (Inl (remote C st), fs') | (Inr x, fs') \<Rightarrow> (Inr x, fs')))"

text \<open>A call that only starts: \<open>DoPut\<close> returns a writer.\<close>

definition begin_call ::
  "('fs, 'i, 'reader, 'schema, 'table, 'batch, 'stream, 'loc, 'e) client_api \<Rightarrow> string \<Rightarrow> ('b, 'fs, 'e, unit) run"
where
  "begin_call C name = call (case transport C name of Some e \<Rightarrow> Inl e | None \<Rightarrow> Inr ())"

text \<open>The loop that writes the batches, with the batches sent so far.\<close>

fun send_batches ::
  "('fs, 'i, 'reader, 'schema, 'table, 'batch, 'stream, 'loc, 'e) client_api \<Rightarrow> ('e + 'batch) list \<Rightarrow>
   'batch list \<Rightarrow> 'e \<times> 'batch list + 'batch list" where
  "send_batches C [] sent = Inr sent"
| "send_batches C (Inl e # bs) sent = Inl (e, sent)"
| "send_batches C (Inr b # bs) sent =
     (case send_batch C b of Inl e \<Rightarrow> Inl (e, sent) | Inr _ \<Rightarrow> send_batches C bs (sent @ [b]))"

text \<open>An early return drops the writer: the service, which has been called, sees the upload break off.\<close>

definition abandon ::
  "('fs, 'i, 'reader, 'schema, 'table, 'batch, 'stream, 'loc, 'e) client_api \<Rightarrow>
   ('fs, 'i, 'sink, 'reader, 'schema, 'table, 'batch, 'stream, 'loc, 'e) storage_api \<Rightarrow>
   flight_descriptor \<Rightarrow> 'schema \<Rightarrow> 'e \<Rightarrow> 'batch list \<Rightarrow> ('b, 'fs, 'e, 'x) run" where
  "abandon C S d schema e sent =
     change_fs (\<lambda>fs. (Inl e, snd (DoPut S d (broken_upload C schema sent) fs)))"

definition upload_batches ::
  "('fs, 'i, 'reader, 'schema, 'table, 'batch, 'stream, 'loc, 'e) client_api \<Rightarrow>
   ('fs, 'i, 'sink, 'reader, 'schema, 'table, 'batch, 'stream, 'loc, 'e) storage_api \<Rightarrow>
   flight_descriptor \<Rightarrow> 'schema \<Rightarrow> 'reader \<Rightarrow> ('b, 'fs, 'e, nat) run" where
  "upload_batches C S d schema reader =
     (case record_batches C reader [0..<num_row_groups C reader] of
        Inl e \<Rightarrow> abandon C S d schema e []
      | Inr batches \<Rightarrow>
         (case send_batches C batches [] of
            Inl (e, sent) \<Rightarrow> abandon C S d schema e sent
          | Inr sent \<Rightarrow>
             (case transport C ''Close'' of
                Some e \<Rightarrow> abandon C S d schema e sent
              | None \<Rightarrow> seq (rpc C ''Close'' (DoPut S d (upload C schema sent))) (\<lambda>_. ret (length sent)))))"

section \<open>The recipes\<close>

abbreviation (input) dataset_name :: string where "dataset_name \<equiv> ''airquality.parquet''"

definition StartServer ::
  "('fs, 'i, 'reader, 'schema, 'table, 'batch, 'stream, 'loc, 'e) client_api \<Rightarrow>
   ('fs, 'i, 'sink, 'reader, 'schema, 'table, 'batch, 'stream, 'loc, 'e) storage_api \<Rightarrow> ('b, 'fs, 'e, unit) run"
where
  "StartServer C S =
     seq (change_fs (create_dir C ''./flight_datasets/'')) (\<lambda>_.
     seq (change_fs (delete_dir_contents C ''./flight_datasets/'')) (\<lambda>_.
     seq (call (for_grpc_tcp C ''0.0.0.0'' 0)) (\<lambda>server_location.
     seq (call (server_init C server_location)) (\<lambda>_.
     emit (''Listening on port '' @ dec_nat (server_port S) @ endl)))))"

definition Connect ::
  "('fs, 'i, 'reader, 'schema, 'table, 'batch, 'stream, 'loc, 'e) client_api \<Rightarrow>
   ('fs, 'i, 'sink, 'reader, 'schema, 'table, 'batch, 'stream, 'loc, 'e) storage_api \<Rightarrow> ('b, 'fs, 'e, unit) run"
where
  "Connect C S =
     seq (call (for_grpc_tcp C ''localhost'' (server_port S))) (\<lambda>location.
     seq (call (connect C location)) (\<lambda>_.
     emit (''Connected to '' @ location_text C location @ endl)))"

definition UploadData ::
  "('fs, 'i, 'reader, 'schema, 'table, 'batch, 'stream, 'loc, 'e) client_api \<Rightarrow>
   ('fs, 'i, 'sink, 'reader, 'schema, 'table, 'batch, 'stream, 'loc, 'e) storage_api \<Rightarrow>
   (fs_path \<Rightarrow> string + bool) \<Rightarrow> fs_path \<Rightarrow> ('b, 'fs, 'e, unit) run"
where
  "UploadData C S exists cwd =
     seq (find_data_file (invalid C) exists cwd dataset_name) (\<lambda>airquality_path.
     seq (read_fs (open_local C airquality_path)) (\<lambda>input.
     seq (call (open_file C input)) (\<lambda>reader.
     seq (call (local_schema C reader)) (\<lambda>schema.
     seq (begin_call C ''DoPut'') (\<lambda>_.
     seq (upload_batches C S (Path [dataset_name]) schema reader) (\<lambda>batches.
     emit (''Wrote '' @ dec_nat batches @ '' batches'' @ endl)))))))"

definition print_flight ::
  "('fs, 'i, 'reader, 'schema, 'table, 'batch, 'stream, 'loc, 'e) client_api \<Rightarrow> ('schema, 'loc) flight_info \<Rightarrow>
   ('b, 'fs, 'e, unit) run" where
  "print_flight C info =
     seq (emit (descriptor_text C (info_descriptor info) @ endl)) (\<lambda>_.
     seq (emit (''=== Schema ==='' @ endl)) (\<lambda>_.
     seq (call (decode_schema C (info_schema info))) (\<lambda>schema.
     seq (emit (schema_text C schema @ endl)) (\<lambda>_.
     emit (''=============='' @ endl)))))"

definition ShowFlight ::
  "('fs, 'i, 'reader, 'schema, 'table, 'batch, 'stream, 'loc, 'e) client_api \<Rightarrow>
   ('fs, 'i, 'sink, 'reader, 'schema, 'table, 'batch, 'stream, 'loc, 'e) storage_api \<Rightarrow>
   ('b, 'fs, 'e, ('schema, 'loc) flight_info) run"
where
  "ShowFlight C S =
     seq (rpc C ''GetFlightInfo'' (GetFlightInfo S (Path [dataset_name]))) (\<lambda>flight_info.
     seq (print_flight C flight_info) (\<lambda>_. ret flight_info))"

definition Download ::
  "('fs, 'i, 'reader, 'schema, 'table, 'batch, 'stream, 'loc, 'e) client_api \<Rightarrow>
   ('fs, 'i, 'sink, 'reader, 'schema, 'table, 'batch, 'stream, 'loc, 'e) storage_api \<Rightarrow>
   ('schema, 'loc) flight_info \<Rightarrow> ('b, 'fs, 'e, unit) run"
where
  "Download C S flight_info =
     seq (rpc C ''DoGet'' (DoGet S (ticket flight_info))) (\<lambda>stream.
     seq (call (stream_table S stream)) (\<lambda>table.
     seq (call (pretty_print C table)) (\<lambda>text_of. emit text_of)))"

definition DropDataset ::
  "('fs, 'i, 'reader, 'schema, 'table, 'batch, 'stream, 'loc, 'e) client_api \<Rightarrow>
   ('fs, 'i, 'sink, 'reader, 'schema, 'table, 'batch, 'stream, 'loc, 'e) storage_api \<Rightarrow> ('b, 'fs, 'e, unit) run"
where
  "DropDataset C S =
     seq (rpc C ''DoAction'' (DoAction S \<lparr>action_type = ''drop_dataset'', action_body = dataset_name\<rparr>)) (\<lambda>_.
     emit (''Deleted dataset'' @ endl))"

fun print_flights ::
  "('fs, 'i, 'reader, 'schema, 'table, 'batch, 'stream, 'loc, 'e) client_api \<Rightarrow> ('schema, 'loc) flight_info list \<Rightarrow>
   ('b, 'fs, 'e, unit) run" where
  "print_flights C [] = ret ()"
| "print_flights C (info # listing) = seq (print_flight C info) (\<lambda>_. print_flights C listing)"

definition ShowListing ::
  "('fs, 'i, 'reader, 'schema, 'table, 'batch, 'stream, 'loc, 'e) client_api \<Rightarrow>
   ('fs, 'i, 'sink, 'reader, 'schema, 'table, 'batch, 'stream, 'loc, 'e) storage_api \<Rightarrow> ('b, 'fs, 'e, unit) run"
where
  "ShowListing C S =
     seq (rpc C ''ListFlights'' (ListFlights S)) (\<lambda>listing.
     seq (print_flights C listing) (\<lambda>_.
     emit (''End of listing'' @ endl)))"

definition StopServer ::
  "('fs, 'i, 'reader, 'schema, 'table, 'batch, 'stream, 'loc, 'e) client_api \<Rightarrow> ('b, 'fs, 'e, unit) run"
where
  "StopServer C =
     seq (call (server_shutdown C)) (\<lambda>_. emit (''Server shut down successfully'' @ endl))"

text \<open>The path of the test data is looked for below; \<open>exists\<close> and \<open>cwd\<close> are the file tree and the current directory.\<close>

definition TestPutGetDelete ::
  "('b, 'a, 't, 'in, 'fs, 'e) arrow_api \<Rightarrow> ('e \<Rightarrow> string) \<Rightarrow>
   ('fs, 'i, 'reader, 'schema, 'table, 'batch, 'stream, 'loc, 'e) client_api \<Rightarrow>
   ('fs, 'i, 'sink, 'reader, 'schema, 'table, 'batch, 'stream, 'loc, 'e) storage_api \<Rightarrow>
   (fs_path \<Rightarrow> string + bool) \<Rightarrow> fs_path \<Rightarrow> ('b, 'fs, 'e, unit) run"
where
  "TestPutGetDelete A ts C S exists cwd =
     seq (in_recipe A ts ''ParquetStorageService::StartServer'' (StartServer C S)) (\<lambda>_.
     seq (in_recipe A ts ''ParquetStorageService::Connect'' (Connect C S)) (\<lambda>_.
     seq (in_recipe A ts ''ParquetStorageService::DoPut'' (UploadData C S exists cwd)) (\<lambda>_.
     seq (in_recipe A ts ''ParquetStorageService::GetFlightInfo'' (ShowFlight C S)) (\<lambda>flight_info.
     seq (in_recipe A ts ''ParquetStorageService::DoGet'' (Download C S flight_info)) (\<lambda>_.
     seq (in_recipe A ts ''ParquetStorageService::DoAction'' (DropDataset C S)) (\<lambda>_.
     seq (in_recipe A ts ''ParquetStorageService::ListFlights'' (ShowListing C S)) (\<lambda>_.
     in_recipe A ts ''ParquetStorageService::StopServer'' (StopServer C))))))))"

definition PutGetDelete ::
  "('b, 'a, 't, 'in, 'fs, 'e) arrow_api \<Rightarrow> ('e \<Rightarrow> string) \<Rightarrow>
   ('fs, 'i, 'reader, 'schema, 'table, 'batch, 'stream, 'loc, 'e) client_api \<Rightarrow>
   ('fs, 'i, 'sink, 'reader, 'schema, 'table, 'batch, 'stream, 'loc, 'e) storage_api \<Rightarrow>
   (fs_path \<Rightarrow> string + bool) \<Rightarrow> fs_path \<Rightarrow> ('b, 'fs) recipes \<Rightarrow> ('b, 'fs) recipes option"
where
  "PutGetDelete A ts C S exists cwd = assert_test ''TestPutGetDelete()'' ts (TestPutGetDelete A ts C S exists cwd)"

section \<open>Early returns\<close>

lemma plain_rpc [plain_intros]: "plain (rpc C name handler)"
  by (cases "transport C name") (simp_all add: rpc_def plain_intros)

lemma plain_begin_call [plain_intros]: "plain (begin_call C name)"
  by (simp add: begin_call_def plain_intros)

lemma plain_abandon [plain_intros]: "plain (abandon C S d schema e sent)"
  by (simp add: abandon_def plain_intros)

lemma plain_upload_batches [plain_intros]: "plain (upload_batches C S d schema reader)"
  unfolding upload_batches_def
  by (auto split: sum.split option.split intro!: plain_intros)

lemma plain_print_flight [plain_intros]: "plain (print_flight C info)"
  unfolding print_flight_def by (intro plain_intros)

lemma plain_print_flights [plain_intros]: "plain (print_flights C listing)"
  by (induction listing) (simp_all only: print_flights.simps plain_intros)

lemma plain_recipes [plain_intros]:
  "plain (StartServer C S)" "plain (Connect C S)" "plain (UploadData C S exists cwd)" "plain (ShowFlight C S)"
  "plain (Download C S info)" "plain (DropDataset C S)" "plain (ShowListing C S)" "plain (StopServer C)"
  unfolding StartServer_def Connect_def UploadData_def ShowFlight_def Download_def DropDataset_def
    ShowListing_def StopServer_def
  by (intro plain_intros)+

text \<open>
  If the test returns a failed status, whatever the call that failed, it leaves the recipe open in which it failed: from then on
  every \<open>StartRecipe\<close> of the test program only records a failure.
\<close>

theorem failed_test_leaves_recipe_open:
  assumes "\<And>s b. \<exists>b'. append_string A s b = Inr b'" "current_recipe w = []"
    and "TestPutGetDelete A ts C S exists cwd w = (Inl (Fails st), w')"
  shows "current_recipe w' \<noteq> [] \<and> (\<forall>n. \<exists>msg. StartRecipe n w' = FAIL msg w')"
proof -
  have "hoare (\<lambda>w. current_recipe w = []) (TestPutGetDelete A ts C S exists cwd)
      (\<lambda>x w. current_recipe w = []) (\<lambda>e w. current_recipe w \<noteq> [])"
    unfolding TestPutGetDelete_def
    by (intro hoare_seq_invariant in_recipe_open [OF assms(1)] plain_recipes list.distinct(2))
  then have "current_recipe w' \<noteq> []" by (rule hoare_errorD [where E = "\<lambda>e w. current_recipe w \<noteq> []"]) (rule assms(2,3))+
  then show ?thesis using open_recipe_blocks by blast
qed


text \<open>If \<open>Append\<close> does not fail, a test that succeeds adds no failure.\<close>

lemma test_passes:
  assumes total: "\<And>s b. \<exists>b'. append_string A s b = Inr b'" and w: "current_recipe w = []"
    and run: "TestPutGetDelete A ts C S exists cwd w = (Inr (), w')"
  shows "test_failures w' = test_failures w"
proof -
  have "hoare (\<lambda>v. current_recipe v = [] \<and> test_failures v = test_failures w) (TestPutGetDelete A ts C S exists cwd)
      (\<lambda>x v. current_recipe v = [] \<and> test_failures v = test_failures w) (\<lambda>_ _. True)"
    unfolding TestPutGetDelete_def
    by (intro hoare_seq_invariant in_recipe_passes [OF total] plain_recipes list.distinct(2))
  from hoare_okD [OF this _ run] show ?thesis using w by simp
qed

section \<open>A test that succeeds\<close>

lemma call_InrD: "call r w = (Inr x, w') \<Longrightarrow> r = Inr x \<and> w' = w"
  by (cases r) (auto simp: call_def)

lemma change_fs_InrD:
  assumes "change_fs f w = (Inr x, w')"
  shows "f (files w) = (Inr x, files w') \<and> rout w' = rout w"
proof (cases "f (files w)")
  case (Pair r fs)
  then show ?thesis using assms call_InrD [of r "w\<lparr>files := fs\<rparr>" x w'] by (simp add: change_fs_def)
qed

lemma emit_InrD: "emit s w = (Inr x, w') \<Longrightarrow> rout w' = rout w @ s \<and> files w' = files w"
  by (auto simp: emit_def rout_write_def)

lemma rpc_InrD:
  assumes "rpc C name handler w = (Inr x, w')"
  shows "handler (files w) = (Inr x, files w') \<and> rout w' = rout w"
proof (cases "transport C name")
  case None
  obtain r fs where h: "handler (files w) = (r, fs)" by (cases "handler (files w)")
  show ?thesis
    using assms None h by (cases r) (auto simp: rpc_def dest: change_fs_InrD)
next
  case (Some e)
  then show ?thesis using assms by (simp add: rpc_def)
qed

lemma send_batches_InrD: "send_batches C bs s0 = Inr s1 \<Longrightarrow> \<exists>l. bs = map Inr l \<and> s1 = s0 @ l"
proof (induction bs arbitrary: s0)
  case Nil
  then show ?case by simp
next
  case (Cons r bs)
  then obtain b where r: "r = Inr b" by (cases r) simp_all
  then have "send_batches C bs (s0 @ [b]) = Inr s1"
    using Cons.prems by (cases "send_batch C b") simp_all
  then obtain l where "bs = map Inr l" "s1 = (s0 @ [b]) @ l" using Cons.IH by blast
  then show ?case using r by (intro exI [of _ "b # l"]) simp
qed

lemma seq_call_InrD: "seq (call r) k w = (Inr x, w') \<Longrightarrow> \<exists>y. r = Inr y \<and> k y w = (Inr x, w')"
  by (cases r) (simp_all add: call_def)

lemma seq_read_InrD: "seq (read_fs f) k w = (Inr x, w') \<Longrightarrow> \<exists>y. f (files w) = Inr y \<and> k y w = (Inr x, w')"
  by (cases "f (files w)") (simp_all add: read_fs_def call_def)

lemma abandon_fails [simp]: "abandon C S d schema e sent w \<noteq> (Inr x, w')"
  by (simp add: abandon_def change_fs_def call_def)

lemma upload_batches_InrD:
  assumes "upload_batches C S d schema reader w = (Inr n, w')"
  shows "\<exists>sent. record_batches C reader [0..<num_row_groups C reader] = Inr (map Inr sent) \<and> n = length sent \<and>
    DoPut S d (upload C schema sent) (files w) = (Inr (), files w') \<and> rout w' = rout w"
proof -
  obtain bs where b: "record_batches C reader [0..<num_row_groups C reader] = Inr bs"
    using assms
    by (cases "record_batches C reader [0..<num_row_groups C reader]") (auto simp: upload_batches_def)
  obtain sent where s: "send_batches C bs [] = Inr sent"
    using assms b by (cases "send_batches C bs []") (auto simp: upload_batches_def)
  have t: "transport C ''Close'' = None"
    using assms b s by (cases "transport C ''Close''") (auto simp: upload_batches_def)
  have "seq (rpc C ''Close'' (DoPut S d (upload C schema sent))) (\<lambda>_. ret (length sent)) w = (Inr n, w')"
    using assms b s t by (simp add: upload_batches_def)
  then show ?thesis
    using b send_batches_InrD [OF s] by (auto elim!: seq_InrE dest!: rpc_InrD)
qed

lemma UploadData_ok:
  assumes L: "store_laws S V" and run: "UploadData C S exists cwd w = (Inr (), w')"
  obtains p input reader schema sent t where "FindTestDataFile exists cwd dataset_name = Some (Inr p)"
    "open_local C p (files w) = Inr input" "open_file C input = Inr reader" "local_schema C reader = Inr schema"
    "record_batches C reader [0..<num_row_groups C reader] = Inr (map Inr sent)"
    "stream_table S (upload C schema sent) = Inr t" "stored V (files w') dataset_name = Some (read_back V t)"
    "rout w' = rout w @ ''Wrote '' @ dec_nat (length sent) @ '' batches'' @ endl"
proof -
  obtain p w1 where 1: "find_data_file (invalid C) exists cwd dataset_name w = (Inr p, w1)"
    and r1: "seq (read_fs (open_local C p)) (\<lambda>input. seq (call (open_file C input)) (\<lambda>reader.
       seq (call (local_schema C reader)) (\<lambda>schema. seq (begin_call C ''DoPut'') (\<lambda>_.
       seq (upload_batches C S (Path [dataset_name]) schema reader) (\<lambda>batches.
       emit (''Wrote '' @ dec_nat batches @ '' batches'' @ endl)))))) w1 = (Inr (), w')"
    using run unfolding UploadData_def by (rule seq_InrE)
  have w1: "w1 = w" and p: "FindTestDataFile exists cwd dataset_name = Some (Inr p)"
    using 1 by (auto simp: find_data_file_def split: option.splits sum.splits search_failure.splits)
  obtain i where i: "open_local C p (files w) = Inr i"
    and r2: "seq (call (open_file C i)) (\<lambda>reader.
       seq (call (local_schema C reader)) (\<lambda>schema. seq (begin_call C ''DoPut'') (\<lambda>_.
       seq (upload_batches C S (Path [dataset_name]) schema reader) (\<lambda>batches.
       emit (''Wrote '' @ dec_nat batches @ '' batches'' @ endl))))) w = (Inr (), w')"
    using seq_read_InrD [OF r1] w1 by blast
  obtain reader where reader: "open_file C i = Inr reader"
    and r3: "seq (call (local_schema C reader)) (\<lambda>schema. seq (begin_call C ''DoPut'') (\<lambda>_.
       seq (upload_batches C S (Path [dataset_name]) schema reader) (\<lambda>batches.
       emit (''Wrote '' @ dec_nat batches @ '' batches'' @ endl)))) w = (Inr (), w')"
    using seq_call_InrD [OF r2] by blast
  obtain schema where schema: "local_schema C reader = Inr schema"
    and r4: "seq (begin_call C ''DoPut'') (\<lambda>_.
       seq (upload_batches C S (Path [dataset_name]) schema reader) (\<lambda>batches.
       emit (''Wrote '' @ dec_nat batches @ '' batches'' @ endl))) w = (Inr (), w')"
    using seq_call_InrD [OF r3] by blast
  have r5: "seq (upload_batches C S (Path [dataset_name]) schema reader) (\<lambda>batches.
       emit (''Wrote '' @ dec_nat batches @ '' batches'' @ endl)) w = (Inr (), w')"
    using seq_call_InrD [OF r4 [unfolded begin_call_def]] by blast
  obtain n w2 where u: "upload_batches C S (Path [dataset_name]) schema reader w = (Inr n, w2)"
    and e: "rout w' = rout w2 @ ''Wrote '' @ dec_nat n @ '' batches'' @ endl" "files w' = files w2"
    using r5 by (auto elim!: seq_InrE dest!: emit_InrD)
  obtain sent where sent: "record_batches C reader [0..<num_row_groups C reader] = Inr (map Inr sent)"
      "n = length sent" "DoPut S (Path [dataset_name]) (upload C schema sent) (files w) = (Inr (), files w2)"
      "rout w2 = rout w"
    using upload_batches_InrD [OF u] by blast
  obtain t where "stream_table S (upload C schema sent) = Inr t" "stored V (files w2) dataset_name = Some (read_back V t)"
    using DoPut_step [OF L sent(3)] by (auto simp: Path_def)
  then show thesis using that p i reader schema sent e by simp
qed

lemma print_flight_files: "print_flight C info w = (Inr (), w') \<Longrightarrow> files w' = files w"
  by (auto simp: print_flight_def elim!: seq_InrE dest!: call_InrD emit_InrD)

lemma print_flights_files: "print_flights C listing w = (Inr (), w') \<Longrightarrow> files w' = files w"
  by (induction listing arbitrary: w) (auto elim!: seq_InrE dest!: print_flight_files)

lemma ShowFlight_ok:
  assumes base: "\<forall>fs f. file_info_of S dataset_name fs = Inr f \<longrightarrow> base_name f = dataset_name"
    and run: "ShowFlight C S w = (Inr info, w')"
  shows "ticket info = dataset_name \<and> files w' = files w"
proof -
  obtain w1 where g: "GetFlightInfo S (Path [dataset_name]) (files w) = (Inr info, files w1)"
      "print_flight C info w1 = (Inr (), w')"
    using run by (auto simp: ShowFlight_def elim!: seq_InrE dest!: rpc_InrD)
  have "files w1 = files w" using GetFlightInfo_reads [of S "Path [dataset_name]" "files w"] g(1) by simp
  moreover obtain f where "file_info_of S dataset_name (files w) = Inr f"
      "MakeFlightInfo S f (files w) = (Inr info, files w1)"
    using g(1) by (auto simp: GetFlightInfo_def Path_def elim!: seq_InrE dest!: FileInfo_InrD)
  ultimately show ?thesis
    using base print_flight_files [OF g(2)] by (auto simp: MakeFlightInfo_def elim!: seq_InrE)
qed

lemma Download_ok:
  assumes L: "store_laws S V" and run: "Download C S info w = (Inr (), w')"
  obtains t s where "stored V (files w) (ticket info) = Some (table_data V t)" "pretty_print C t = Inr s"
    "rout w' = rout w @ s" "files w' = files w"
proof -
  obtain stream w1 where d: "DoGet S (ticket info) (files w) = (Inr stream, files w1)" "rout w1 = rout w"
    and r: "seq (call (stream_table S stream)) (\<lambda>table.
     seq (call (pretty_print C table)) (\<lambda>text_of. emit text_of)) w1 = (Inr (), w')"
    using run by (auto simp: Download_def elim!: seq_InrE dest!: rpc_InrD)
  obtain t where t: "stream_table S stream = Inr t" and r': "seq (call (pretty_print C t)) (\<lambda>text_of. emit text_of) w1 = (Inr (), w')"
    using seq_call_InrD [OF r] by blast
  have "stored V (files w) (ticket info) = Some (table_data V t)" using DoGet_step [OF L d(1)] t by auto
  moreover have "files w1 = files w" using DoGet_reads [of S "ticket info" "files w"] d(1) by simp
  ultimately show thesis
    using that r' d(2) by (auto elim!: seq_InrE dest!: call_InrD emit_InrD)
qed

lemma DropDataset_ok:
  assumes L: "store_laws S V" and run: "DropDataset C S w = (Inr (), w')"
  shows "stored V (files w') dataset_name = None"
proof -
  have "DoAction S \<lparr>action_type = ''drop_dataset'', action_body = dataset_name\<rparr> (files w) = (Inr (), files w')"
    using run by (auto simp: DropDataset_def elim!: seq_InrE dest!: rpc_InrD emit_InrD)
  then show ?thesis using DoAction_step [OF L] by fastforce
qed

lemma StartServer_files:
  "StartServer C S w = (Inr (), w') \<Longrightarrow> \<exists>fs. create_dir C ''./flight_datasets/'' (files w) = (Inr (), fs) \<and>
     delete_dir_contents C ''./flight_datasets/'' fs = (Inr (), files w')"
  by (auto simp: StartServer_def elim!: seq_InrE dest!: call_InrD emit_InrD change_fs_InrD)

lemma Connect_files: "Connect C S w = (Inr (), w') \<Longrightarrow> files w' = files w"
  by (auto simp: Connect_def elim!: seq_InrE dest!: call_InrD emit_InrD)

lemma ShowListing_files: "ShowListing C S w = (Inr (), w') \<Longrightarrow> files w' = files w"
  using ListFlights_reads [of S "files w"]
  by (auto simp: ShowListing_def elim!: seq_InrE dest!: rpc_InrD emit_InrD print_flights_files)

lemma StopServer_files: "StopServer C w = (Inr (), w') \<Longrightarrow> files w' = files w"
  by (auto simp: StopServer_def elim!: seq_InrE dest!: call_InrD emit_InrD)

definition recipe_names :: "string list" where
  "recipe_names =
     [''ParquetStorageService::StartServer'', ''ParquetStorageService::Connect'',
      ''ParquetStorageService::DoPut'', ''ParquetStorageService::GetFlightInfo'',
      ''ParquetStorageService::DoGet'', ''ParquetStorageService::DoAction'',
      ''ParquetStorageService::ListFlights'', ''ParquetStorageService::StopServer'']"

text \<open>The directory of the service, created and emptied: the file system \<open>fs1\<close> on which the test goes on.\<close>

definition prepared :: "('fs, 'i, 'reader, 'schema, 'table, 'batch, 'stream, 'loc, 'e) client_api \<Rightarrow> 'fs \<Rightarrow> 'fs \<Rightarrow> bool" where
  "prepared C fs0 fs1 \<longleftrightarrow> (\<exists>fs. create_dir C ''./flight_datasets/'' fs0 = (Inr (), fs) \<and>
     delete_dir_contents C ''./flight_datasets/'' fs = (Inr (), fs1))"

text \<open>\<open>t\<close> is the table the service has read from the upload: all batches of all row groups of the test data file \<open>airquality.parquet\<close>
  found above the current directory, sent with the schema of that file. The third recipe tells their number.\<close>

definition uploaded ::
  "('fs, 'i, 'reader, 'schema, 'table, 'batch, 'stream, 'loc, 'e) client_api \<Rightarrow>
   ('fs, 'i, 'sink, 'reader, 'schema, 'table, 'batch, 'stream, 'loc, 'e) storage_api \<Rightarrow>
   (fs_path \<Rightarrow> string + bool) \<Rightarrow> fs_path \<Rightarrow> 'fs \<Rightarrow> 'table \<Rightarrow> string list \<Rightarrow> bool"
where
  "uploaded C S exists cwd fs1 t outs \<longleftrightarrow> (\<exists>p input reader schema sent.
     FindTestDataFile exists cwd ''airquality.parquet'' = Some (Inr p) \<and> open_local C p fs1 = Inr input \<and>
     open_file C input = Inr reader \<and> local_schema C reader = Inr schema \<and>
     record_batches C reader [0..<num_row_groups C reader] = Inr (map Inr sent) \<and>
     outs ! 2 = ''Wrote '' @ dec_nat (length sent) @ '' batches'' @ endl \<and>
     stream_table S (upload C schema sent) = Inr t)"

definition holds_upload ::
  "('fs, 'i, 'reader, 'schema, 'table, 'batch, 'stream, 'loc, 'e) client_api \<Rightarrow>
   ('fs, 'i, 'sink, 'reader, 'schema, 'table, 'batch, 'stream, 'loc, 'e) storage_api \<Rightarrow>
   ('fs, 'table, 'data) store_view \<Rightarrow> (fs_path \<Rightarrow> string + bool) \<Rightarrow> fs_path \<Rightarrow> 'fs \<Rightarrow> string list \<Rightarrow> 'fs \<Rightarrow> bool"
where
  "holds_upload C S V exists cwd fs0 outs fs \<longleftrightarrow> (\<exists>fs1 t. prepared C fs0 fs1 \<and> uploaded C S exists cwd fs1 t outs \<and>
     stored V fs dataset_name = Some (read_back V t))"

text \<open>The fifth recipe shows a table with the data that Parquet keeps of the uploaded one.\<close>

definition shows_upload ::
  "('fs, 'i, 'reader, 'schema, 'table, 'batch, 'stream, 'loc, 'e) client_api \<Rightarrow>
   ('fs, 'i, 'sink, 'reader, 'schema, 'table, 'batch, 'stream, 'loc, 'e) storage_api \<Rightarrow>
   ('fs, 'table, 'data) store_view \<Rightarrow> (fs_path \<Rightarrow> string + bool) \<Rightarrow> fs_path \<Rightarrow> 'fs \<Rightarrow> string list \<Rightarrow> bool"
where
  "shows_upload C S V exists cwd fs0 outs \<longleftrightarrow> (\<exists>fs1 t u. prepared C fs0 fs1 \<and> uploaded C S exists cwd fs1 t outs \<and>
     table_data V u = read_back V t \<and> pretty_print C u = Inr (outs ! 4))"

lemma uploaded_append: "2 < length outs \<Longrightarrow> uploaded C S exists cwd fs1 t (outs @ [s]) = uploaded C S exists cwd fs1 t outs"
  by (simp add: uploaded_def nth_append)

lemma holds_upload_append:
  "2 < length outs \<Longrightarrow> holds_upload C S V exists cwd fs0 (outs @ [s]) fs = holds_upload C S V exists cwd fs0 outs fs"
  by (simp add: holds_upload_def uploaded_append)

lemma shows_upload_append:
  "4 < length outs \<Longrightarrow> shows_upload C S V exists cwd fs0 (outs @ [s]) = shows_upload C S V exists cwd fs0 outs"
  by (simp add: shows_upload_def uploaded_append nth_append)

lemma StartServer_stage:
  assumes A: "arrow_laws A bs as"
  shows "hoare (stage bs rows tf (take 0 recipe_names) (\<lambda>_ fs. fs = fs0))
      (in_recipe A ts ''ParquetStorageService::StartServer'' (StartServer C S))
      (\<lambda>_. stage bs rows tf (take 1 recipe_names) (\<lambda>_. prepared C fs0)) (\<lambda>_ _. True)"
  by (rule in_recipe_stage [OF A plain_recipes(1)])
    (auto simp: recipe_names_def prepared_def dest!: StartServer_files)

lemma Connect_stage:
  assumes A: "arrow_laws A bs as"
  shows "hoare (stage bs rows tf (take 1 recipe_names) (\<lambda>_. prepared C fs0))
      (in_recipe A ts ''ParquetStorageService::Connect'' (Connect C S))
      (\<lambda>_. stage bs rows tf (take 2 recipe_names) (\<lambda>_. prepared C fs0)) (\<lambda>_ _. True)"
  by (rule in_recipe_stage [OF A plain_recipes(2)])
    (auto simp: recipe_names_def dest!: Connect_files)

lemma DoPut_stage:
  assumes A: "arrow_laws A bs as" and L: "store_laws S V"
  shows "hoare (stage bs rows tf (take 2 recipe_names) (\<lambda>_. prepared C fs0))
      (in_recipe A ts ''ParquetStorageService::DoPut'' (UploadData C S exists cwd))
      (\<lambda>_. stage bs rows tf (take 3 recipe_names) (holds_upload C S V exists cwd fs0)) (\<lambda>_ _. True)"
proof (rule in_recipe_stage [OF A plain_recipes(3)])
  fix outs :: "string list" and w0 x w1
  assume l: "length outs = length (take 2 recipe_names)" and pre: "prepared C fs0 (files w0)" and r: "rout w0 = []"
    and run: "UploadData C S exists cwd w0 = (Inr x, w1)"
  have l': "length outs = 2" using l by (simp add: recipe_names_def)
  have "UploadData C S exists cwd w0 = (Inr (), w1)" using run by simp
  then obtain p input reader schema sent t where u: "FindTestDataFile exists cwd dataset_name = Some (Inr p)"
    "open_local C p (files w0) = Inr input" "open_file C input = Inr reader" "local_schema C reader = Inr schema"
    "record_batches C reader [0..<num_row_groups C reader] = Inr (map Inr sent)"
    "stream_table S (upload C schema sent) = Inr t" "stored V (files w1) dataset_name = Some (read_back V t)"
    "rout w1 = rout w0 @ ''Wrote '' @ dec_nat (length sent) @ '' batches'' @ endl"
    by (rule UploadData_ok [OF L])
  have "uploaded C S exists cwd (files w0) t (outs @ [rout w1])"
    unfolding uploaded_def using u l' r by (intro exI conjI; (assumption | simp add: nth_append))
  then show "holds_upload C S V exists cwd fs0 (outs @ [rout w1]) (files w1)"
    using pre u(7) unfolding holds_upload_def by blast
qed (simp_all add: recipe_names_def)

lemma GetFlightInfo_stage:
  assumes A: "arrow_laws A bs as"
    and base: "\<forall>fs f. file_info_of S dataset_name fs = Inr f \<longrightarrow> base_name f = dataset_name"
  shows "hoare (stage bs rows tf (take 3 recipe_names) (holds_upload C S V exists cwd fs0))
      (in_recipe A ts ''ParquetStorageService::GetFlightInfo'' (ShowFlight C S))
      (\<lambda>info. stage bs rows tf (take 4 recipe_names)
        (\<lambda>outs fs. ticket info = dataset_name \<and> holds_upload C S V exists cwd fs0 outs fs)) (\<lambda>_ _. True)"
  by (rule in_recipe_stage [OF A plain_recipes(4)])
    (auto simp: recipe_names_def holds_upload_append dest!: ShowFlight_ok [OF base])

lemma DoGet_stage:
  assumes A: "arrow_laws A bs as" and L: "store_laws S V"
  shows "hoare (stage bs rows tf (take 4 recipe_names)
        (\<lambda>outs fs. ticket info = dataset_name \<and> holds_upload C S V exists cwd fs0 outs fs))
      (in_recipe A ts ''ParquetStorageService::DoGet'' (Download C S info))
      (\<lambda>_. stage bs rows tf (take 5 recipe_names) (\<lambda>outs fs. shows_upload C S V exists cwd fs0 outs)) (\<lambda>_ _. True)"
proof (rule in_recipe_stage [OF A plain_recipes(5)])
  fix outs :: "string list" and w0 x w1
  assume l: "length outs = length (take 4 recipe_names)" and h: "ticket info = dataset_name \<and> holds_upload C S V exists cwd fs0 outs (files w0)"
    and r: "rout w0 = []" and run: "Download C S info w0 = (Inr x, w1)"
  have l': "length outs = 4" using l by (simp add: recipe_names_def)
  obtain fs1 t where t: "prepared C fs0 fs1" "uploaded C S exists cwd fs1 t outs" "stored V (files w0) dataset_name = Some (read_back V t)"
    using h unfolding holds_upload_def by blast
  have "Download C S info w0 = (Inr (), w1)" using run by simp
  then obtain u s where u: "stored V (files w0) (ticket info) = Some (table_data V u)" "pretty_print C u = Inr s" "rout w1 = rout w0 @ s"
    by (rule Download_ok [OF L])
  have "table_data V u = read_back V t" "pretty_print C u = Inr ((outs @ [rout w1]) ! 4)"
    using u t(3) h r l' by (simp_all add: nth_append)
  moreover have "uploaded C S exists cwd fs1 t (outs @ [rout w1])" using t(2) l' by (simp add: uploaded_append)
  ultimately show "shows_upload C S V exists cwd fs0 (outs @ [rout w1])" using t(1) unfolding shows_upload_def by blast
qed (simp_all add: recipe_names_def)

lemma DoAction_stage:
  assumes A: "arrow_laws A bs as" and L: "store_laws S V"
  shows "hoare (stage bs rows tf (take 5 recipe_names) (\<lambda>outs fs. shows_upload C S V exists cwd fs0 outs))
      (in_recipe A ts ''ParquetStorageService::DoAction'' (DropDataset C S))
      (\<lambda>_. stage bs rows tf (take 6 recipe_names)
        (\<lambda>outs fs. shows_upload C S V exists cwd fs0 outs \<and> stored V fs dataset_name = None)) (\<lambda>_ _. True)"
  by (rule in_recipe_stage [OF A plain_recipes(6)])
    (auto simp: recipe_names_def shows_upload_append dest: DropDataset_ok [OF L])

lemma ListFlights_stage:
  assumes A: "arrow_laws A bs as"
  shows "hoare (stage bs rows tf (take 6 recipe_names)
        (\<lambda>outs fs. shows_upload C S V exists cwd fs0 outs \<and> stored V fs dataset_name = None))
      (in_recipe A ts ''ParquetStorageService::ListFlights'' (ShowListing C S))
      (\<lambda>_. stage bs rows tf (take 7 recipe_names)
        (\<lambda>outs fs. shows_upload C S V exists cwd fs0 outs \<and> stored V fs dataset_name = None)) (\<lambda>_ _. True)"
  by (rule in_recipe_stage [OF A plain_recipes(7)])
    (auto simp: recipe_names_def shows_upload_append dest!: ShowListing_files)

lemma StopServer_stage:
  assumes A: "arrow_laws A bs as"
  shows "hoare (stage bs rows tf (take 7 recipe_names)
        (\<lambda>outs fs. shows_upload C S V exists cwd fs0 outs \<and> stored V fs dataset_name = None))
      (in_recipe A ts ''ParquetStorageService::StopServer'' (StopServer C))
      (\<lambda>_. stage bs rows tf (take 8 recipe_names)
        (\<lambda>outs fs. shows_upload C S V exists cwd fs0 outs \<and> stored V fs dataset_name = None)) (\<lambda>_ _. True)"
  by (rule in_recipe_stage [OF A plain_recipes(8)])
    (auto simp: recipe_names_def shows_upload_append dest!: StopServer_files)

text \<open>
  A test that returns \<open>OK\<close> and adds no failure has recorded its eight recipes in order; the batches it counts
  are all of the data file's, the table it prints has the data that the service keeps of the table it read from those batches,
  and afterwards the dataset is gone from the service.
\<close>

theorem successful_test:
  assumes A: "arrow_laws A bs as" and L: "store_laws S V"
    and base: "\<forall>fs f. file_info_of S ''airquality.parquet'' fs = Inr f \<longrightarrow> base_name f = ''airquality.parquet''"
    and w: "recorded bs w rows" "current_recipe w = []"
    and run: "TestPutGetDelete A ts C S exists cwd w = (Inr (), w')" and passes: "test_failures w' = test_failures w"
  shows "\<exists>outs. recorded bs w' (rows @ zip recipe_names outs) \<and> length outs = 8 \<and> current_recipe w' = [] \<and>
    shows_upload C S V exists cwd (files w) outs \<and> stored V (files w') ''airquality.parquet'' = None"
proof -
  let ?after = "\<lambda>outs fs. shows_upload C S V exists cwd (files w) outs \<and> stored V fs dataset_name = None"
  have "hoare (stage bs rows (test_failures w) (take 0 recipe_names) (\<lambda>_ fs. fs = files w)) (TestPutGetDelete A ts C S exists cwd)
      (\<lambda>_. stage bs rows (test_failures w) (take 8 recipe_names) ?after) (\<lambda>_ _. True)"
    unfolding TestPutGetDelete_def
    by (rule hoare_seq, rule StartServer_stage [OF A], rule hoare_seq, rule Connect_stage [OF A], rule hoare_seq,
        rule DoPut_stage [OF A L], rule hoare_seq, rule GetFlightInfo_stage [OF A base],
        rule hoare_seq, rule DoGet_stage [OF A L], rule hoare_seq, rule DoAction_stage [OF A L],
        rule hoare_seq, rule ListFlights_stage [OF A], rule StopServer_stage [OF A])
  moreover have "stage bs rows (test_failures w) (take 0 recipe_names) (\<lambda>_ fs. fs = files w) w"
    using w by (simp add: stage_def)
  ultimately have "stage bs rows (test_failures w) (take 8 recipe_names) ?after w'"
    by (rule hoare_okD) (rule run)
  then obtain outs where "length outs = length (take 8 recipe_names)" "recorded bs w' (rows @ zip (take 8 recipe_names) outs)"
      "current_recipe w' = []" "?after outs (files w')"
    using passes by (rule stageE)
  moreover have "take 8 recipe_names = recipe_names" "length recipe_names = 8" by (simp_all add: recipe_names_def)
  ultimately show ?thesis by auto
qed


section \<open>A client to evaluate on\<close>

definition sample_builders ::
  "(string list, string list, nat \<times> string list list list, unit, string \<Rightarrow> nat option option, string) arrow_api" where
  "sample_builders = \<lparr>new_builder = [], append_string = (\<lambda>s b. Inr (b @ [s])), finish = (\<lambda>b. Inr (b, [])),
     builder_length = length, array_length = length,
     get_string = (\<lambda>a i. if i < length a then Some (a ! i) else None),
     make_table = (\<lambda>n arrs. Inr (n, map (\<lambda>a. [a]) arrs)),
     num_rows = fst, column_chunks = (\<lambda>t i. snd t ! i),
     open_input_file = (\<lambda>f fs. Inl ''no such file''), read_stream = (\<lambda>i. Inl ''no such file''),
     open_output_stream = (\<lambda>f fs. (Inr (), fs)),
     write_table = (\<lambda>f t fs. (Inr (), fs)), close_writer = (\<lambda>f fs. (Inr (), fs))\<rparr>"

lemma sample_builders_laws: "arrow_laws sample_builders (\<lambda>b. b) (\<lambda>a. a)"
  by (auto simp: arrow_laws_def sample_builders_def)

text \<open>The data file holds one batch, the table 7; the calls named in \<open>down\<close> do not reach the service.\<close>

definition sample_client ::
  "string list \<Rightarrow>
   (string \<Rightarrow> nat option option, nat option, nat, unit, nat, nat, nat option, string, string) client_api" where
  "sample_client down = \<lparr>create_dir = (\<lambda>d fs. (Inr (), fs)), delete_dir_contents = (\<lambda>d fs. (Inr (), \<lambda>p. None)),
     for_grpc_tcp = (\<lambda>h p. Inr h), server_init = (\<lambda>l. Inr ()), server_shutdown = Inr (),
     location_text = (\<lambda>l. l), connect = (\<lambda>l. Inr ()), open_local = (\<lambda>p fs. Inr (Some 7)),
     open_file = (\<lambda>i. case i of None \<Rightarrow> Inl ''not Parquet'' | Some t \<Rightarrow> Inr t), local_schema = (\<lambda>r. Inr ()),
     num_row_groups = (\<lambda>r. 1), record_batches = (\<lambda>r gs. Inr [Inr r]), send_batch = (\<lambda>b. Inr ()),
     upload = (\<lambda>sc bs. Some (hd bs)), broken_upload = (\<lambda>sc bs. None), transport = (\<lambda>c. if c \<in> set down then Some ''unavailable'' else None),
     remote = (\<lambda>st. case st of Failed e \<Rightarrow> e | Invalid m \<Rightarrow> m | NotImplemented m \<Rightarrow> m),
     descriptor_text = (\<lambda>d. ''PATH''), decode_schema = Inr, schema_text = (\<lambda>s. ''schema''),
     pretty_print = (\<lambda>t. Inr (dec_nat t)), invalid = (\<lambda>m. m)\<rparr>"

definition sample_test :: "string list \<Rightarrow> (string list, string \<Rightarrow> nat option option, string, unit) run" where
  "sample_test down = TestPutGetDelete sample_builders id (sample_client down) sample_store
     (\<lambda>p. Inr (components p = [''repo'', ''testdata''])) \<lparr>has_root = True, components = [''repo'', ''build'']\<rparr>"

definition sample_start :: "(string list, string \<Rightarrow> nat option option) recipes" where
  "sample_start = recipes_init sample_builders (\<lambda>p. None)"

lemmas sample_simps = sample_client_def sample_store_def rpc_def

abbreviation (input) with_data :: "string \<Rightarrow> nat option option" where
  "with_data \<equiv> [''airquality.parquet'' \<mapsto> Some 7]"

lemma sample_found: "FindTestDataFile (\<lambda>p. Inr (components p = [''repo'', ''testdata'']))
    \<lparr>has_root = True, components = [''repo'', ''build'']\<rparr> n =
  Some (Inr \<lparr>has_root = True, components = [''repo'', ''testdata'', n]\<rparr>)"
  by (simp add: FindTestDataFile_def find_test_data.simps has_parent_path_def parent_path_def path_append_def)

lemma ends_rpc:
  "transport C name = None \<Longrightarrow> handler fs = (Inr x, fs') \<Longrightarrow> ends (rpc C name handler) fs (Inr x) fs'"
  by (simp add: rpc_def ends_change_fs)

lemma ends_upload_batches:
  assumes "record_batches C reader [0..<num_row_groups C reader] = Inr bs" "send_batches C bs [] = Inr sent"
    and "transport C ''Close'' = None" "DoPut S d (upload C schema sent) fs = (Inr (), fs')"
  shows "ends (upload_batches C S d schema reader) fs (Inr (length sent)) fs'"
  using assms by (auto simp: upload_batches_def intro!: ends_seq [OF ends_rpc] ends_ret)

lemma sample_calls:
  fixes down :: "string list"
  defines "C \<equiv> sample_client down"
  shows "create_dir C d fs = (Inr (), fs)" "delete_dir_contents C d fs = (Inr (), \<lambda>p. None)"
    "for_grpc_tcp C h k = Inr h" "server_init C l = Inr ()" "server_shutdown C = Inr ()" "connect C l = Inr ()"
    "open_local C p fs = Inr (Some 7)" "open_file C (Some t) = Inr t" "local_schema C t = Inr ()"
    "record_batches C t [0..<num_row_groups C t] = Inr [Inr t]" "send_batches C [Inr t] [] = Inr [t]"
    "decode_schema C sc = Inr sc" "pretty_print C t = Inr (dec_nat t)"
    "upload C sc [t] = Some t" "broken_upload C sc [t] = None"
    "DoPut sample_store (Path [n]) (Some t) fs = (Inr (), fs(file_name n \<mapsto> Some t))"
    "DoPut sample_store (Path [n]) None fs = (Inl (Failed ''broken''), fs(file_name n \<mapsto> None))"
    "stream_table sample_store (Some t) = Inr t"
    "ListFlights sample_store fs = (Inr [], fs)"
  by (simp_all add: C_def sample_client_def)
    (simp_all add: DoPut_def FileInfoFromDescriptor_def Path_def ListFlights_def sample_store_def sample_info_def root_def seq_def)

lemma sample_handlers:
  "fs (file_name p) = Some (Some t) \<Longrightarrow> DoGet sample_store p fs = (Inr (Some t), fs)"
  "fs (file_name p) \<noteq> None \<Longrightarrow>
    DoAction sample_store \<lparr>action_type = ''drop_dataset'', action_body = p\<rparr> fs = (Inr (), fs(file_name p := None))"
  "fs (file_name p) = Some (Some t) \<Longrightarrow> GetFlightInfo sample_store (Path [p]) fs = (Inr \<lparr>info_schema = (),
     info_descriptor = Path [file_name p], ticket = file_name p, locations = [''localhost''], total_records = 1, total_bytes = 4\<rparr>, fs)"
  by (simp_all add: sample_service GetFlightInfo_def MakeFlightInfo_def)
    (simp_all add: sample_store_def sample_info_def root_def seq_def)

lemma sample_dataset:
  "fs ''airquality.parquet'' = Some (Some t) \<Longrightarrow> GetFlightInfo sample_store (Path [''airquality.parquet'']) fs =
    (Inr \<lparr>info_schema = (), info_descriptor = Path [''airquality.parquet''], ticket = ''airquality.parquet'',
      locations = [''localhost''], total_records = 1, total_bytes = 4\<rparr>, fs)"
  "fs ''airquality.parquet'' \<noteq> None \<Longrightarrow> DoAction sample_store \<lparr>action_type = ''drop_dataset'', action_body = ''airquality.parquet''\<rparr> fs =
    (Inr (), fs(''airquality.parquet'' := None))"
  "fs ''airquality.parquet'' = Some (Some t) \<Longrightarrow> DoGet sample_store ''airquality.parquet'' fs = (Inr (Some t), fs)"
  using sample_handlers(1-3) [of fs "''airquality.parquet''"] unfolding sample_names(4) by blast+

lemma sample_start_server: "ends (StartServer (sample_client down) sample_store) fs (Inr ()) (\<lambda>p. None)"
  unfolding StartServer_def by (rule ends_seq ends_intros sample_calls)+

lemma sample_connect: "ends (Connect (sample_client down) sample_store) fs (Inr ()) fs"
  unfolding Connect_def by (rule ends_seq ends_intros sample_calls)+


lemma sample_begin: "c \<notin> set down \<Longrightarrow> ends (begin_call (sample_client down) c) fs (Inr ()) fs"
  unfolding begin_call_def by (rule ends_call) (simp add: sample_client_def)

lemma sample_rpc:
  "name \<notin> set down \<Longrightarrow> handler fs = (Inr x, fs') \<Longrightarrow> ends (rpc (sample_client down) name handler) fs (Inr x) fs'"
  by (rule ends_rpc) (simp add: sample_client_def)

lemma sample_upload_data:
  assumes "''DoPut'' \<notin> set down" "''Close'' \<notin> set down"
  shows "ends (UploadData (sample_client down) sample_store (\<lambda>p. Inr (components p = [''repo'', ''testdata'']))
    \<lparr>has_root = True, components = [''repo'', ''build'']\<rparr>) fs (Inr ()) (fs(dataset_name \<mapsto> Some 7))"
proof -
  have u: "ends (upload_batches (sample_client down) sample_store (Path [dataset_name]) () 7) fs (Inr (length [7 :: nat]))
      (fs(dataset_name \<mapsto> Some 7))"
    by (rule ends_upload_batches [OF sample_calls(10,11)])
      (use assms in \<open>simp_all add: sample_calls(14,16)\<close>, simp add: sample_client_def)
  show ?thesis
    unfolding UploadData_def
    by (rule ends_seq ends_intros sample_calls(7-9) sample_found sample_begin [OF assms(1)] u)+
qed

lemma sample_print_flight: "ends (print_flight (sample_client down) info) fs (Inr ()) fs"
  unfolding print_flight_def by (rule ends_seq ends_intros sample_calls)+

lemma sample_show_flight:
  assumes "''GetFlightInfo'' \<notin> set down" "fs dataset_name = Some (Some 7)"
  shows "ends (ShowFlight (sample_client down) sample_store) fs (Inr \<lparr>info_schema = (),
     info_descriptor = Path [dataset_name], ticket = dataset_name, locations = [''localhost''], total_records = 1,
     total_bytes = 4\<rparr>) fs"
  unfolding ShowFlight_def
  by (rule ends_seq ends_intros sample_rpc [OF assms(1)] sample_dataset(1) assms(2) sample_print_flight)+

lemma sample_download:
  assumes "''DoGet'' \<notin> set down" "fs (file_name (ticket info)) = Some (Some 7)"
  shows "ends (Download (sample_client down) sample_store info) fs (Inr ()) fs"
  unfolding Download_def
  by (rule ends_seq ends_intros sample_rpc [OF assms(1)] sample_handlers(1) assms(2) sample_calls)+

lemma sample_drop_dataset:
  assumes "''DoAction'' \<notin> set down" "fs dataset_name \<noteq> None"
  shows "ends (DropDataset (sample_client down) sample_store) fs (Inr ()) (fs(dataset_name := None))"
  unfolding DropDataset_def
  by (rule ends_seq ends_intros sample_rpc [OF assms(1)] sample_dataset(2) assms(2))+

lemma sample_show_listing:
  assumes "''ListFlights'' \<notin> set down"
  shows "ends (ShowListing (sample_client down) sample_store) fs (Inr ()) fs"
proof -
  have n: "ends (print_flights (sample_client down) []) fs (Inr ()) fs" by (simp only: print_flights.simps ends_ret)
  show ?thesis
    unfolding ShowListing_def by (rule ends_seq ends_emit sample_rpc [OF assms] sample_calls(19) n)+
qed

lemma sample_stop_server: "ends (StopServer (sample_client down)) fs (Inr ()) fs"
  unfolding StopServer_def by (rule ends_seq ends_intros sample_calls)+


lemma sample_run_succeeds:
  "ends (TestPutGetDelete A ts (sample_client []) sample_store (\<lambda>p. Inr (components p = [''repo'', ''testdata'']))
     \<lparr>has_root = True, components = [''repo'', ''build'']\<rparr>) (\<lambda>p. None) (Inr ()) (\<lambda>p. None)"
proof -
  have d: "(\<lambda>p. None)(dataset_name := None) = (\<lambda>p. None :: nat option option)"
    "with_data(dataset_name := None) = (\<lambda>p. None)" "with_data dataset_name = Some (Some 7)"
    by (simp_all add: fun_eq_iff)
  have "ends (TestPutGetDelete A ts (sample_client []) sample_store (\<lambda>p. Inr (components p = [''repo'', ''testdata'']))
     \<lparr>has_root = True, components = [''repo'', ''build'']\<rparr>) (\<lambda>p. None) (Inr ()) (with_data(dataset_name := None))"
    unfolding TestPutGetDelete_def
    by (rule ends_seq, rule ends_in_recipe, rule sample_start_server, rule ends_seq, rule ends_in_recipe,
        rule sample_connect, rule ends_seq, rule ends_in_recipe, rule sample_upload_data, simp, simp,
        rule ends_seq, rule ends_in_recipe, rule sample_show_flight, simp, simp, rule ends_seq,
        rule ends_in_recipe, rule sample_download, simp, simp, rule ends_seq, rule ends_in_recipe,
        rule sample_drop_dataset, simp, simp, rule ends_seq, rule ends_in_recipe, rule sample_show_listing, simp,
        rule ends_in_recipe, rule sample_stop_server)
  then show ?thesis unfolding d .
qed

lemma sample_test_succeeds: "ends (sample_test []) (\<lambda>p. None) (Inr ()) (\<lambda>p. None)"
  unfolding sample_test_def by (rule sample_run_succeeds)

lemma sample_test_fails:
  "ends (sample_test [''GetFlightInfo'']) (\<lambda>p. None) (Inl (Fails ''unavailable'')) with_data"
proof -
  have f: "ends (ShowFlight (sample_client [''GetFlightInfo'']) sample_store) fs (Inl (Fails ''unavailable'')) fs" for fs
    by (simp add: ShowFlight_def rpc_def sample_client_def ends_def)
  show ?thesis
    unfolding sample_test_def TestPutGetDelete_def
    by (rule ends_seq, rule ends_in_recipe, rule sample_start_server, rule ends_seq, rule ends_in_recipe,
        rule sample_connect, rule ends_seq, rule ends_in_recipe, rule sample_upload_data, simp, simp,
        rule ends_seq_error, rule ends_in_recipe, rule f)
qed

lemma sample_start_state:
  "files sample_start = (\<lambda>p. None)" "recorded (\<lambda>b. b) sample_start []" "current_recipe sample_start = []"
  by (simp_all add: sample_start_def recipes_init_def recorded_def) (simp_all add: sample_builders_def)

lemma sample_append: "\<exists>b'. append_string sample_builders s b = Inr b'"
  by (simp add: sample_builders_def)

theorem failed_test_leaves_recipe_open_witness:
  "\<exists>w'. sample_test [''GetFlightInfo''] sample_start = (Inl (Fails ''unavailable''), w') \<and> current_recipe w' \<noteq> [] \<and>
    (\<exists>msg. StartRecipe ''ListPartitionedDataset'' w' = FAIL msg w')"
proof -
  obtain w' where w': "sample_test [''GetFlightInfo''] sample_start = (Inl (Fails ''unavailable''), w')"
    using sample_test_fails sample_start_state(1) by (auto simp: ends_def)
  show ?thesis
    using failed_test_leaves_recipe_open [OF sample_append sample_start_state(3) w' [unfolded sample_test_def]] w' by blast
qed

theorem successful_test_witness:
  "\<exists>w' outs. sample_test [] sample_start = (Inr (), w') \<and> recorded (\<lambda>b. b) w' (zip recipe_names outs) \<and>
    length outs = 8 \<and> stored sample_view (files w') ''airquality.parquet'' = None"
proof -
  obtain w' where w': "sample_test [] sample_start = (Inr (), w')"
    using sample_test_succeeds sample_start_state(1) by (auto simp: ends_def)
  have base: "\<forall>fs f. file_info_of sample_store ''airquality.parquet'' fs = Inr f \<longrightarrow> base_name f = ''airquality.parquet''"
    by (simp add: sample_calls_of_store)
  show ?thesis
    using successful_test [OF sample_builders_laws sample_store_laws base sample_start_state(2,3) w' [unfolded sample_test_def]
        test_passes [OF sample_append sample_start_state(3) w' [unfolded sample_test_def]]] w' by auto
qed

end
