(* ===== verification/Dataset_Recipes.thy ===== *)
theory Dataset_Recipes
  imports Recipe_Runs
begin

text \<open>
  \<open>arrow/cookbook/datasets.cc\<close>: the test fixture that writes the air quality data as a partitioned
  dataset, and the recipes that list and read it. Arrow's calls are the fields of \<open>dataset_calls\<close>.
\<close>

section \<open>The calls to Arrow\<close>

datatype existing_data = kError | kOverwriteOrIgnore | kDeleteMatchingPartitions

text \<open>What the fixture asks of \<open>FileSystemDataset::Write\<close>: a Hive partitioning by two 32-bit columns.\<close>

record write_request =
  base_dir :: string
  partition_columns :: "string list"
  basename_template :: string
  existing_data_behavior :: existing_data

text \<open>
  \<open>open_parquet\<close> is \<open>ParquetFileReader::Open\<close>, which throws. \<open>batch_scanner\<close> scans the batches of a table,
  \<open>discover\<close> makes the factory and finishes the dataset for all files under a directory.
\<close>

record ('fs, 'i, 'pr, 'reader, 'table, 'scanner, 'dataset, 'e) dataset_calls =
  temp_directory_path :: fs_path
  path_text :: "fs_path \<Rightarrow> string"
  open_input :: "fs_path \<Rightarrow> 'fs \<Rightarrow> 'e + 'i"
  open_parquet :: "'i \<Rightarrow> string + 'pr"
  make_reader :: "'pr \<Rightarrow> 'e + 'reader"
  read_table :: "'reader \<Rightarrow> 'e + 'table"
  batch_scanner :: "'table \<Rightarrow> 'e + 'scanner"
  write_dataset :: "write_request \<Rightarrow> 'scanner \<Rightarrow> 'fs \<Rightarrow> ('e + unit) \<times> 'fs"
  list_tree :: "string \<Rightarrow> 'fs \<Rightarrow> 'e + (string \<times> bool) list"
  discover :: "string \<Rightarrow> 'fs \<Rightarrow> 'e + 'dataset"
  dataset_schema_text :: "'dataset \<Rightarrow> string"
  dataset_scanner :: "'dataset \<Rightarrow> 'e + 'scanner"
  scan_table :: "'scanner \<Rightarrow> 'fs \<Rightarrow> 'e + 'table"
  table_rows :: "'table \<Rightarrow> nat"
  table_columns :: "'table \<Rightarrow> nat"
  invalid :: "string \<Rightarrow> 'e"

section \<open>The fixture\<close>

definition ReadInAirQuality ::
  "('fs, 'i, 'pr, 'reader, 'table, 'scanner, 'dataset, 'e) dataset_calls \<Rightarrow> (fs_path \<Rightarrow> string + bool) \<Rightarrow> fs_path \<Rightarrow>
   ('b, 'fs, 'e, 'table) run" where
  "ReadInAirQuality D exists cwd =
     seq (find_data_file (invalid D) exists cwd ''airquality.parquet'') (\<lambda>airquality_path.
     seq (read_fs (open_input D airquality_path)) (\<lambda>input.
     seq (case open_parquet D input of Inl what \<Rightarrow> raise (Throws what) | Inr r \<Rightarrow> ret r) (\<lambda>parquet_reader.
     seq (call (make_reader D parquet_reader)) (\<lambda>reader.
     call (read_table D reader)))))"

text \<open>The two assertions of \<open>WritePartitionedAirQuality\<close> that can fail return from it.\<close>

definition WritePartitionedAirQuality ::
  "('fs, 'i, 'pr, 'reader, 'table, 'scanner, 'dataset, 'e) dataset_calls \<Rightarrow> ('e \<Rightarrow> string) \<Rightarrow> string \<Rightarrow> string \<Rightarrow> 'table \<Rightarrow>
   ('b, 'fs) recipes \<Rightarrow> ('b, 'fs) recipes" where
  "WritePartitionedAirQuality D ts counter airquality_partitioned_dir airquality w =
     ASSERT_OK counter ts (batch_scanner D airquality) (\<lambda>scanner w.
       (case write_dataset D \<lparr>base_dir = airquality_partitioned_dir, partition_columns = [''Month'', ''Day''],
              basename_template = ''chunk-{i}.parquet'', existing_data_behavior = kDeleteMatchingPartitions\<rparr>
              scanner (files w) of
          (r, fs) \<Rightarrow> ASSERT_OK ''arrow::dataset::FileSystemDataset::Write(write_options, std::move(scanner))'' ts r
            (\<lambda>_ w. w) (w\<lparr>files := fs\<rparr>))) w"

definition partitioned_dir :: "('fs, 'i, 'pr, 'reader, 'table, 'scanner, 'dataset, 'e) dataset_calls \<Rightarrow> string" where
  "partitioned_dir D = path_text D (path_append (temp_directory_path D) ''cookbook_cpp_airquality'')"

text \<open>
  \<open>counter\<close> is the text of the expression in \<open>ASSERT_OK_AND_ASSIGN\<close>, whose name the preprocessor
  numbers. \<open>None\<close> if \<open>SetUp\<close> does not return; gtest records an exception.
\<close>

definition SetUp ::
  "('fs, 'i, 'pr, 'reader, 'table, 'scanner, 'dataset, 'e) dataset_calls \<Rightarrow> ('e \<Rightarrow> string) \<Rightarrow> string \<Rightarrow>
   (fs_path \<Rightarrow> string + bool) \<Rightarrow> fs_path \<Rightarrow> ('b, 'fs) recipes \<Rightarrow> ('b, 'fs) recipes option" where
  "SetUp D ts counter exists cwd w =
     (case ReadInAirQuality D exists cwd w of
        (Inr airquality, w') \<Rightarrow> Some (WritePartitionedAirQuality D ts counter (partitioned_dir D) airquality w')
      | (Inl (Fails e), w') \<Rightarrow> Some (ASSERT_OK counter ts (Inl e :: 'e + unit) (\<lambda>_ w. w) w')
      | (Inl (Throws what), w') \<Rightarrow> Some (FAIL what w')
      | (Inl Undefined_behaviour, w') \<Rightarrow> None
      | (Inl Hangs, w') \<Rightarrow> None)"

section \<open>The recipes\<close>

text \<open>The loop that lists files, with the number printed so far; \<open>substr\<close> throws past the text's end.\<close>

fun list_files_loop :: "string \<Rightarrow> nat \<Rightarrow> (string \<times> bool) list \<Rightarrow> ('b, 'fs, 'e, unit) run" where
  "list_files_loop directory_base num_printed [] = ret ()"
| "list_files_loop directory_base num_printed ((path, is_file) # file_infos) =
     (if \<not> is_file then list_files_loop directory_base num_printed file_infos
      else if length path < length directory_base then raise (Throws ''basic_string::substr'')
      else seq (emit (drop (length directory_base) path @ endl)) (\<lambda>_.
        if num_printed + 1 = 10 then emit (''...'' @ endl)
        else list_files_loop directory_base (num_printed + 1) file_infos))"

definition ListPartitionedDataset ::
  "('fs, 'i, 'pr, 'reader, 'table, 'scanner, 'dataset, 'e) dataset_calls \<Rightarrow> string \<Rightarrow> ('b, 'fs, 'e, unit) run" where
  "ListPartitionedDataset D airquality_basedir =
     seq (read_fs (list_tree D airquality_basedir)) (\<lambda>file_infos. list_files_loop airquality_basedir 0 file_infos)"

definition CreatingADataset ::
  "('fs, 'i, 'pr, 'reader, 'table, 'scanner, 'dataset, 'e) dataset_calls \<Rightarrow> string \<Rightarrow> ('b, 'fs, 'e, 'dataset) run" where
  "CreatingADataset D airquality_basedir =
     seq (read_fs (discover D airquality_basedir)) (\<lambda>dataset.
     seq (emit (''We discovered the following schema for the dataset:'' @ endl @ endl @
                dataset_schema_text D dataset @ endl)) (\<lambda>_. ret dataset))"

definition ScanningADataset ::
  "('fs, 'i, 'pr, 'reader, 'table, 'scanner, 'dataset, 'e) dataset_calls \<Rightarrow> 'dataset \<Rightarrow> ('b, 'fs, 'e, unit) run" where
  "ScanningADataset D dataset =
     seq (call (dataset_scanner D dataset)) (\<lambda>scanner.
     seq (read_fs (scan_table D scanner)) (\<lambda>table.
     emit (''Read in a table with '' @ dec_nat (table_rows D table) @ '' rows and '' @
           dec_nat (table_columns D table) @ '' columns'')))"

definition DatasetRead ::
  "('b, 'a, 't, 'in, 'fs, 'e) arrow_api \<Rightarrow> ('e \<Rightarrow> string) \<Rightarrow> ((string \<Rightarrow> string option) \<Rightarrow> (string \<times> string) list) \<Rightarrow>
   ('fs, 'i, 'pr, 'reader, 'table, 'scanner, 'dataset, 'e) dataset_calls \<Rightarrow> string \<Rightarrow> ('b, 'fs, 'e, unit) run" where
  "DatasetRead A ts order D airquality_basedir =
     seq (in_recipe A ts ''ListPartitionedDataset'' (ListPartitionedDataset D airquality_basedir)) (\<lambda>_.
     seq (in_recipe A ts ''CreatingADataset'' (CreatingADataset D airquality_basedir)) (\<lambda>dataset.
     seq (in_recipe A ts ''ScanningADataset'' (ScanningADataset D dataset)) (\<lambda>_.
     dump A order ''TEST_DatasetRead.txt'')))"

text \<open>gtest runs the body of a test only if its \<open>SetUp\<close> recorded no failure.\<close>

definition TestDatasetRead ::
  "('b, 'a, 't, 'in, 'fs, 'e) arrow_api \<Rightarrow> ('e \<Rightarrow> string) \<Rightarrow> ((string \<Rightarrow> string option) \<Rightarrow> (string \<times> string) list) \<Rightarrow>
   ('fs, 'i, 'pr, 'reader, 'table, 'scanner, 'dataset, 'e) dataset_calls \<Rightarrow> string \<Rightarrow> (fs_path \<Rightarrow> string + bool) \<Rightarrow> fs_path \<Rightarrow>
   ('b, 'fs) recipes \<Rightarrow> ('b, 'fs) recipes option" where
  "TestDatasetRead A ts order D counter exists cwd w =
     (case SetUp D ts counter exists cwd w of
        None \<Rightarrow> None
      | Some w' \<Rightarrow>
         (if test_failures w' \<noteq> test_failures w then Some w'
          else assert_test ''DatasetRead(airquality_basedir())'' ts (DatasetRead A ts order D (partitioned_dir D)) w'))"

section \<open>The listing\<close>

definition listed :: "(string \<times> bool) list \<Rightarrow> string list" where
  "listed file_infos = map fst (filter snd file_infos)"

definition listing_line :: "string \<Rightarrow> string \<Rightarrow> string" where
  "listing_line directory_base path = drop (length directory_base) path @ endl"

lemma list_files_loop_text:
  assumes "\<forall>p\<in>set (listed infos). length base \<le> length p" "n < 10"
  shows "\<exists>w'. (list_files_loop base n infos :: ('b, 'fs, 'e, unit) run) w = (Inr (), w') \<and> files w' = files w \<and>
    rout w' = rout w @ concat (map (listing_line base) (take (10 - n) (listed infos))) @
      (if 10 - n \<le> length (listed infos) then ''...'' @ endl else [])"
  using assms
proof (induction infos arbitrary: n w)
  case Nil
  then show ?case by (simp add: listed_def)
next
  case (Cons i infos)
  obtain p f where i: "i = (p, f)" by (cases i)
  show ?case
  proof (cases f)
    case False
    then show ?thesis using Cons.IH [of n w] Cons.prems by (simp add: i listed_def)
  next
    case True
    have len: "length base \<le> length p" using Cons.prems True by (simp add: i listed_def)
    let ?w = "rout_write (listing_line base p) w"
    have l: "listed (i # infos) = p # listed infos" using True by (simp add: i listed_def)
    show ?thesis
    proof (cases "n + 1 = 10")
      case n10: True
      have n: "n = 9" using n10 by simp
      show ?thesis
        using True len by (simp add: n l) (simp add: i emit_def rout_write_def listing_line_def)
    next
      case False
      then have n: "n + 1 < 10" using Cons.prems by simp
      have e: "(list_files_loop base n (i # infos) :: ('b, 'fs, 'e, unit) run) w = list_files_loop base (n + 1) infos ?w"
        using True len False by (simp add: i emit_def listing_line_def)
      have "10 - n = Suc (10 - (n + 1))" using n by simp
      moreover obtain w' where "(list_files_loop base (n + 1) infos :: ('b, 'fs, 'e, unit) run) ?w = (Inr (), w')" "files w' = files ?w"
          "rout w' = rout ?w @ concat (map (listing_line base) (take (10 - (n + 1)) (listed infos))) @
            (if 10 - (n + 1) \<le> length (listed infos) then ''...'' @ endl else [])"
        using Cons.IH [of "n + 1" ?w] Cons.prems(1) n by (auto simp: l)
      ultimately show ?thesis unfolding e l by (simp add: rout_write_def)
    qed
  qed
qed


section \<open>Early returns\<close>

lemma plain_list_files_loop [plain_intros]: "plain (list_files_loop base n infos)"
proof (induction infos arbitrary: n)
  case (Cons i infos)
  obtain p f where "i = (p, f)" by (cases i)
  then show ?case by (simp add: plain_intros Cons.IH)
qed (simp only: list_files_loop.simps plain_ret)

lemma plain_reading [plain_intros]:
  "plain (ListPartitionedDataset D base)" "plain (CreatingADataset D base)" "plain (ScanningADataset D dataset)"
  unfolding ListPartitionedDataset_def CreatingADataset_def ScanningADataset_def
  by (intro plain_intros)+

section \<open>A read that succeeds\<close>

lemma ListPartitionedDataset_ok:
  fixes D :: "('fs, 'i, 'pr, 'reader, 'table, 'scanner, 'dataset, 'e) dataset_calls" and w :: "('b, 'fs) recipes"
  assumes paths: "\<forall>fs infos. list_tree D base fs = Inr infos \<longrightarrow> (\<forall>p\<in>set (listed infos). length base \<le> length p)"
    and run: "ListPartitionedDataset D base w = (Inr (), w')"
  shows "\<exists>infos. list_tree D base (files w) = Inr infos \<and> files w' = files w \<and>
    rout w' = rout w @ concat (map (listing_line base) (take 10 (listed infos))) @
      (if 10 \<le> length (listed infos) then ''...'' @ endl else [])"
proof (cases "list_tree D base (files w)")
  case (Inl e)
  then show ?thesis using run by (simp add: ListPartitionedDataset_def read_fs_def call_def seq_def)
next
  case (Inr infos)
  then have "(list_files_loop base 0 infos :: ('b, 'fs, 'e, unit) run) w = (Inr (), w')"
    using run by (simp add: ListPartitionedDataset_def read_fs_def call_def)
  moreover obtain w1 where "(list_files_loop base 0 infos :: ('b, 'fs, 'e, unit) run) w = (Inr (), w1)" "files w1 = files w"
      "rout w1 = rout w @ concat (map (listing_line base) (take 10 (listed infos))) @
        (if 10 \<le> length (listed infos) then ''...'' @ endl else [])"
    using list_files_loop_text [of infos base 0 w] paths [rule_format, OF Inr] by auto
  ultimately show ?thesis using Inr by simp
qed

lemma CreatingADataset_files: "CreatingADataset D base w = (Inr x, w') \<Longrightarrow> files w' = files w"
  by (cases "discover D base (files w)")
    (auto simp: CreatingADataset_def read_fs_def call_def emit_def rout_write_def seq_def)

lemma ScanningADataset_files: "ScanningADataset D dataset w = (Inr x, w') \<Longrightarrow> files w' = files w"
  by (auto simp: ScanningADataset_def call_def read_fs_def emit_def rout_write_def split: sum.splits elim!: seq_InrE)

definition read_recipes :: "string list" where
  "read_recipes = [''ListPartitionedDataset'', ''CreatingADataset'', ''ScanningADataset'']"

definition listing_of ::
  "('fs, 'i, 'pr, 'reader, 'table, 'scanner, 'dataset, 'e) dataset_calls \<Rightarrow> string \<Rightarrow> 'fs \<Rightarrow> string \<Rightarrow> bool" where
  "listing_of D base fs text_of \<longleftrightarrow> (\<exists>infos. list_tree D base fs = Inr infos \<and>
     text_of = concat (map (listing_line base) (take 10 (listed infos))) @
       (if 10 \<le> length (listed infos) then ''...'' @ endl else []))"

lemma dump_InrD: "dump A order f w = (Inr (), w') \<Longrightarrow> DumpRecipeOutput A order f w = (Inr (), w')"
  by (auto simp: dump_def split: prod.splits sum.splits failure.splits)

lemma silent_dump_step: "dump A order f w = (Inr (), w') \<Longrightarrow> test_failures w' = test_failures w"
  using silent_dump [of A order f] unfolding silent_def by (metis dump_InrD snd_conv)

lemma read_stages:
  assumes A: "arrow_laws A bs as"
    and paths: "\<forall>fs infos. list_tree D base fs = Inr infos \<longrightarrow> (\<forall>p\<in>set (listed infos). length base \<le> length p)"
  shows "hoare (stage bs rows tf [] (\<lambda>outs fs. fs = fs0))
      (in_recipe A ts ''ListPartitionedDataset'' (ListPartitionedDataset D base))
      (\<lambda>_. stage bs rows tf (take 1 read_recipes) (\<lambda>outs fs. fs = fs0 \<and> listing_of D base fs0 (outs ! 0))) (\<lambda>_ _. True)"
    and "hoare (stage bs rows tf (take 1 read_recipes) (\<lambda>outs fs. fs = fs0 \<and> listing_of D base fs0 (outs ! 0)))
      (in_recipe A ts ''CreatingADataset'' (CreatingADataset D base))
      (\<lambda>_. stage bs rows tf (take 2 read_recipes) (\<lambda>outs fs. fs = fs0 \<and> listing_of D base fs0 (outs ! 0))) (\<lambda>_ _. True)"
    and "hoare (stage bs rows tf (take 2 read_recipes) (\<lambda>outs fs. fs = fs0 \<and> listing_of D base fs0 (outs ! 0)))
      (in_recipe A ts ''ScanningADataset'' (ScanningADataset D dataset))
      (\<lambda>_. stage bs rows tf read_recipes (\<lambda>outs fs. fs = fs0 \<and> listing_of D base fs0 (outs ! 0))) (\<lambda>_ _. True)"
proof -
  show "hoare (stage bs rows tf [] (\<lambda>outs fs. fs = fs0))
      (in_recipe A ts ''ListPartitionedDataset'' (ListPartitionedDataset D base))
      (\<lambda>_. stage bs rows tf (take 1 read_recipes) (\<lambda>outs fs. fs = fs0 \<and> listing_of D base fs0 (outs ! 0))) (\<lambda>_ _. True)"
    by (rule in_recipe_stage [OF A plain_reading(1)])
      (auto simp: read_recipes_def listing_of_def dest!: ListPartitionedDataset_ok [OF paths])
  show "hoare (stage bs rows tf (take 1 read_recipes) (\<lambda>outs fs. fs = fs0 \<and> listing_of D base fs0 (outs ! 0)))
      (in_recipe A ts ''CreatingADataset'' (CreatingADataset D base))
      (\<lambda>_. stage bs rows tf (take 2 read_recipes) (\<lambda>outs fs. fs = fs0 \<and> listing_of D base fs0 (outs ! 0))) (\<lambda>_ _. True)"
    by (rule in_recipe_stage [OF A plain_reading(2)])
      (auto simp: read_recipes_def nth_append dest!: CreatingADataset_files)
  show "hoare (stage bs rows tf (take 2 read_recipes) (\<lambda>outs fs. fs = fs0 \<and> listing_of D base fs0 (outs ! 0)))
      (in_recipe A ts ''ScanningADataset'' (ScanningADataset D dataset))
      (\<lambda>_. stage bs rows tf read_recipes (\<lambda>outs fs. fs = fs0 \<and> listing_of D base fs0 (outs ! 0))) (\<lambda>_ _. True)"
    by (rule in_recipe_stage [OF A plain_reading(3)])
      (auto simp: read_recipes_def nth_append dest!: ScanningADataset_files)
qed

lemma DatasetRead_InrE:
  assumes A: "arrow_laws A bs as"
    and paths: "\<forall>fs infos. list_tree D base fs = Inr infos \<longrightarrow> (\<forall>p\<in>set (listed infos). length base \<le> length p)"
    and w: "recorded bs w rows" "current_recipe w = []"
    and run: "DatasetRead A ts order D base w = (Inr (), w')" and passes: "test_failures w' = test_failures w"
  obtains outs w1 where "length outs = 3" "recorded bs w1 (rows @ zip read_recipes outs)" "files w1 = files w"
    "listing_of D base (files w) (outs ! 0)" "DumpRecipeOutput A order ''TEST_DatasetRead.txt'' w1 = (Inr (), w')"
    "test_failures w1 = test_failures w"
proof -
  note S = read_stages [OF A paths, of rows "test_failures w" "files w" ts]
  have w0: "stage bs rows (test_failures w) [] (\<lambda>outs fs. fs = files w) w"
    using w by (simp add: stage_def)
  obtain w1 where 1: "in_recipe A ts ''ListPartitionedDataset'' (ListPartitionedDataset D base) w = (Inr (), w1)"
    and r1: "seq (in_recipe A ts ''CreatingADataset'' (CreatingADataset D base)) (\<lambda>dataset.
     seq (in_recipe A ts ''ScanningADataset'' (ScanningADataset D dataset)) (\<lambda>_.
     dump A order ''TEST_DatasetRead.txt'')) w1 = (Inr (), w')"
    using run unfolding DatasetRead_def by (auto elim: seq_InrE)
  obtain dataset w2 where 2: "in_recipe A ts ''CreatingADataset'' (CreatingADataset D base) w1 = (Inr dataset, w2)"
    and r2: "seq (in_recipe A ts ''ScanningADataset'' (ScanningADataset D dataset)) (\<lambda>_.
     dump A order ''TEST_DatasetRead.txt'') w2 = (Inr (), w')"
    using r1 by (rule seq_InrE)
  obtain w3 where 3: "in_recipe A ts ''ScanningADataset'' (ScanningADataset D dataset) w2 = (Inr (), w3)"
      "dump A order ''TEST_DatasetRead.txt'' w3 = (Inr (), w')"
    using r2 by (auto elim!: seq_InrE)
  have tf: "test_failures w3 = test_failures w" using silent_dump_step [OF 3(2)] passes by simp
  have "stage bs rows (test_failures w) read_recipes (\<lambda>outs fs. fs = files w \<and> listing_of D base (files w) (outs ! 0)) w3"
    by (rule hoare_okD [OF S(3) hoare_okD [OF S(2) hoare_okD [OF S(1) w0 1] 2] 3(1)])
  then obtain outs where "length outs = length read_recipes" "recorded bs w3 (rows @ zip read_recipes outs)"
      "files w3 = files w" "listing_of D base (files w) (outs ! 0)"
    using tf by (auto elim: stageE)
  moreover have "length read_recipes = 3" by (simp add: read_recipes_def)
  ultimately show thesis using that dump_InrD [OF 3(2)] tf by simp
qed

text \<open>
  A read that succeeds lists the first ten files of the dataset, and puts the dots after the tenth even
  if there is no other. It dumps every recipe recorded so far, those of earlier tests included, into
  \<open>TEST_DatasetRead.txt\<close>; after it there is no recipe output left, and \<open>main\<close> writes no output file.
\<close>

theorem dataset_read_takes_all_recipes:
  assumes A: "arrow_laws A bs as"
    and F: "file_laws A as" and o': "lists_map order"
    and paths: "\<forall>fs infos. list_tree D base fs = Inr infos \<longrightarrow> (\<forall>p\<in>set (listed infos). length base \<le> length p)"
    and w: "recorded bs w rows" "current_recipe w = []"
    and old: "file_rows A as ''TEST_DatasetRead.txt'' (files w) old"
    and run: "DatasetRead A ts order D base w = (Inr (), w')" and passes: "test_failures w' = test_failures w"
  shows "\<exists>outs merged. length outs = 3 \<and> listing_of D base (files w) (outs ! 0) \<and>
    file_rows A as ''TEST_DatasetRead.txt'' (files w') merged \<and> distinct (map fst merged) \<and>
    map_of merged = map_of (rev old) ++ map_of (rev (rows @ zip read_recipes outs)) \<and>
    \<not> HasRecipeOutput A w' \<and> main_cookbook A order 0 w' = (Some 0, w')"
proof -
  obtain outs w1 where 1: "length outs = 3" "recorded bs w1 (rows @ zip read_recipes outs)" "files w1 = files w"
      "listing_of D base (files w) (outs ! 0)" "DumpRecipeOutput A order ''TEST_DatasetRead.txt'' w1 = (Inr (), w')"
      "test_failures w1 = test_failures w"
    by (rule DatasetRead_InrE [OF A paths w run passes])
  have ne: "rows @ zip read_recipes outs \<noteq> []" using 1(1) by (cases outs) (auto simp: read_recipes_def)
  have old1: "file_rows A as ''TEST_DatasetRead.txt'' (files w1) old" using old 1(3) by simp
  obtain merged where m: "file_rows A as ''TEST_DatasetRead.txt'' (files w') merged" "distinct (map fst merged)"
      "map_of merged = map_of (rev old) ++ map_of (rev (rows @ zip read_recipes outs))" "\<not> HasRecipeOutput A w'"
    using dump_result [OF A F o' 1(2) ne old1 1(5)] by blast
  then show ?thesis using 1 by (auto simp: main_cookbook_def)
qed


section \<open>A dataset to evaluate on\<close>

definition sample_dataset_calls ::
  "(string \<Rightarrow> (nat \<times> string list list list) option, unit, unit, unit, nat, unit, unit, string) dataset_calls" where
  "sample_dataset_calls = \<lparr>temp_directory_path = \<lparr>has_root = True, components = [''tmp'']\<rparr>,
     path_text = (\<lambda>p. concat (map (\<lambda>c. CHR ''/'' # c) (components p))),
     open_input = (\<lambda>p fs. Inr ()), open_parquet = Inr, make_reader = Inr, read_table = (\<lambda>r. Inr 153),
     batch_scanner = (\<lambda>t. Inr ()), write_dataset = (\<lambda>q s fs. (Inr (), fs)),
     list_tree = (\<lambda>d fs. Inr [(d @ ''/Month=5'', False), (d @ ''/Month=5/chunk-0.parquet'', True)]),
     discover = (\<lambda>d fs. Inr ()), dataset_schema_text = (\<lambda>d. ''Month: int32''), dataset_scanner = Inr,
     scan_table = (\<lambda>s fs. Inr 153), table_rows = (\<lambda>t. t), table_columns = (\<lambda>t. 6), invalid = (\<lambda>m. m)\<rparr>"

lemma sample_paths: "\<forall>fs infos. list_tree sample_dataset_calls base fs = Inr infos \<longrightarrow>
    (\<forall>p\<in>set (listed infos). length base \<le> length p)"
  by (simp add: sample_dataset_calls_def) (auto simp: listed_def)

lemma sample_read:
  assumes "recorded (\<lambda>b. b) w rows" "current_recipe w = []" "files w = fs0" "fs0 ''TEST_DatasetRead.txt'' = None"
  shows "\<exists>w'. DatasetRead sample_arrow id order sample_dataset_calls base w = (Inr (), w') \<and> test_failures w' = test_failures w"
proof -
  have t: "\<And>s b. \<exists>b'. append_string sample_arrow s b = Inr b'" by (simp add: sample_arrow_def)
  note S = read_stages [OF sample_arrow_laws sample_paths, where rows = rows and tf = "test_failures w" and ?fs0.0 = fs0 and ts = id and base = base]
  note P = in_recipe_passes [OF t, where tf = "test_failures w" and ts = id]
  have b: "ends (ListPartitionedDataset sample_dataset_calls base) fs (Inr ()) fs"
    "ends (CreatingADataset sample_dataset_calls base) fs (Inr ()) fs"
    "ends (ScanningADataset sample_dataset_calls ()) fs (Inr ()) fs" for fs
    by (simp_all add: ends_def ListPartitionedDataset_def CreatingADataset_def ScanningADataset_def
        sample_dataset_calls_def read_fs_def call_def emit_def rout_write_def)
  obtain w1 where 1: "in_recipe sample_arrow id ''ListPartitionedDataset'' (ListPartitionedDataset sample_dataset_calls base) w = (Inr (), w1)"
      "files w1 = fs0"
    using ends_in_recipe [OF b(1)] assms(3) unfolding ends_def by blast
  obtain w2 where 2: "in_recipe sample_arrow id ''CreatingADataset'' (CreatingADataset sample_dataset_calls base) w1 = (Inr (), w2)"
      "files w2 = fs0"
    using ends_in_recipe [OF b(2)] 1(2) unfolding ends_def by blast
  obtain w3 where 3: "in_recipe sample_arrow id ''ScanningADataset'' (ScanningADataset sample_dataset_calls ()) w2 = (Inr (), w3)"
      "files w3 = fs0"
    using ends_in_recipe [OF b(3)] 2(2) unfolding ends_def by blast
  have "stage (\<lambda>b. b) rows (test_failures w) [] (\<lambda>outs fs. fs = fs0) w" using assms by (simp add: stage_def)
  then have "stage (\<lambda>b. b) rows (test_failures w) read_recipes (\<lambda>outs fs. fs = fs0 \<and> listing_of sample_dataset_calls base fs0 (outs ! 0)) w3"
    using hoare_okD [OF S(3) hoare_okD [OF S(2) hoare_okD [OF S(1) _ 1(1)] 2(1)] 3(1)] by blast
  moreover have tf: "test_failures w3 = test_failures w"
    using hoare_okD [OF P hoare_okD [OF P hoare_okD [OF P _ 1(1)] 2(1)] 3(1)] assms(2) by (simp add: plain_reading)
  ultimately obtain rows' where "recorded (\<lambda>b. b) w3 rows'" by (auto elim: stageE)
  then obtain w4 where w4: "DumpRecipeOutput sample_arrow order ''TEST_DatasetRead.txt'' w3 = (Inr (), w4)"
    using dump_succeeds [OF sample_arrow_laws sample_never_fails, of w3 rows' "''TEST_DatasetRead.txt''"] 3(2) assms(4)
    by (auto simp: sample_arrow_def)
  then have "dump sample_arrow order ''TEST_DatasetRead.txt'' w3 = (Inr (), w4)" by (simp add: dump_def)
  moreover from silent_dump_step [OF this] have "test_failures w4 = test_failures w" using tf by simp
  ultimately show ?thesis using 1 2 3 by (simp add: DatasetRead_def)
qed

theorem dataset_read_takes_all_recipes_witness:
  "\<exists>w' merged. DatasetRead sample_arrow id sorted_pairs sample_dataset_calls ''/d'' sample_recorded = (Inr (), w') \<and>
    file_rows sample_arrow (\<lambda>a. a) ''TEST_DatasetRead.txt'' (files w') merged \<and>
    map_of merged ''Start'' = Some ''Listening'' \<and> main_cookbook sample_arrow sorted_pairs 0 w' = (Some 0, w')"
proof -
  let ?rows = "[(''Start'', ''Listening''), (''Stop'', ''Done'')]"
  have files: "files sample_recorded = (\<lambda>f. None)" and cr: "current_recipe sample_recorded = []"
    by (simp_all add: sample_recorded_def recipe_def EndRecipe_def StartRecipe_def rout_write_def ASSERT_OK_def
        recipes_init_def) (simp_all add: sample_arrow_def)
  have rec: "recorded (\<lambda>b. b) sample_recorded ?rows"
    using recipes_are_recorded [OF sample_arrow_laws, of ?rows id "\<lambda>f. None"]
    by (simp add: sample_recorded_def) (simp add: sample_arrow_def)
  have old: "file_rows sample_arrow (\<lambda>a. a) ''TEST_DatasetRead.txt'' (files sample_recorded) []"
    unfolding files by (simp add: file_rows_def sample_arrow_def)
  obtain w' where w': "DatasetRead sample_arrow id sorted_pairs sample_dataset_calls ''/d'' sample_recorded = (Inr (), w')"
      "test_failures w' = test_failures sample_recorded"
    using sample_read [OF rec cr files] by blast
  obtain outs merged where m: "length outs = 3"
      "file_rows sample_arrow (\<lambda>a. a) ''TEST_DatasetRead.txt'' (files w') merged"
      "map_of merged = map_of (rev []) ++ map_of (rev (?rows @ zip read_recipes outs))"
      "main_cookbook sample_arrow sorted_pairs 0 w' = (Some 0, w')"
    using dataset_read_takes_all_recipes [OF sample_arrow_laws sample_file_laws sorted_pairs_lists_map sample_paths
        rec cr old w'] by blast
  have "map_of (rev (?rows @ zip read_recipes outs)) ''Start'' = Some ''Listening''"
    using m(1) by (auto simp: read_recipes_def numeral_3_eq_3 length_Suc_conv map_add_def)
  then have "map_of merged ''Start'' = Some ''Listening''" unfolding m(3) by (simp del: rev_append)
  then show ?thesis using w'(1) m(2,4) by blast
qed

end
