(* ===== verification/Cookbook.thy ===== *)
theory Cookbook
  imports Flight_Client Dataset_Recipes "HOL-Library.Countable"
begin

text \<open>
  The two programs of the cookbook as a whole: \<open>main.cc\<close> and \<open>common.cc\<close> with the test of \<open>flight.cc\<close> and with the test of
  \<open>datasets.cc\<close>, each built into an executable of its own (\<open>CMakeLists.txt\<close>). What can be said of a run that exits with 0.
\<close>

section \<open>The programs\<close>

text \<open>gtest's result for a program with one test: whether a failure has been recorded.\<close>

definition RUN_ALL_TESTS ::
  "(('b, 'fs) recipes \<Rightarrow> ('b, 'fs) recipes option) \<Rightarrow> ('b, 'fs) recipes \<Rightarrow> (int \<times> ('b, 'fs) recipes) option" where
  "RUN_ALL_TESTS test w = map_option (\<lambda>w'. (if test_failures w' = [] then 0 else 1, w')) (test w)"

definition run_program ::
  "('b, 'a, 't, 'in, 'fs, 'e) arrow_api \<Rightarrow> ((string \<Rightarrow> string option) \<Rightarrow> (string \<times> string) list) \<Rightarrow>
   (('b, 'fs) recipes \<Rightarrow> ('b, 'fs) recipes option) \<Rightarrow> 'fs \<Rightarrow> (int option \<times> ('b, 'fs) recipes) option" where
  "run_program A order test fs =
     map_option (\<lambda>(retval, w). main_cookbook A order retval w) (RUN_ALL_TESTS test (recipes_init A fs))"

definition flight_program ::
  "('b, 'a, 't, 'in, 'fs, 'e) arrow_api \<Rightarrow> ('e \<Rightarrow> string) \<Rightarrow> ((string \<Rightarrow> string option) \<Rightarrow> (string \<times> string) list) \<Rightarrow>
   ('fs, 'i, 'reader, 'schema, 'table, 'batch, 'stream, 'loc, 'e) client_api \<Rightarrow>
   ('fs, 'i, 'sink, 'reader, 'schema, 'table, 'batch, 'stream, 'loc, 'e) storage_api \<Rightarrow>
   (fs_path \<Rightarrow> string + bool) \<Rightarrow> fs_path \<Rightarrow> 'fs \<Rightarrow> (int option \<times> ('b, 'fs) recipes) option" where
  "flight_program A ts order C S exists cwd = run_program A order (PutGetDelete A ts C S exists cwd)"

definition datasets_program ::
  "('b, 'a, 't, 'in, 'fs, 'e) arrow_api \<Rightarrow> ('e \<Rightarrow> string) \<Rightarrow> ((string \<Rightarrow> string option) \<Rightarrow> (string \<times> string) list) \<Rightarrow>
   ('fs, 'i, 'pr, 'reader, 'table, 'scanner, 'dataset, 'e) dataset_calls \<Rightarrow> string \<Rightarrow> (fs_path \<Rightarrow> string + bool) \<Rightarrow> fs_path \<Rightarrow> 'fs \<Rightarrow>
   (int option \<times> ('b, 'fs) recipes) option" where
  "datasets_program A ts order D counter exists cwd = run_program A order (TestDatasetRead A ts order D counter exists cwd)"

section \<open>Exit status 0\<close>

lemma main_cookbook_zero:
  assumes "main_cookbook A order retval w = (Some 0, w')"
  shows "retval = 0 \<and> (if HasRecipeOutput A w then DumpRecipeOutput A order ''recipes_out.arrow'' w = (Inr (), w') else w' = w)"
proof (cases "retval = 0 \<and> HasRecipeOutput A w")
  case True
  obtain r w1 where d: "DumpRecipeOutput A order ''recipes_out.arrow'' w = (r, w1)" by (cases "DumpRecipeOutput A order ''recipes_out.arrow'' w")
  show ?thesis
  proof (cases r)
    case (Inl f)
    then show ?thesis using assms True d by (cases f) (simp_all add: main_cookbook_def)
  qed (use assms True d in \<open>simp add: main_cookbook_def split: unit.splits\<close>)
next
  case False
  then show ?thesis using assms by (simp add: main_cookbook_def) (metis prod.inject option.inject)
qed

lemma run_program_zero:
  assumes "run_program A order test fs = Some (Some 0, w')"
  obtains w where "test (recipes_init A fs) = Some w" "test_failures w = []" "main_cookbook A order 0 w = (Some 0, w')"
proof -
  obtain w where w: "test (recipes_init A fs) = Some w" "main_cookbook A order (if test_failures w = [] then 0 else 1) w = (Some 0, w')"
    using assms by (auto simp: run_program_def RUN_ALL_TESTS_def)
  then have "test_failures w = []" using main_cookbook_zero [OF w(2)] by (simp split: if_splits)
  then show thesis using that w by simp
qed

lemma assert_test_passes:
  assumes "assert_test expr ts f w = Some w'" "test_failures w' = []"
  shows "f w = (Inr (), w')"
proof (cases "f w")
  case (Pair r w1)
  show ?thesis
  proof (cases r)
    case (Inl e)
    then show ?thesis using assms Pair by (cases e) (auto simp: assert_test_def ASSERT_OK_def FAIL_def)
  qed (use assms Pair in \<open>simp add: assert_test_def\<close>)
qed

lemma recipes_init_ok:
  assumes "arrow_laws A bs as"
  shows "recorded bs (recipes_init A fs) []" "current_recipe (recipes_init A fs) = []" "test_failures (recipes_init A fs) = []"
  using arrow_lawsD(1) [OF assms] by (simp_all add: recipes_init_def recorded_def)

lemma recipes_init_files: "files (recipes_init A fs) = fs"
  by (simp add: recipes_init_def)

lemma plain_ReadInAirQuality: "plain (ReadInAirQuality D exists cwd)"
  unfolding ReadInAirQuality_def by (auto split: sum.split intro!: plain_intros)

lemma SetUp_record:
  assumes "SetUp D ts counter exists cwd w = Some w'"
  shows "test_names_builder w' = test_names_builder w \<and> test_output_builder w' = test_output_builder w \<and>
    current_recipe w' = current_recipe w"
proof (cases "ReadInAirQuality D exists cwd w")
  case (Pair r w1)
  then have s: "same_record w w1" by (rule plainD [OF plain_ReadInAirQuality])
  show ?thesis
  proof (cases r)
    case (Inl e)
    then show ?thesis using assms Pair s by (cases e) (auto simp: SetUp_def ASSERT_OK_def FAIL_def same_record_def)
  next
    case (Inr t)
    then show ?thesis
      using assms Pair s
      by (auto simp: SetUp_def WritePartitionedAirQuality_def ASSERT_OK_def FAIL_def same_record_def split: sum.splits prod.splits)
  qed
qed

text \<open>
  If the flight program exits with 0, its test has succeeded and the output file holds the eight recipes of the test, merged with
  what was in it.
\<close>

lemma flight_exit_zero:
  assumes A: "arrow_laws A bs as" "file_laws A as" "lists_map order" and L: "store_laws S V"
    and base: "\<forall>fs f. file_info_of S ''airquality.parquet'' fs = Inr f \<longrightarrow> base_name f = ''airquality.parquet''"
    and exit: "flight_program A ts order C S exists cwd fs = Some (Some 0, w')"
    and test: "PutGetDelete A ts C S exists cwd (recipes_init A fs) = Some w"
    and old: "file_rows A as ''recipes_out.arrow'' (files w) old"
  shows "\<exists>outs merged. length outs = 8 \<and> shows_upload C S V exists cwd fs outs \<and>
    stored V (files w) ''airquality.parquet'' = None \<and>
    file_rows A as ''recipes_out.arrow'' (files w') merged \<and> distinct (map fst merged) \<and>
    map_of merged = map_of (rev old) ++ map_of (rev (zip recipe_names outs))"
proof -
  have w: "test_failures w = []" "main_cookbook A order 0 w = (Some 0, w')"
    using exit test by (auto simp: flight_program_def elim: run_program_zero)
  note start = recipes_init_ok [OF A(1), of fs]
  have run: "TestPutGetDelete A ts C S exists cwd (recipes_init A fs) = (Inr (), w)"
    using test w(1) unfolding PutGetDelete_def by (rule assert_test_passes)
  have passes: "test_failures w = test_failures (recipes_init A fs)" using w(1) start(3) by simp
  obtain outs where o': "recorded bs w ([] @ zip recipe_names outs)" "length outs = 8"
      "shows_upload C S V exists cwd fs outs" "stored V (files w) ''airquality.parquet'' = None"
    using successful_test [OF A(1) L base start(1,2) run passes] unfolding recipes_init_files by blast
  have rec: "recorded bs w (zip recipe_names outs)" "zip recipe_names outs \<noteq> []"
    using o'(1,2) by (auto simp: recipe_names_def)
  then have "HasRecipeOutput A w" using arrow_lawsD(4) [OF A(1)] by (auto simp: HasRecipeOutput_def recorded_def)
  then have dump: "DumpRecipeOutput A order ''recipes_out.arrow'' w = (Inr (), w')" using main_cookbook_zero [OF w(2)] by simp
  show ?thesis using dump_result [OF A(1-3) rec old dump] o'(2-4) by blast
qed

text \<open>
  If the datasets program exits with 0, the recipes are in \<open>TEST_DatasetRead.txt\<close>, and \<open>main\<close> has done nothing: there is never a
  file \<open>recipes_out.arrow\<close> from it.
\<close>

lemma datasets_exit_zero:
  assumes A: "arrow_laws A bs as" "file_laws A as" "lists_map order"
    and paths: "\<forall>fs infos. list_tree D (partitioned_dir D) fs = Inr infos \<longrightarrow>
      (\<forall>p\<in>set (listed infos). length (partitioned_dir D) \<le> length p)"
    and exit: "datasets_program A ts order D counter exists cwd fs = Some (Some 0, w')"
    and fixture: "SetUp D ts counter exists cwd (recipes_init A fs) = Some w"
    and old: "file_rows A as ''TEST_DatasetRead.txt'' (files w) old"
  shows "\<exists>outs merged. length outs = 3 \<and> listing_of D (partitioned_dir D) (files w) (outs ! 0) \<and>
    file_rows A as ''TEST_DatasetRead.txt'' (files w') merged \<and> distinct (map fst merged) \<and>
    map_of merged = map_of (rev old) ++ map_of (rev (zip read_recipes outs)) \<and>
    TestDatasetRead A ts order D counter exists cwd (recipes_init A fs) = Some w'"
proof -
  obtain w2 where w2: "TestDatasetRead A ts order D counter exists cwd (recipes_init A fs) = Some w2" "test_failures w2 = []"
      "main_cookbook A order 0 w2 = (Some 0, w')"
    using exit unfolding datasets_program_def by (rule run_program_zero)
  have "test_failures w = []" using w2(1,2) fixture recipes_init_ok(3) [OF A(1)] by (auto simp: TestDatasetRead_def split: if_splits)
  then have "assert_test ''DatasetRead(airquality_basedir())'' ts (DatasetRead A ts order D (partitioned_dir D)) w = Some w2"
    using w2(1) fixture recipes_init_ok(3) [OF A(1)] by (simp add: TestDatasetRead_def)
  then have run: "DatasetRead A ts order D (partitioned_dir D) w = (Inr (), w2)" using w2(2) by (rule assert_test_passes)
  have passes: "test_failures w2 = test_failures w" using w2(2) \<open>test_failures w = []\<close> by simp
  have rec: "recorded bs w []" "current_recipe w = []"
    using SetUp_record [OF fixture] recipes_init_ok(1,2) [OF A(1)] by (simp_all add: recorded_def)
  obtain outs merged where m: "length outs = 3" "listing_of D (partitioned_dir D) (files w) (outs ! 0)"
      "file_rows A as ''TEST_DatasetRead.txt'' (files w2) merged" "distinct (map fst merged)"
      "map_of merged = map_of (rev old) ++ map_of (rev ([] @ zip read_recipes outs))" "\<not> HasRecipeOutput A w2"
    using dataset_read_takes_all_recipes [OF A paths rec old run passes] by blast
  have "w' = w2" using main_cookbook_zero [OF w2(3)] m(6) by simp
  then show ?thesis using m w2(1) by auto
qed

section \<open>An Arrow over the file system of the flight sample\<close>

text \<open>\<open>sample_client\<close> keeps numbers in its files; \<open>coded_arrow\<close> writes tables of recipes as numbers.\<close>

definition code_text :: "string \<Rightarrow> nat" where "code_text s = list_encode (map of_char s)"

definition text_of_code :: "nat \<Rightarrow> string" where "text_of_code n = map char_of (list_decode n)"

definition code_table :: "nat \<times> string list list list \<Rightarrow> nat" where
  "code_table t = list_encode [fst t, list_encode (map (\<lambda>c. list_encode (map (\<lambda>a. list_encode (map code_text a)) c)) (snd t))]"

definition table_of_code :: "nat \<Rightarrow> nat \<times> string list list list" where
  "table_of_code n =
     (case list_decode n of
        [k, m] \<Rightarrow> (k, map (\<lambda>c. map (\<lambda>a. map text_of_code (list_decode a)) (list_decode c)) (list_decode m))
      | _ \<Rightarrow> (0, []))"

lemma text_of_code_text [simp]: "text_of_code (code_text s) = s"
  by (simp add: text_of_code_def code_text_def comp_def)

lemma table_of_code_table [simp]: "table_of_code (code_table t) = t"
  by (cases t) (simp add: table_of_code_def code_table_def comp_def)

definition coded_arrow ::
  "(string list, string list, nat \<times> string list list list, nat \<times> string list list list, string \<Rightarrow> nat option option, string) arrow_api" where
  "coded_arrow = \<lparr>new_builder = [], append_string = (\<lambda>s b. Inr (b @ [s])), finish = (\<lambda>b. Inr (b, [])),
     builder_length = length, array_length = length,
     get_string = (\<lambda>a i. if i < length a then Some (a ! i) else None),
     make_table = (\<lambda>n arrs. Inr (n, map (\<lambda>a. [a]) arrs)), num_rows = fst, column_chunks = (\<lambda>t i. snd t ! i),
     open_input_file = (\<lambda>f fs. case fs f of Some (Some n) \<Rightarrow> Inr (table_of_code n) | _ \<Rightarrow> Inl ''no such file''),
     read_stream = Inr, open_output_stream = (\<lambda>f fs. (Inr (), fs(f := None))),
     write_table = (\<lambda>f t fs. (Inr (), fs(f \<mapsto> Some (code_table t)))), close_writer = (\<lambda>f fs. (Inr (), fs))\<rparr>"

lemma coded_arrow_laws: "arrow_laws coded_arrow (\<lambda>b. b) (\<lambda>a. a)" "file_laws coded_arrow (\<lambda>a. a)" "never_fails coded_arrow"
  by (auto simp: arrow_laws_def file_laws_def never_fails_def coded_arrow_def recipe_rows_def)

section \<open>Programs that exit with 0\<close>

definition sample_exists :: "fs_path \<Rightarrow> string + bool" where
  "sample_exists p = Inr (components p = [''repo'', ''testdata''])"

definition sample_cwd :: fs_path where
  "sample_cwd = \<lparr>has_root = True, components = [''repo'', ''build'']\<rparr>"

lemma sample_flight_exit:
  obtains w w' where
    "PutGetDelete coded_arrow id (sample_client []) sample_store sample_exists sample_cwd (recipes_init coded_arrow (\<lambda>p. None)) = Some w"
    "files w = (\<lambda>p. None)"
    "flight_program coded_arrow id sorted_pairs (sample_client []) sample_store sample_exists sample_cwd (\<lambda>p. None) = Some (Some 0, w')"
proof -
  let ?test = "TestPutGetDelete coded_arrow id (sample_client []) sample_store sample_exists sample_cwd"
  let ?w0 = "recipes_init coded_arrow (\<lambda>p. None :: nat option option)"
  have x: "sample_exists = (\<lambda>p. Inr (components p = [''repo'', ''testdata'']))" by (simp add: fun_eq_iff sample_exists_def)
  obtain w where w: "?test ?w0 = (Inr (), w)" "files w = (\<lambda>p. None)"
    using sample_run_succeeds [of coded_arrow id] recipes_init_files [of coded_arrow "\<lambda>p. None"] unfolding ends_def x sample_cwd_def by blast
  have base: "\<forall>fs f. file_info_of sample_store ''airquality.parquet'' fs = Inr f \<longrightarrow> base_name f = ''airquality.parquet''"
    by (simp add: sample_calls_of_store)
  have total: "\<exists>b'. append_string coded_arrow s b = Inr b'" for s b by (simp add: coded_arrow_def)
  note start = recipes_init_ok [OF coded_arrow_laws(1), of "\<lambda>p. None :: nat option option"]
  have passes: "test_failures w = test_failures ?w0" by (rule test_passes [OF total start(2) w(1)])
  obtain outs where o': "recorded (\<lambda>b. b) w ([] @ zip recipe_names outs)" "length outs = 8"
    using successful_test [OF coded_arrow_laws(1) sample_store_laws base start(1,2) w(1) passes] by blast
  then have "HasRecipeOutput coded_arrow w"
    by (auto simp: HasRecipeOutput_def recorded_def coded_arrow_def recipe_names_def)
  moreover obtain w' where "DumpRecipeOutput coded_arrow sorted_pairs ''recipes_out.arrow'' w = (Inr (), w')"
    using dump_succeeds [OF coded_arrow_laws(1,3) o'(1), of "''recipes_out.arrow''"] w(2) by (auto simp: coded_arrow_def)
  ultimately have "main_cookbook coded_arrow sorted_pairs 0 w = (Some 0, w')" by (simp add: main_cookbook_def split: unit.splits)
  moreover have p: "PutGetDelete coded_arrow id (sample_client []) sample_store sample_exists sample_cwd ?w0 = Some w"
    by (simp add: PutGetDelete_def assert_test_def w(1))
  moreover have "test_failures w = []" using passes start(3) by simp
  ultimately show thesis using that w(2) by (simp add: flight_program_def run_program_def RUN_ALL_TESTS_def)
qed

lemma sample_setup:
  "SetUp sample_dataset_calls id counter sample_exists sample_cwd (recipes_init A fs) = Some (recipes_init A fs)"
proof -
  have f: "FindTestDataFile sample_exists sample_cwd n = Some (Inr \<lparr>has_root = True, components = [''repo'', ''testdata'', n]\<rparr>)" for n
    using sample_found [of n] by (simp add: sample_cwd_def sample_exists_def [abs_def])
  show ?thesis
    by (simp add: SetUp_def ReadInAirQuality_def find_data_file_def f read_fs_def call_def sample_dataset_calls_def
        WritePartitionedAirQuality_def ASSERT_OK_def)
qed

lemma sample_datasets_exit:
  obtains w' where
    "datasets_program sample_arrow id sorted_pairs sample_dataset_calls counter sample_exists sample_cwd (\<lambda>p. None) = Some (Some 0, w')"
proof -
  let ?w0 = "recipes_init sample_arrow (\<lambda>p. None)"
  let ?base = "partitioned_dir sample_dataset_calls"
  note r = recipes_init_ok [OF sample_arrow_laws]
  obtain w' where w': "DatasetRead sample_arrow id sorted_pairs sample_dataset_calls ?base ?w0 = (Inr (), w')" "test_failures w' = test_failures ?w0"
    using sample_read [OF r(1,2) recipes_init_files refl] by blast
  obtain outs w1 where 1: "length outs = 3" "recorded (\<lambda>b. b) w1 ([] @ zip read_recipes outs)" "files w1 = files ?w0"
      "DumpRecipeOutput sample_arrow sorted_pairs ''TEST_DatasetRead.txt'' w1 = (Inr (), w')"
    by (rule DatasetRead_InrE [OF sample_arrow_laws sample_paths r(1,2) w']) auto
  have tf: "test_failures w' = []" using w'(2) r(3) by simp
  have "file_rows sample_arrow (\<lambda>a. a) ''TEST_DatasetRead.txt'' (files w1) []" using 1(3) by (simp add: file_rows_def sample_arrow_def recipes_init_def)
  moreover have "[] @ zip read_recipes outs \<noteq> []" using 1(1) by (cases outs) (auto simp: read_recipes_def)
  ultimately have "\<not> HasRecipeOutput sample_arrow w'"
    using dump_result [OF sample_arrow_laws sample_file_laws sorted_pairs_lists_map 1(2) _ _ 1(4)] by blast
  then have "main_cookbook sample_arrow sorted_pairs 0 w' = (Some 0, w')" by (simp add: main_cookbook_def)
  moreover have "TestDatasetRead sample_arrow id sorted_pairs sample_dataset_calls counter sample_exists sample_cwd ?w0 = Some w'"
    by (simp add: TestDatasetRead_def sample_setup assert_test_def w'(1))
  ultimately show thesis using that tf by (simp add: datasets_program_def run_program_def RUN_ALL_TESTS_def)
qed

end
