(* ===== verification/Dataset_Example.thy ===== *)
theory Dataset_Example
  imports Prelude "HOL-Library.Multiset" "HOL-Library.AList"
begin

text \<open>
  \<open>arrow/examples/dataset_example.cpp\<close>: writing a small table as a dataset in one of three formats
  and reading it back in one of six ways. Arrow is not in the repository: the calls made to it
  are the fields of \<open>dataset_api\<close>, over the state \<open>'fs\<close> of the file system.
\<close>

section \<open>The calls to Arrow\<close>

datatype data_type = boolean | int8 | int16 | int32 | int64 | float32 | float64 | utf8

datatype file_format = IpcFileFormat | ParquetFileFormat

text \<open>The expressions the program builds for filters and projections.\<close>

datatype expr = field_ref string | literal_int int | literal_string string
  | less expr expr | greater expr expr | equal expr expr | cast expr data_type

record selector =
  base_dir :: string
  recursive :: bool

text \<open>The options of \<open>FileSystemDataset::Write\<close> that the program sets; partitioning is Hive-style.\<close>

record write_options =
  write_format :: file_format
  write_base_dir :: string
  partition_fields :: "(string \<times> data_type) list"
  basename_template :: string

text \<open>What a scan is asked for: \<open>Project\<close> (columns by name, or expressions with names) and \<open>Filter\<close>.\<close>

datatype projection = All_columns | Columns "string list" | Exprs "expr list" "string list"

record ('fs, 'array, 'table, 'out, 'writer, 'scanner, 'dataset, 'e) dataset_api =
  build_int64 :: "int list \<Rightarrow> 'e + 'array"
  build_utf8 :: "string list \<Rightarrow> 'e + 'array"
  table_make :: "(string \<times> data_type) list \<Rightarrow> 'array list \<Rightarrow> 'table"
  table_slice :: "'table \<Rightarrow> nat \<Rightarrow> nat option \<Rightarrow> 'table"
  table_schema :: "'table \<Rightarrow> (string \<times> data_type) list"
  table_num_rows :: "'table \<Rightarrow> nat"
  table_to_string :: "'table \<Rightarrow> string"
  create_dir :: "string \<Rightarrow> 'fs \<Rightarrow> ('e + unit) \<times> 'fs"
  open_output_stream :: "string \<Rightarrow> 'fs \<Rightarrow> ('e + 'out) \<times> 'fs"
  parquet_write_table :: "'table \<Rightarrow> 'out \<Rightarrow> nat \<Rightarrow> 'fs \<Rightarrow> ('e + unit) \<times> 'fs"
  ipc_make_file_writer :: "'out \<Rightarrow> (string \<times> data_type) list \<Rightarrow> 'fs \<Rightarrow> ('e + 'writer) \<times> 'fs"
  ipc_write_table :: "'writer \<Rightarrow> 'table \<Rightarrow> 'fs \<Rightarrow> ('e + unit) \<times> 'fs"
  ipc_close :: "'writer \<Rightarrow> 'fs \<Rightarrow> ('e + unit) \<times> 'fs"
  in_memory_scanner :: "'table \<Rightarrow> 'e + 'scanner"
  dataset_write :: "write_options \<Rightarrow> 'scanner \<Rightarrow> 'fs \<Rightarrow> ('e + unit) \<times> 'fs"
  dataset_discover :: "selector \<Rightarrow> file_format \<Rightarrow> bool \<Rightarrow> 'fs \<Rightarrow> 'e + 'dataset"
  dataset_fields :: "'dataset \<Rightarrow> string list"
  dataset_fragments :: "'dataset \<Rightarrow> 'fs \<Rightarrow> 'e + ('e + string \<times> string) list"
  dataset_scan :: "'dataset \<Rightarrow> projection \<Rightarrow> expr option \<Rightarrow> 'fs \<Rightarrow> 'e + 'table"
  file_system_root :: "string \<Rightarrow> 'e + string"

text \<open>
  How an operation ends other than with a result: a failed status of Arrow, one of the program's
  own, or \<open>Died\<close>, the abort of \<open>Result::operator*\<close> on a result that is an error.
\<close>

datatype 'e example_error = Arrow_error 'e | ExecutionError string | Died 'e

record 'fs example =
  example_fs :: 'fs
  cout :: string
  cerr :: string

type_synonym ('fs, 'e, 'x) example_action = "('fs example, 'e example_error, 'x) action"

definition check :: "'e + 'x \<Rightarrow> ('fs, 'e, 'x) example_action" where
  "check r = (case r of Inl e \<Rightarrow> raise (Arrow_error e) | Inr x \<Rightarrow> ret x)"

definition on_fs :: "('fs \<Rightarrow> ('e + 'x) \<times> 'fs) \<Rightarrow> ('fs, 'e, 'x) example_action" where
  "on_fs f w = (case f (example_fs w) of (r, fs) \<Rightarrow> check r (w\<lparr>example_fs := fs\<rparr>))"

definition ask_fs :: "('fs \<Rightarrow> 'e + 'x) \<Rightarrow> ('fs, 'e, 'x) example_action" where
  "ask_fs f w = check (f (example_fs w)) w"

definition say :: "string \<Rightarrow> ('fs, 'e, unit) example_action" where
  "say s = modify (\<lambda>w. w\<lparr>cout := cout w @ s\<rparr>)"

definition complain :: "string \<Rightarrow> ('fs, 'e, unit) example_action" where
  "complain s = modify (\<lambda>w. w\<lparr>cerr := cerr w @ s\<rparr>)"

abbreviation (input) newline :: string where "newline \<equiv> [CHR 0x0A]"

section \<open>Creating the datasets\<close>

definition column_a :: "int list" where "column_a = [0, 1, 2, 3, 4, 5, 6, 7, 8, 9]"
definition column_b :: "int list" where "column_b = [9, 8, 7, 6, 5, 4, 3, 2, 1, 0]"
definition column_c :: "int list" where "column_c = [1, 2, 1, 2, 1, 2, 1, 2, 1, 2]"

definition column_part :: "string list" where
  "column_part = [''a'', ''a'', ''a'', ''a'', ''a'', ''b'', ''b'', ''b'', ''b'', ''b'']"

definition CreateTable ::
  "('fs, 'array, 'table, 'out, 'writer, 'scanner, 'dataset, 'e) dataset_api \<Rightarrow>
   ('fs, 'e, 'table) example_action" where
  "CreateTable D =
     seq (check (build_int64 D column_a)) (\<lambda>array_a.
     seq (check (build_int64 D column_b)) (\<lambda>array_b.
     seq (check (build_int64 D column_c)) (\<lambda>array_c.
     ret (table_make D [(''a'', int64), (''b'', int64), (''c'', int64)] [array_a, array_b, array_c]))))"

definition CreateExampleParquetDataset ::
  "('fs, 'array, 'table, 'out, 'writer, 'scanner, 'dataset, 'e) dataset_api \<Rightarrow> string \<Rightarrow>
   ('fs, 'e, string) example_action" where
  "CreateExampleParquetDataset D root_path =
     (let base_path = root_path @ ''/parquet_dataset'' in
      seq (on_fs (create_dir D base_path)) (\<lambda>_.
      seq (CreateTable D) (\<lambda>table.
      seq (on_fs (open_output_stream D (base_path @ ''/data1.parquet''))) (\<lambda>output.
      seq (on_fs (parquet_write_table D (table_slice D table 0 (Some 5)) output 2048)) (\<lambda>_.
      seq (on_fs (open_output_stream D (base_path @ ''/data2.parquet''))) (\<lambda>output.
      seq (on_fs (parquet_write_table D (table_slice D table 5 None) output 2048)) (\<lambda>_.
      ret base_path)))))))"

definition CreateExampleFeatherDataset ::
  "('fs, 'array, 'table, 'out, 'writer, 'scanner, 'dataset, 'e) dataset_api \<Rightarrow> string \<Rightarrow>
   ('fs, 'e, string) example_action" where
  "CreateExampleFeatherDataset D root_path =
     (let base_path = root_path @ ''/feather_dataset'' in
      seq (on_fs (create_dir D base_path)) (\<lambda>_.
      seq (CreateTable D) (\<lambda>table.
      seq (on_fs (open_output_stream D (base_path @ ''/data1.feather''))) (\<lambda>output.
      seq (on_fs (ipc_make_file_writer D output (table_schema D table))) (\<lambda>writer.
      seq (on_fs (ipc_write_table D writer (table_slice D table 0 (Some 5)))) (\<lambda>_.
      seq (on_fs (ipc_close D writer)) (\<lambda>_.
      seq (on_fs (open_output_stream D (base_path @ ''/data2.feather''))) (\<lambda>output.
      seq (on_fs (ipc_make_file_writer D output (table_schema D table))) (\<lambda>writer.
      seq (on_fs (ipc_write_table D writer (table_slice D table 5 None))) (\<lambda>_.
      seq (on_fs (ipc_close D writer)) (\<lambda>_.
      ret base_path)))))))))))"

definition CreateExampleParquetHivePartitionedDataset ::
  "('fs, 'array, 'table, 'out, 'writer, 'scanner, 'dataset, 'e) dataset_api \<Rightarrow> string \<Rightarrow>
   ('fs, 'e, string) example_action" where
  "CreateExampleParquetHivePartitionedDataset D root_path =
     (let base_path = root_path @ ''/parquet_dataset'' in
      seq (on_fs (create_dir D base_path)) (\<lambda>_.
      seq (check (build_int64 D column_a)) (\<lambda>array_a.
      seq (check (build_int64 D column_b)) (\<lambda>array_b.
      seq (check (build_int64 D column_c)) (\<lambda>array_c.
      seq (check (build_utf8 D column_part)) (\<lambda>array_part.
      seq (check (in_memory_scanner D (table_make D
             [(''a'', int64), (''b'', int64), (''c'', int64), (''part'', utf8)]
             [array_a, array_b, array_c, array_part]))) (\<lambda>scanner.
      seq (on_fs (dataset_write D \<lparr>write_format = ParquetFileFormat, write_base_dir = base_path,
             partition_fields = [(''part'', utf8)], basename_template = ''part{i}.parquet''\<rparr> scanner)) (\<lambda>_.
      ret base_path))))))))"

section \<open>Reading them\<close>

text \<open>The loops over the fragments; only the partitioned one prints the partition expression.\<close>

fun print_fragments :: "bool \<Rightarrow> ('e + string \<times> string) list \<Rightarrow> ('fs, 'e, unit) example_action" where
  "print_fragments with_partition [] = ret ()"
| "print_fragments with_partition (Inl e # fragments) = raise (Died e)"
| "print_fragments with_partition (Inr (text_of, part_expr) # fragments) =
     seq (say (''Found fragment: '' @ text_of @ newline)) (\<lambda>_.
     seq (if with_partition then say (''Partition expression: '' @ part_expr @ newline) else ret ()) (\<lambda>_.
     print_fragments with_partition fragments))"

definition ScanWholeDataset ::
  "('fs, 'array, 'table, 'out, 'writer, 'scanner, 'dataset, 'e) dataset_api \<Rightarrow> file_format \<Rightarrow> string \<Rightarrow>
   ('fs, 'e, 'table) example_action" where
  "ScanWholeDataset D format dir =
     seq (ask_fs (dataset_discover D \<lparr>base_dir = dir, recursive = False\<rparr> format False)) (\<lambda>dataset.
     seq (ask_fs (dataset_fragments D dataset)) (\<lambda>fragments.
     seq (print_fragments False fragments) (\<lambda>_.
     ask_fs (dataset_scan D dataset All_columns None))))"

definition FilterAndSelectDataset ::
  "('fs, 'array, 'table, 'out, 'writer, 'scanner, 'dataset, 'e) dataset_api \<Rightarrow> file_format \<Rightarrow> string \<Rightarrow>
   ('fs, 'e, 'table) example_action" where
  "FilterAndSelectDataset D format dir =
     seq (ask_fs (dataset_discover D \<lparr>base_dir = dir, recursive = False\<rparr> format False)) (\<lambda>dataset.
     ask_fs (dataset_scan D dataset (Columns [''b'']) (Some (less (field_ref ''b'') (literal_int 4)))))"

definition ProjectDataset ::
  "('fs, 'array, 'table, 'out, 'writer, 'scanner, 'dataset, 'e) dataset_api \<Rightarrow> file_format \<Rightarrow> string \<Rightarrow>
   ('fs, 'e, 'table) example_action" where
  "ProjectDataset D format dir =
     seq (ask_fs (dataset_discover D \<lparr>base_dir = dir, recursive = False\<rparr> format False)) (\<lambda>dataset.
     ask_fs (dataset_scan D dataset
       (Exprs [field_ref ''a'', cast (field_ref ''b'') float32, equal (field_ref ''c'') (literal_int 1)]
              [''a_renamed'', ''b_as_float32'', ''c_1'']) None))"

definition SelectAndProjectDataset ::
  "('fs, 'array, 'table, 'out, 'writer, 'scanner, 'dataset, 'e) dataset_api \<Rightarrow> file_format \<Rightarrow> string \<Rightarrow>
   ('fs, 'e, 'table) example_action" where
  "SelectAndProjectDataset D format dir =
     seq (ask_fs (dataset_discover D \<lparr>base_dir = dir, recursive = False\<rparr> format False)) (\<lambda>dataset.
     ask_fs (dataset_scan D dataset
       (Exprs (map field_ref (dataset_fields D dataset) @ [greater (field_ref ''b'') (literal_int 1)])
              (dataset_fields D dataset @ [''b_large''])) None))"

definition ScanPartitionedDataset ::
  "('fs, 'array, 'table, 'out, 'writer, 'scanner, 'dataset, 'e) dataset_api \<Rightarrow> file_format \<Rightarrow> string \<Rightarrow>
   ('fs, 'e, 'table) example_action" where
  "ScanPartitionedDataset D format dir =
     seq (ask_fs (dataset_discover D \<lparr>base_dir = dir, recursive = True\<rparr> format True)) (\<lambda>dataset.
     seq (ask_fs (dataset_fragments D dataset)) (\<lambda>fragments.
     seq (print_fragments True fragments) (\<lambda>_.
     ask_fs (dataset_scan D dataset All_columns None))))"

definition FilterPartitionedDataset ::
  "('fs, 'array, 'table, 'out, 'writer, 'scanner, 'dataset, 'e) dataset_api \<Rightarrow> file_format \<Rightarrow> string \<Rightarrow>
   ('fs, 'e, 'table) example_action" where
  "FilterPartitionedDataset D format dir =
     seq (ask_fs (dataset_discover D \<lparr>base_dir = dir, recursive = True\<rparr> format True)) (\<lambda>dataset.
     ask_fs (dataset_scan D dataset All_columns (Some (equal (field_ref ''part'') (literal_string ''b'')))))"

section \<open>The program\<close>

definition create_by_format ::
  "('fs, 'array, 'table, 'out, 'writer, 'scanner, 'dataset, 'e) dataset_api \<Rightarrow> string \<Rightarrow> string \<Rightarrow>
   ('fs, 'e, file_format \<times> string) example_action" where
  "create_by_format D format_name root_path =
     (if format_name = ''feather'' then
        seq (CreateExampleFeatherDataset D root_path) (\<lambda>base_path. ret (IpcFileFormat, base_path))
      else if format_name = ''parquet'' then
        seq (CreateExampleParquetDataset D root_path) (\<lambda>base_path. ret (ParquetFileFormat, base_path))
      else if format_name = ''parquet_hive'' then
        seq (CreateExampleParquetHivePartitionedDataset D root_path) (\<lambda>base_path. ret (ParquetFileFormat, base_path))
      else
        seq (complain (''Unknown format: '' @ format_name @ newline)) (\<lambda>_.
        seq (complain (''Supported formats: feather, parquet, parquet_hive'' @ newline)) (\<lambda>_.
        raise (ExecutionError ''Dataset creating failed.''))))"

definition read_by_mode ::
  "('fs, 'array, 'table, 'out, 'writer, 'scanner, 'dataset, 'e) dataset_api \<Rightarrow> string \<Rightarrow> file_format \<Rightarrow> string \<Rightarrow>
   ('fs, 'e, 'table) example_action" where
  "read_by_mode D mode format base_path =
     (if mode = ''no_filter'' then ScanWholeDataset D format base_path
      else if mode = ''filter'' then FilterAndSelectDataset D format base_path
      else if mode = ''project'' then ProjectDataset D format base_path
      else if mode = ''select_project'' then SelectAndProjectDataset D format base_path
      else if mode = ''partitioned'' then ScanPartitionedDataset D format base_path
      else if mode = ''filter_partitioned'' then FilterPartitionedDataset D format base_path
      else
        seq (complain (''Unknown mode: '' @ mode @ newline)) (\<lambda>_.
        seq (complain (''Supported modes: no_filter, filter, project, select_project, partitioned'' @ newline)) (\<lambda>_.
        raise (ExecutionError ''Dataset reading failed.''))))"

definition RunDatasetExample ::
  "('fs, 'array, 'table, 'out, 'writer, 'scanner, 'dataset, 'e) dataset_api \<Rightarrow> string \<Rightarrow> string \<Rightarrow> string \<Rightarrow>
   ('fs, 'e, unit) example_action" where
  "RunDatasetExample D format_name uri mode =
     seq (check (file_system_root D uri)) (\<lambda>root_path.
     seq (create_by_format D format_name root_path) (\<lambda>(format, base_path).
     seq (read_by_mode D mode format base_path) (\<lambda>table.
     seq (say (''Read '' @ dec_nat (table_num_rows D table) @ '' rows'' @ newline)) (\<lambda>_.
     say (table_to_string D table @ newline)))))"

text \<open>The exit code, \<open>None\<close> for an abort.\<close>

definition main_dataset ::
  "('fs, 'array, 'table, 'out, 'writer, 'scanner, 'dataset, 'e) dataset_api \<Rightarrow> ('e example_error \<Rightarrow> string) \<Rightarrow>
   string list \<Rightarrow> 'fs example \<Rightarrow> nat option \<times> 'fs example" where
  "main_dataset D status_text argv w =
     (if length argv < 3 then
        (Some 1, w\<lparr>cout := cout w @
           ''Usage: ../build/examples/dataset_example file:///<some_path>/<some_directory> parquet'' @ newline @
           ''Example: ../build/examples/dataset_example file://`pwd`/ parquet'' @ newline\<rparr>)
      else
        (case RunDatasetExample D (argv ! 2) (argv ! 1) (if 3 < length argv then argv ! 3 else ''no_filter'') w of
           (Inl (Died e), w') \<Rightarrow> (None, w')
         | (Inl st, w') \<Rightarrow> (Some 1, w'\<lparr>cerr := cerr w' @ status_text st @ newline\<rparr>)
         | (Inr _, w') \<Rightarrow> (Some 0, w')))"

section \<open>What Arrow promises\<close>

text \<open>
  What the laws need to know of a file: that it is being written, or complete with its format, and its
  schema and rows, for columns of 64-bit integers.
\<close>

type_synonym table_fields = "(string \<times> data_type) list"

datatype stored = Partial table_fields "int list list" | Complete file_format table_fields "int list list"

fun stored_rows :: "stored \<Rightarrow> int list list" where
  "stored_rows (Partial schema r) = r"
| "stored_rows (Complete f schema r) = r"

definition int64_columns :: "table_fields \<Rightarrow> bool" where
  "int64_columns schema \<longleftrightarrow> (\<forall>c\<in>set schema. snd c = int64)"

definition fits_int64 :: "int \<Rightarrow> bool" where
  "fits_int64 x \<longleftrightarrow> - (2 ^ 63) \<le> x \<and> x < 2 ^ 63"

text \<open>An array that is built has the values it was built from; \<open>Slice\<close> counts from the offset.\<close>

definition table_laws ::
  "('fs, 'array, 'table, 'out, 'writer, 'scanner, 'dataset, 'e) dataset_api \<Rightarrow> ('array \<Rightarrow> int list) \<Rightarrow>
   ('table \<Rightarrow> int list list) \<Rightarrow> bool" where
  "table_laws D ints rows \<longleftrightarrow>
     (\<forall>xs a. build_int64 D xs = Inr a \<and> (\<forall>x\<in>set xs. fits_int64 x) \<longrightarrow> ints a = xs) \<and>
     (\<forall>schema as n. as \<noteq> [] \<and> length schema = length as \<and> int64_columns schema \<and> (\<forall>a\<in>set as. length (ints a) = n) \<longrightarrow>
        rows (table_make D schema as) = map (\<lambda>i. map (\<lambda>a. ints a ! i) as) [0..<n] \<and>
        table_schema D (table_make D schema as) = schema) \<and>
     (\<forall>t off len. off \<le> length (rows t) \<longrightarrow> table_schema D (table_slice D t off len) = table_schema D t \<and>
        rows (table_slice D t off len) =
          (case len of None \<Rightarrow> drop off (rows t) | Some n \<Rightarrow> take n (drop off (rows t)))) \<and>
     (\<forall>t. table_num_rows D t = length (rows t))"

text \<open>
  The file system. \<open>view fs d\<close> are the files of directory \<open>d\<close> by name; \<open>plain fs d\<close> says that each is a
  regular file of its own, no link. Every law speaks of a call that succeeds; nothing is said of other
  directories, which may be the same one under another path. Opening a file for writing truncates it.
  An IPC file is complete once its writer is closed.
\<close>

definition writing_dataset_laws ::
  "('fs, 'array, 'table, 'out, 'writer, 'scanner, 'dataset, 'e) dataset_api \<Rightarrow> ('table \<Rightarrow> int list list) \<Rightarrow>
   ('out \<Rightarrow> string \<times> string) \<Rightarrow> ('writer \<Rightarrow> string \<times> string) \<Rightarrow> ('fs \<Rightarrow> string \<Rightarrow> bool) \<Rightarrow>
   ('fs \<Rightarrow> string \<Rightarrow> string \<Rightarrow> stored option) \<Rightarrow> bool" where
  "writing_dataset_laws D rows target wtarget plain view \<longleftrightarrow>
     (\<forall>d fs u fs'. create_dir D d fs = (Inr u, fs') \<and> plain fs d \<longrightarrow> plain fs' d \<and> view fs' d = view fs d) \<and>
     (\<forall>d n fs out fs'. open_output_stream D (d @ ''/'' @ n) fs = (Inr out, fs') \<and> plain fs d \<and> CHR ''/'' \<notin> set n \<longrightarrow>
        target out = (d, n) \<and> plain fs' d \<and> view fs' d = (view fs d)(n \<mapsto> Partial [] [])) \<and>
     (\<forall>t out c fs u fs' d n. parquet_write_table D t out c fs = (Inr u, fs') \<and> target out = (d, n) \<and> plain fs d \<and>
        view fs d n = Some (Partial [] []) \<and> int64_columns (table_schema D t) \<longrightarrow>
        plain fs' d \<and> view fs' d = (view fs d)(n \<mapsto> Complete ParquetFileFormat (table_schema D t) (rows t))) \<and>
     (\<forall>out schema fs wr fs' d n. ipc_make_file_writer D out schema fs = (Inr wr, fs') \<and> target out = (d, n) \<and> plain fs d \<and>
        view fs d n = Some (Partial [] []) \<longrightarrow>
        wtarget wr = (d, n) \<and> plain fs' d \<and> view fs' d = (view fs d)(n \<mapsto> Partial schema [])) \<and>
     (\<forall>wr t fs u fs' d n r. ipc_write_table D wr t fs = (Inr u, fs') \<and> wtarget wr = (d, n) \<and> plain fs d \<and>
        view fs d n = Some (Partial (table_schema D t) r) \<and> int64_columns (table_schema D t) \<longrightarrow>
        plain fs' d \<and> view fs' d = (view fs d)(n \<mapsto> Partial (table_schema D t) (r @ rows t))) \<and>
     (\<forall>wr fs u fs' d n schema r. ipc_close D wr fs = (Inr u, fs') \<and> wtarget wr = (d, n) \<and> plain fs d \<and>
        view fs d n = Some (Partial schema r) \<longrightarrow>
        plain fs' d \<and> view fs' d = (view fs d)(n \<mapsto> Complete IpcFileFormat schema r))"

text \<open>
  A dataset is discovered from the files of the directory, less those whose names begin with an
  underscore or a dot. If all are complete, of the format asked for and of one schema, a scan without
  projection and filter that succeeds returns their rows.
\<close>

definition dataset_file :: "string \<Rightarrow> bool" where
  "dataset_file n \<longleftrightarrow> n \<noteq> [] \<and> hd n \<noteq> CHR ''_'' \<and> hd n \<noteq> CHR ''.''"

definition scanning_law ::
  "('fs, 'array, 'table, 'out, 'writer, 'scanner, 'dataset, 'e) dataset_api \<Rightarrow> ('table \<Rightarrow> int list list) \<Rightarrow>
   ('fs \<Rightarrow> string \<Rightarrow> bool) \<Rightarrow> ('fs \<Rightarrow> string \<Rightarrow> string \<Rightarrow> stored option) \<Rightarrow> bool" where
  "scanning_law D rows plain view \<longleftrightarrow>
     (\<forall>fs d format ds t schema ns contents.
        dataset_discover D \<lparr>base_dir = d, recursive = False\<rparr> format False fs = Inr ds \<and>
        dataset_scan D ds All_columns None fs = Inr t \<and> plain fs d \<and> int64_columns schema \<and>
        distinct ns \<and> {n. dataset_file n \<and> view fs d n \<noteq> None} = set ns \<and>
        (\<forall>n\<in>set ns. view fs d n = Some (Complete format schema (contents n))) \<longrightarrow>
        mset (rows t) = mset (concat (map contents ns)))"

definition dataset_laws ::
  "('fs, 'array, 'table, 'out, 'writer, 'scanner, 'dataset, 'e) dataset_api \<Rightarrow> ('table \<Rightarrow> int list list) \<Rightarrow>
   ('out \<Rightarrow> string \<times> string) \<Rightarrow> ('writer \<Rightarrow> string \<times> string) \<Rightarrow> ('fs \<Rightarrow> string \<Rightarrow> bool) \<Rightarrow>
   ('fs \<Rightarrow> string \<Rightarrow> string \<Rightarrow> stored option) \<Rightarrow> bool" where
  "dataset_laws D rows target wtarget plain view \<longleftrightarrow>
     writing_dataset_laws D rows target wtarget plain view \<and> scanning_law D rows plain view"

lemma table_lawsD:
  assumes "table_laws D ints rows"
  shows "build_int64 D xs = Inr a \<Longrightarrow> \<forall>x\<in>set xs. fits_int64 x \<Longrightarrow> ints a = xs"
    and "as \<noteq> [] \<Longrightarrow> length schema = length as \<Longrightarrow> int64_columns schema \<Longrightarrow> \<forall>a\<in>set as. length (ints a) = n \<Longrightarrow>
      rows (table_make D schema as) = map (\<lambda>i. map (\<lambda>a. ints a ! i) as) [0..<n] \<and>
      table_schema D (table_make D schema as) = schema"
    and "off \<le> length (rows t) \<Longrightarrow> table_schema D (table_slice D t off len) = table_schema D t"
    and "off \<le> length (rows t) \<Longrightarrow> rows (table_slice D t off None) = drop off (rows t)"
    and "off \<le> length (rows t) \<Longrightarrow> rows (table_slice D t off (Some n)) = take n (drop off (rows t))"
    and "table_num_rows D t = length (rows t)"
  using assms unfolding table_laws_def by simp_all blast

lemma dataset_lawsD:
  assumes "dataset_laws D rows target wtarget plain view"
  shows "create_dir D d fs = (Inr u, fs') \<Longrightarrow> plain fs d \<Longrightarrow> plain fs' d \<and> view fs' d = view fs d"
    and "open_output_stream D (d @ ''/'' @ n) fs = (Inr out, fs') \<Longrightarrow> plain fs d \<Longrightarrow> CHR ''/'' \<notin> set n \<Longrightarrow>
        target out = (d, n) \<and> plain fs' d \<and> view fs' d = (view fs d)(n \<mapsto> Partial [] [])"
    and "parquet_write_table D t out c fs = (Inr u, fs') \<Longrightarrow> target out = (d, n) \<Longrightarrow> plain fs d \<Longrightarrow>
        view fs d n = Some (Partial [] []) \<Longrightarrow> int64_columns (table_schema D t) \<Longrightarrow>
        plain fs' d \<and> view fs' d = (view fs d)(n \<mapsto> Complete ParquetFileFormat (table_schema D t) (rows t))"
    and "ipc_make_file_writer D out schema fs = (Inr wr, fs') \<Longrightarrow> target out = (d, n) \<Longrightarrow> plain fs d \<Longrightarrow>
        view fs d n = Some (Partial [] []) \<Longrightarrow>
        wtarget wr = (d, n) \<and> plain fs' d \<and> view fs' d = (view fs d)(n \<mapsto> Partial schema [])"
    and "ipc_write_table D wr t fs = (Inr u, fs') \<Longrightarrow> wtarget wr = (d, n) \<Longrightarrow> plain fs d \<Longrightarrow>
        view fs d n = Some (Partial (table_schema D t) r) \<Longrightarrow> int64_columns (table_schema D t) \<Longrightarrow>
        plain fs' d \<and> view fs' d = (view fs d)(n \<mapsto> Partial (table_schema D t) (r @ rows t))"
    and "ipc_close D wr fs = (Inr u, fs') \<Longrightarrow> wtarget wr = (d, n) \<Longrightarrow> plain fs d \<Longrightarrow> view fs d n = Some (Partial schema r) \<Longrightarrow>
        plain fs' d \<and> view fs' d = (view fs d)(n \<mapsto> Complete IpcFileFormat schema r)"
    and "dataset_discover D \<lparr>base_dir = d, recursive = False\<rparr> format False fs = Inr ds \<Longrightarrow>
        dataset_scan D ds All_columns None fs = Inr tab \<Longrightarrow> plain fs d \<Longrightarrow> int64_columns schema \<Longrightarrow>
        distinct ns \<Longrightarrow> {n. dataset_file n \<and> view fs d n \<noteq> None} = set ns \<Longrightarrow>
        \<forall>n\<in>set ns. view fs d n = Some (Complete format schema (contents n)) \<Longrightarrow>
        mset (rows tab) = mset (concat (map contents ns))"
  using assms unfolding dataset_laws_def writing_dataset_laws_def scanning_law_def by meson+

lemma check_run [simp]: "check (Inr x) w = (Inr x, w)" "check (Inl e) w = (Inl (Arrow_error e), w)"
  by (simp_all add: check_def)

lemma say_run [simp]: "say s w = (Inr (), w\<lparr>cout := cout w @ s\<rparr>)"
  by (simp add: say_def)

lemma complain_run [simp]: "complain s w = (Inr (), w\<lparr>cerr := cerr w @ s\<rparr>)"
  by (simp add: complain_def)

text \<open>A run that succeeds is one in which every call has succeeded.\<close>

lemma check_InrE:
  assumes "seq (check r) k w = (Inr y, w')"
  obtains x where "r = Inr x" "k x w = (Inr y, w')"
  using assms by (cases r) (simp_all add: seq_def check_def)

lemma on_fs_InrE:
  assumes "seq (on_fs f) k w = (Inr y, w')"
  obtains x fs where "f (example_fs w) = (Inr x, fs)" "k x (w\<lparr>example_fs := fs\<rparr>) = (Inr y, w')"
  using assms by (auto simp: seq_def on_fs_def check_def split: prod.splits sum.splits)

lemma ask_fs_InrE:
  assumes "seq (ask_fs f) k w = (Inr y, w')"
  obtains x where "f (example_fs w) = Inr x" "k x w = (Inr y, w')"
  using assms by (auto simp: seq_def ask_fs_def check_def split: sum.splits)

section \<open>The dataset that is written\<close>

definition example_rows :: "int list list" where
  "example_rows = map (\<lambda>i. [column_a ! i, column_b ! i, column_c ! i]) [0..<10]"

definition example_schema :: table_fields where
  "example_schema = [(''a'', int64), (''b'', int64), (''c'', int64)]"

lemma example_schema_int64 [simp]: "int64_columns example_schema"
  by (simp add: example_schema_def int64_columns_def)

lemma length_example_rows [simp]: "length example_rows = 10"
  by (simp add: example_rows_def)

lemma CreateTable_InrE:
  assumes L: "table_laws D ints rows" and run: "seq (CreateTable D) k w = (Inr y, w')"
  obtains t where "k t w = (Inr y, w')" "rows t = example_rows" "table_schema D t = example_schema"
proof -
  note run = run [unfolded CreateTable_def seq_assoc seq_ret]
  obtain a where a: "build_int64 D column_a = Inr a" and r1: "seq (check (build_int64 D column_b)) (\<lambda>b.
      seq (check (build_int64 D column_c)) (\<lambda>c. k (table_make D [(''a'', int64), (''b'', int64), (''c'', int64)] [a, b, c]))) w = (Inr y, w')"
    using run by (rule check_InrE)
  obtain b where b: "build_int64 D column_b = Inr b" and r2: "seq (check (build_int64 D column_c)) (\<lambda>c.
      k (table_make D [(''a'', int64), (''b'', int64), (''c'', int64)] [a, b, c])) w = (Inr y, w')"
    using r1 by (rule check_InrE)
  obtain c where c: "build_int64 D column_c = Inr c"
      and r3: "k (table_make D [(''a'', int64), (''b'', int64), (''c'', int64)] [a, b, c]) w = (Inr y, w')"
    using r2 by (rule check_InrE)
  have cells: "ints a = column_a" "ints b = column_b" "ints c = column_c"
    by (rule table_lawsD(1) [OF L a] table_lawsD(1) [OF L b] table_lawsD(1) [OF L c];
        simp add: column_a_def column_b_def column_c_def fits_int64_def)+
  have "rows (table_make D [(''a'', int64), (''b'', int64), (''c'', int64)] [a, b, c]) = example_rows \<and>
      table_schema D (table_make D [(''a'', int64), (''b'', int64), (''c'', int64)] [a, b, c]) = example_schema"
    using table_lawsD(2) [OF L, of "[a, b, c]" "example_schema" 10] example_schema_int64
    by (simp add: cells column_a_def column_b_def column_c_def example_rows_def example_schema_def)
  then show thesis using that r3 by blast
qed

definition two_files :: "file_format \<Rightarrow> string \<Rightarrow> string \<Rightarrow> (string \<Rightarrow> stored option) \<Rightarrow> string \<Rightarrow> stored option" where
  "two_files format n1 n2 v = v(n1 \<mapsto> Complete format example_schema (take 5 example_rows),
     n2 \<mapsto> Complete format example_schema (drop 5 example_rows))"

text \<open>One file of a directory, written through to its end.\<close>

lemma parquet_file_InrE:
  assumes F: "dataset_laws D rows target wtarget plain view" and n: "CHR ''/'' \<notin> set n"
    and p: "plain (example_fs w) d" and t: "int64_columns (table_schema D t)"
    and run: "seq (on_fs (open_output_stream D (d @ ''/'' @ n))) (\<lambda>out. seq (on_fs (parquet_write_table D t out c)) (\<lambda>_. k)) w = (Inr y, w')"
  obtains fs where "k (w\<lparr>example_fs := fs\<rparr>) = (Inr y, w')" "plain fs d"
    "view fs d = (view (example_fs w) d)(n \<mapsto> Complete ParquetFileFormat (table_schema D t) (rows t))"
proof -
  note L = dataset_lawsD [OF F]
  obtain out fs1 where 1: "open_output_stream D (d @ ''/'' @ n) (example_fs w) = (Inr out, fs1)"
      "seq (on_fs (parquet_write_table D t out c)) (\<lambda>_. k) (w\<lparr>example_fs := fs1\<rparr>) = (Inr y, w')"
    using run by (rule on_fs_InrE)
  note o1 = L(2) [OF 1(1) p n]
  obtain u fs2 where 2: "parquet_write_table D t out c fs1 = (Inr u, fs2)" "k (w\<lparr>example_fs := fs2\<rparr>) = (Inr y, w')"
    using 1(2) by (rule on_fs_InrE) simp
  have "plain fs2 d \<and> view fs2 d = (view fs1 d)(n \<mapsto> Complete ParquetFileFormat (table_schema D t) (rows t))"
    by (rule L(3) [OF 2(1)]) (use o1 t in simp_all)
  with that 2(2) o1 show thesis by simp
qed

lemma feather_file_InrE:
  assumes F: "dataset_laws D rows target wtarget plain view" and n: "CHR ''/'' \<notin> set n"
    and p: "plain (example_fs w) d" and t: "int64_columns (table_schema D t)" "schema = table_schema D t"
    and run: "seq (on_fs (open_output_stream D (d @ ''/'' @ n))) (\<lambda>out. seq (on_fs (ipc_make_file_writer D out schema)) (\<lambda>wr.
      seq (on_fs (ipc_write_table D wr t)) (\<lambda>_. seq (on_fs (ipc_close D wr)) (\<lambda>_. k)))) w = (Inr y, w')"
  obtains fs where "k (w\<lparr>example_fs := fs\<rparr>) = (Inr y, w')" "plain fs d"
    "view fs d = (view (example_fs w) d)(n \<mapsto> Complete IpcFileFormat schema (rows t))"
proof -
  note L = dataset_lawsD [OF F]
  obtain out fs1 where 1: "open_output_stream D (d @ ''/'' @ n) (example_fs w) = (Inr out, fs1)"
      "seq (on_fs (ipc_make_file_writer D out schema)) (\<lambda>wr.
      seq (on_fs (ipc_write_table D wr t)) (\<lambda>_. seq (on_fs (ipc_close D wr)) (\<lambda>_. k))) (w\<lparr>example_fs := fs1\<rparr>) = (Inr y, w')"
    using run by (rule on_fs_InrE)
  note o1 = L(2) [OF 1(1) p n]
  obtain wr fs2 where 2: "ipc_make_file_writer D out schema fs1 = (Inr wr, fs2)"
      "seq (on_fs (ipc_write_table D wr t)) (\<lambda>_. seq (on_fs (ipc_close D wr)) (\<lambda>_. k)) (w\<lparr>example_fs := fs2\<rparr>) = (Inr y, w')"
    using 1(2) by (rule on_fs_InrE) simp
  have o2: "wtarget wr = (d, n) \<and> plain fs2 d \<and> view fs2 d = (view fs1 d)(n \<mapsto> Partial schema [])"
    by (rule L(4) [OF 2(1)]) (use o1 in simp_all)
  obtain u fs3 where 3: "ipc_write_table D wr t fs2 = (Inr u, fs3)"
      "seq (on_fs (ipc_close D wr)) (\<lambda>_. k) (w\<lparr>example_fs := fs3\<rparr>) = (Inr y, w')"
    using 2(2) by (rule on_fs_InrE) simp
  have o3: "plain fs3 d \<and> view fs3 d = (view fs2 d)(n \<mapsto> Partial (table_schema D t) ([] @ rows t))"
    by (rule L(5) [OF 3(1)]) (use o2 t in simp_all)
  obtain u' fs4 where 4: "ipc_close D wr fs3 = (Inr u', fs4)" "k (w\<lparr>example_fs := fs4\<rparr>) = (Inr y, w')"
    using 3(2) by (rule on_fs_InrE) simp
  have "plain fs4 d \<and> view fs4 d = (view fs3 d)(n \<mapsto> Complete IpcFileFormat schema (rows t))"
    by (rule L(6) [OF 4(1)]) (use o2 o3 t in simp_all)
  with that 4(2) o1 o2 o3 show thesis by simp
qed

lemma example_slices:
  assumes "table_laws D ints rows" "rows t = example_rows" "table_schema D t = example_schema"
  shows "rows (table_slice D t 0 (Some 5)) = take 5 example_rows" "rows (table_slice D t 5 None) = drop 5 example_rows"
    "table_schema D (table_slice D t 0 (Some 5)) = example_schema" "table_schema D (table_slice D t 5 None) = example_schema"
  by (simp_all add: table_lawsD(3,4,5) [OF assms(1)] assms(2,3))

lemma CreateExampleParquetDataset_files:
  assumes T: "table_laws D ints rows" and F: "dataset_laws D rows target wtarget plain view"
    and p: "plain (example_fs w) (root_path @ ''/parquet_dataset'')"
    and run: "CreateExampleParquetDataset D root_path w = (Inr base_path, w')"
  shows "base_path = root_path @ ''/parquet_dataset''" "plain (example_fs w') base_path"
    "view (example_fs w') base_path = two_files ParquetFileFormat ''data1.parquet'' ''data2.parquet'' (view (example_fs w) base_path)"
    "cout w' = cout w" "cerr w' = cerr w"
proof -
  let ?d = "root_path @ ''/parquet_dataset''"
  note L = dataset_lawsD [OF F]
  let ?two = "\<lambda>t. seq (on_fs (open_output_stream D (?d @ ''/'' @ ''data2.parquet''))) (\<lambda>out.
     seq (on_fs (parquet_write_table D (table_slice D t 5 None) out 2048)) (\<lambda>_. ret ?d))"
  let ?one = "\<lambda>t. seq (on_fs (open_output_stream D (?d @ ''/'' @ ''data1.parquet''))) (\<lambda>out.
     seq (on_fs (parquet_write_table D (table_slice D t 0 (Some 5)) out 2048)) (\<lambda>_. ?two t))"
  have run': "seq (on_fs (create_dir D ?d)) (\<lambda>_. seq (CreateTable D) ?one) w = (Inr base_path, w')"
    using run by (simp add: CreateExampleParquetDataset_def Let_def)
  obtain u fs1 where 1: "create_dir D ?d (example_fs w) = (Inr u, fs1)"
      "seq (CreateTable D) ?one (w\<lparr>example_fs := fs1\<rparr>) = (Inr base_path, w')"
    using run' by (rule on_fs_InrE)
  have p1: "plain fs1 ?d \<and> view fs1 ?d = view (example_fs w) ?d" by (rule L(1) [OF 1(1) p])
  obtain t where t: "?one t (w\<lparr>example_fs := fs1\<rparr>) = (Inr base_path, w')" "rows t = example_rows" "table_schema D t = example_schema"
    by (rule CreateTable_InrE [OF T 1(2)])
  note S = example_slices [OF T t(2,3)]
  obtain fs2 where 2: "?two t (w\<lparr>example_fs := fs2\<rparr>) = (Inr base_path, w')" "plain fs2 ?d"
      "view fs2 ?d = (view fs1 ?d)(''data1.parquet'' \<mapsto> Complete ParquetFileFormat example_schema (take 5 example_rows))"
    by (rule parquet_file_InrE [OF F _ _ _ t(1)]) (use p1 S in simp_all)
  obtain fs3 where 3: "ret ?d (w\<lparr>example_fs := fs3\<rparr>) = (Inr base_path, w')" "plain fs3 ?d"
      "view fs3 ?d = (view fs2 ?d)(''data2.parquet'' \<mapsto> Complete ParquetFileFormat example_schema (drop 5 example_rows))"
    by (rule parquet_file_InrE [OF F _ _ _ 2(1)]) (blast | simp add: 2(2) S)+
  show "base_path = ?d" using 3(1) by simp
  show "cout w' = cout w" "cerr w' = cerr w" "plain (example_fs w') base_path" using 3 by auto
  show "view (example_fs w') base_path = two_files ParquetFileFormat ''data1.parquet'' ''data2.parquet'' (view (example_fs w) base_path)"
    using 3 2 p1 by (auto simp: two_files_def)
qed

lemma CreateExampleFeatherDataset_files:
  assumes T: "table_laws D ints rows" and F: "dataset_laws D rows target wtarget plain view"
    and p: "plain (example_fs w) (root_path @ ''/feather_dataset'')"
    and run: "CreateExampleFeatherDataset D root_path w = (Inr base_path, w')"
  shows "base_path = root_path @ ''/feather_dataset''" "plain (example_fs w') base_path"
    "view (example_fs w') base_path = two_files IpcFileFormat ''data1.feather'' ''data2.feather'' (view (example_fs w) base_path)"
    "cout w' = cout w" "cerr w' = cerr w"
proof -
  let ?d = "root_path @ ''/feather_dataset''"
  let ?file = "\<lambda>n t s k. seq (on_fs (open_output_stream D (?d @ ''/'' @ n))) (\<lambda>out.
     seq (on_fs (ipc_make_file_writer D out (table_schema D t))) (\<lambda>wr. seq (on_fs (ipc_write_table D wr s)) (\<lambda>_.
     seq (on_fs (ipc_close D wr)) (\<lambda>_. k))))"
  note L = dataset_lawsD [OF F]
  let ?two = "\<lambda>t. ?file ''data2.feather'' t (table_slice D t 5 None) (ret ?d)"
  let ?one = "\<lambda>t. ?file ''data1.feather'' t (table_slice D t 0 (Some 5)) (?two t)"
  have run': "seq (on_fs (create_dir D ?d)) (\<lambda>_. seq (CreateTable D) ?one) w = (Inr base_path, w')"
    using run by (simp add: CreateExampleFeatherDataset_def Let_def)
  obtain u fs1 where 1: "create_dir D ?d (example_fs w) = (Inr u, fs1)"
      "seq (CreateTable D) ?one (w\<lparr>example_fs := fs1\<rparr>) = (Inr base_path, w')"
    using run' by (rule on_fs_InrE)
  have p1: "plain fs1 ?d \<and> view fs1 ?d = view (example_fs w) ?d" by (rule L(1) [OF 1(1) p])
  obtain t where t: "?one t (w\<lparr>example_fs := fs1\<rparr>) = (Inr base_path, w')" "rows t = example_rows" "table_schema D t = example_schema"
    by (rule CreateTable_InrE [OF T 1(2)])
  note S = example_slices [OF T t(2,3)]
  obtain fs2 where 2: "?two t (w\<lparr>example_fs := fs2\<rparr>) = (Inr base_path, w')" "plain fs2 ?d"
      "view fs2 ?d = (view fs1 ?d)(''data1.feather'' \<mapsto> Complete IpcFileFormat example_schema (take 5 example_rows))"
    by (rule feather_file_InrE [OF F _ _ _ _ t(1)]) (use p1 S t(3) in simp_all)
  obtain fs3 where 3: "ret ?d (w\<lparr>example_fs := fs3\<rparr>) = (Inr base_path, w')" "plain fs3 ?d"
      "view fs3 ?d = (view fs2 ?d)(''data2.feather'' \<mapsto> Complete IpcFileFormat example_schema (drop 5 example_rows))"
    by (rule feather_file_InrE [OF F _ _ _ _ 2(1)]) (blast | simp add: 2(2) S t(3))+
  show "base_path = ?d" using 3(1) by simp
  show "cout w' = cout w" "cerr w' = cerr w" "plain (example_fs w') base_path" using 3 by auto
  show "view (example_fs w') base_path = two_files IpcFileFormat ''data1.feather'' ''data2.feather'' (view (example_fs w) base_path)"
    using 3 2 p1 by (auto simp: two_files_def)
qed

section \<open>Reading it back\<close>

lemma print_fragments_output:
  "print_fragments p fragments w = (Inr y, w') \<Longrightarrow> \<exists>out. w' = w\<lparr>cout := cout w @ out\<rparr>"
proof (induction p fragments arbitrary: w rule: print_fragments.induct)
  case (1 with_partition)
  then show ?case by (auto intro: exI [of _ "[]"])
next
  case (2 with_partition e fragments)
  then show ?case by simp
next
  case (3 with_partition text_of part_expr fragments)
  then show ?case by (cases with_partition) fastforce+
qed

lemma ScanWholeDataset_reads:
  assumes F: "dataset_laws D rows target wtarget plain view"
    and p: "plain (example_fs w) d" and n: "n1 \<noteq> n2" "dataset_file n1" "dataset_file n2"
    and dir: "view (example_fs w) d = two_files format n1 n2 v" "dom v \<subseteq> {n1, n2}"
    and run: "ScanWholeDataset D format d w = (Inr t, w')"
  shows "mset (rows t) = mset example_rows" "\<exists>out. w' = w\<lparr>cout := cout w @ out\<rparr>"
proof -
  note L = dataset_lawsD [OF F]
  obtain ds where ds: "dataset_discover D \<lparr>base_dir = d, recursive = False\<rparr> format False (example_fs w) = Inr ds"
      "seq (ask_fs (dataset_fragments D ds)) (\<lambda>fragments. seq (print_fragments False fragments) (\<lambda>_.
        ask_fs (dataset_scan D ds All_columns None))) w = (Inr t, w')"
    using run unfolding ScanWholeDataset_def by (rule ask_fs_InrE)
  obtain fragments where fr: "seq (print_fragments False fragments) (\<lambda>_.
        ask_fs (dataset_scan D ds All_columns None)) w = (Inr t, w')"
    using ds(2) by (rule ask_fs_InrE)
  obtain u w1 where w1: "print_fragments False fragments w = (Inr u, w1)" "ask_fs (dataset_scan D ds All_columns None) w1 = (Inr t, w')"
    using fr by (rule seq_InrE)
  from print_fragments_output [OF w1(1)] obtain out where out: "w1 = w\<lparr>cout := cout w @ out\<rparr>" by (elim exE)
  have scan: "dataset_scan D ds All_columns None (example_fs w) = Inr t" and w': "w' = w1"
    using w1(2) by (auto simp: out ask_fs_def check_def split: sum.splits)
  show "\<exists>out. w' = w\<lparr>cout := cout w @ out\<rparr>" using w' out by blast
  have names: "{n. dataset_file n \<and> view (example_fs w) d n \<noteq> None} = set [n1, n2]"
    using dir(2) n by (auto simp: dir(1) two_files_def split: if_splits)
  have "mset (rows t) = mset (concat (map (\<lambda>n. if n = n1 then take 5 example_rows else drop 5 example_rows) [n1, n2]))"
    by (rule L(7) [OF ds(1) scan p example_schema_int64 _ names]) (use n in \<open>simp_all add: dir(1) two_files_def\<close>)
  also have "\<dots> = mset (take 5 example_rows @ drop 5 example_rows)" using n(1) by simp
  finally show "mset (rows t) = mset example_rows" by (simp only: append_take_drop_id)
qed

definition dataset_dir :: "string \<Rightarrow> string" where
  "dataset_dir format_name = (if format_name = ''feather'' then ''/feather_dataset'' else ''/parquet_dataset'')"

definition dataset_names :: "string \<Rightarrow> string list" where
  "dataset_names format_name =
     (if format_name = ''feather'' then [''data1.feather'', ''data2.feather'']
      else [''data1.parquet'', ''data2.parquet''])"

definition format_of :: "string \<Rightarrow> file_format" where
  "format_of format_name = (if format_name = ''feather'' then IpcFileFormat else ParquetFileFormat)"

lemma create_by_format_files:
  assumes T: "table_laws D ints rows" and F: "dataset_laws D rows target wtarget plain view"
    and name: "format_name \<in> {''feather'', ''parquet''}" and p: "plain (example_fs w) (root_path @ dataset_dir format_name)"
    and run: "create_by_format D format_name root_path w = (Inr (format, base_path), w')"
  shows "format = format_of format_name" "base_path = root_path @ dataset_dir format_name" "plain (example_fs w') base_path"
    "view (example_fs w') base_path = two_files (format_of format_name)
       (dataset_names format_name ! 0) (dataset_names format_name ! 1) (view (example_fs w) base_path)"
    "cout w' = cout w" "cerr w' = cerr w"
proof -
  have "format = format_of format_name \<and> base_path = root_path @ dataset_dir format_name \<and> plain (example_fs w') base_path \<and>
    view (example_fs w') base_path = two_files (format_of format_name)
       (dataset_names format_name ! 0) (dataset_names format_name ! 1) (view (example_fs w) base_path) \<and>
    cout w' = cout w \<and> cerr w' = cerr w"
  proof (cases "format_name = ''feather''")
    case True
    then have "CreateExampleFeatherDataset D root_path w = (Inr base_path, w')" "format = IpcFileFormat"
      using run by (auto simp: create_by_format_def elim!: seq_InrE)
    with CreateExampleFeatherDataset_files [OF T F _ this(1)] p True show ?thesis
      by (simp add: dataset_dir_def dataset_names_def format_of_def)
  next
    case False
    then have "CreateExampleParquetDataset D root_path w = (Inr base_path, w')" "format = ParquetFileFormat"
      using run name by (auto simp: create_by_format_def elim!: seq_InrE)
    with CreateExampleParquetDataset_files [OF T F _ this(1)] p False show ?thesis
      by (simp add: dataset_dir_def dataset_names_def format_of_def)
  qed
  then show "format = format_of format_name" "base_path = root_path @ dataset_dir format_name" "plain (example_fs w') base_path"
    "view (example_fs w') base_path = two_files (format_of format_name)
       (dataset_names format_name ! 0) (dataset_names format_name ! 1) (view (example_fs w) base_path)"
    "cout w' = cout w" "cerr w' = cerr w" by blast+
qed

text \<open>
  C13: run with the format \<open>feather\<close> or \<open>parquet\<close> and no mode, the program exits with 0 only after it has printed,
  after the fragments, that it read ten rows and a table of exactly the ten rows it wrote, whatever the files of the
  dataset held before, as long as no foreign file is in its directory; in particular a second run gives
  the same rows. Any call to Arrow may fail; the exit status is then another, or the program aborts.
\<close>

theorem no_filter_reads_what_was_written:
  assumes "table_laws D ints rows" "dataset_laws D rows target wtarget plain view"
    and "file_system_root D uri = Inr root_path" "format_name \<in> {''feather'', ''parquet''}"
    and "plain (example_fs w) (root_path @ dataset_dir format_name)"
    and "dom (view (example_fs w) (root_path @ dataset_dir format_name)) \<subseteq> set (dataset_names format_name)"
    and "main_dataset D status_text [prog, uri, format_name] w = (Some 0, w')"
  shows "\<exists>t out. mset (rows t) = mset example_rows \<and>
    cout w' = cout w @ out @ ''Read 10 rows'' @ newline @ table_to_string D t @ newline \<and> cerr w' = cerr w"
proof -
  let ?n = "dataset_names format_name"
  have run: "RunDatasetExample D format_name uri ''no_filter'' w = (Inr (), w')"
    using assms(7) by (auto simp: main_dataset_def split: prod.splits sum.splits example_error.splits)
  obtain r where r: "file_system_root D uri = Inr r" and run1: "seq (create_by_format D format_name r) (\<lambda>(format, base_path).
     seq (read_by_mode D ''no_filter'' format base_path) (\<lambda>table.
     seq (say (''Read '' @ dec_nat (table_num_rows D table) @ '' rows'' @ newline)) (\<lambda>_. say (table_to_string D table @ newline)))) w = (Inr (), w')"
    using run unfolding RunDatasetExample_def by (rule check_InrE)
  obtain fb w1 where c: "create_by_format D format_name root_path w = (Inr fb, w1)" and run2: "(case fb of (format, base_path) \<Rightarrow>
     seq (read_by_mode D ''no_filter'' format base_path) (\<lambda>table.
     seq (say (''Read '' @ dec_nat (table_num_rows D table) @ '' rows'' @ newline)) (\<lambda>_. say (table_to_string D table @ newline)))) w1 = (Inr (), w')"
    using run1 r assms(3) by (auto elim: seq_InrE)
  obtain format d where fb: "fb = (format, d)" by (cases fb)
  note C = create_by_format_files [OF assms(1,2,4,5) c [unfolded fb]]
  obtain t w2 where t: "ScanWholeDataset D format d w1 = (Inr t, w2)"
      and w2: "w' = w2\<lparr>cout := cout w2 @ ''Read '' @ dec_nat (table_num_rows D t) @ '' rows'' @ newline @ table_to_string D t @ newline\<rparr>"
    using run2 unfolding fb by (auto simp: read_by_mode_def elim!: seq_InrE)
  have n: "?n ! 0 \<noteq> ?n ! 1" "dataset_file (?n ! 0)" "dataset_file (?n ! 1)" "set ?n = {?n ! 0, ?n ! 1}"
    by (simp_all add: dataset_names_def dataset_file_def)
  note R = ScanWholeDataset_reads [OF assms(2) C(3) n(1-3) C(4) _ t [unfolded C(1)]]
  have rows: "mset (rows t) = mset example_rows" and out: "\<exists>out. w2 = w1\<lparr>cout := cout w1 @ out\<rparr>"
    using R assms(6) by (simp_all add: C(2) n(4))
  have "table_num_rows D t = 10"
    using arg_cong [OF rows, of size] by (simp add: table_lawsD(6) [OF assms(1)])
  then have "dec_nat (table_num_rows D t) = ''10''" by (simp add: dec_nat.simps)
  with rows out w2 C(5,6) show ?thesis by auto
qed

text \<open>A name that is no mode is found out only after the dataset has been written; then the run fails.\<close>

lemma unknown_mode_after_writing:
  assumes "table_laws D ints rows" "dataset_laws D rows target wtarget plain view"
    and "file_system_root D uri = Inr root_path" "format_name \<in> {''feather'', ''parquet''}"
    and "mode \<notin> {''no_filter'', ''filter'', ''project'', ''select_project'', ''partitioned'', ''filter_partitioned''}"
    and "plain (example_fs w) (root_path @ dataset_dir format_name)" "create_by_format D format_name root_path w = (Inr fb, w1)"
  shows "\<exists>w'. RunDatasetExample D format_name uri mode w = (Inl (ExecutionError ''Dataset reading failed.''), w') \<and>
    view (example_fs w') (root_path @ dataset_dir format_name) = two_files (format_of format_name)
      (dataset_names format_name ! 0) (dataset_names format_name ! 1) (view (example_fs w) (root_path @ dataset_dir format_name)) \<and>
    cout w' = cout w"
proof -
  obtain format d where fb: "fb = (format, d)" by (cases fb)
  note C = create_by_format_files [OF assms(1,2,4,6) assms(7) [unfolded fb]]
  have "\<exists>w'. read_by_mode D mode format d w1 = (Inl (ExecutionError ''Dataset reading failed.''), w') \<and>
      example_fs w' = example_fs w1 \<and> cout w' = cout w1"
    using assms(5) by (simp add: read_by_mode_def)
  then obtain w' where w': "read_by_mode D mode format d w1 =
      (Inl (ExecutionError ''Dataset reading failed.''), w')" "example_fs w' = example_fs w1" "cout w' = cout w1"
    by blast
  have "RunDatasetExample D format_name uri mode w = (Inl (ExecutionError ''Dataset reading failed.''), w')"
    using assms(3,7) w'(1) by (simp add: RunDatasetExample_def fb)
  then show ?thesis using C w' by auto
qed

text \<open>An unknown format fails before any call that writes: the files are left alone.\<close>

lemma unknown_format_writes_nothing:
  assumes "format_name \<notin> {''feather'', ''parquet'', ''parquet_hive''}"
  shows "example_fs (snd (RunDatasetExample D format_name uri mode w)) = example_fs w"
  using assms by (cases "file_system_root D uri") (simp_all add: RunDatasetExample_def create_by_format_def)

section \<open>An instance of the laws\<close>

text \<open>
  A file system that maps a directory to the list of its files, newest first, and tables that are
  a schema with a list of rows. Calls that the law does not speak of do the least.
\<close>

type_synonym sample_fs = "string \<Rightarrow> (string \<times> stored) list"

definition split_path :: "string \<Rightarrow> string \<times> string" where
  "split_path p = (let n = rev (takeWhile (\<lambda>c. c \<noteq> CHR ''/'') (rev p)) in (take (length p - length n - 1) p, n))"

definition sample_put :: "string \<times> string \<Rightarrow> stored \<Rightarrow> sample_fs \<Rightarrow> (string + unit) \<times> sample_fs" where
  "sample_put p s fs = (Inr (), fs(fst p := (snd p, s) # fs (fst p)))"

definition sample_dataset_view :: "sample_fs \<Rightarrow> string \<Rightarrow> string \<Rightarrow> stored option" where
  "sample_dataset_view fs d = map_of (fs d)"

definition dataset_file_names :: "sample_fs \<Rightarrow> string \<Rightarrow> string list" where
  "dataset_file_names fs d = filter dataset_file (map fst (AList.clearjunk (fs d)))"

definition sample_api ::
  "(sample_fs, int list, table_fields \<times> int list list, string \<times> string, string \<times> string,
    table_fields \<times> int list list, string, string) dataset_api"
where
  "sample_api = \<lparr>build_int64 = Inr, build_utf8 = (\<lambda>xs. Inr (map (int \<circ> length) xs)),
     table_make = (\<lambda>schema as. (schema, map (\<lambda>i. map (\<lambda>a. a ! i) as) [0..<(case as of [] \<Rightarrow> 0 | a # _ \<Rightarrow> length a)])),
     table_slice = (\<lambda>t off len. (fst t, case len of None \<Rightarrow> drop off (snd t) | Some n \<Rightarrow> take n (drop off (snd t)))),
     table_schema = fst, table_num_rows = (\<lambda>t. length (snd t)), table_to_string = (\<lambda>t. ''table''),
     create_dir = (\<lambda>d fs. (Inr (), fs)),
     open_output_stream = (\<lambda>p fs. (Inr (split_path p), snd (sample_put (split_path p) (Partial [] []) fs))),
     parquet_write_table = (\<lambda>t out c. sample_put out (Complete ParquetFileFormat (fst t) (snd t))),
     ipc_make_file_writer = (\<lambda>out schema fs. (Inr out, snd (sample_put out (Partial schema []) fs))),
     ipc_write_table = (\<lambda>p t fs.
       sample_put p (Partial (fst t) (stored_rows (the (map_of (fs (fst p)) (snd p))) @ snd t)) fs),
     ipc_close = (\<lambda>p fs. (case map_of (fs (fst p)) (snd p) of
         Some (Partial schema r) \<Rightarrow> sample_put p (Complete IpcFileFormat schema r) fs | _ \<Rightarrow> (Inl ''closed'', fs))),
     in_memory_scanner = Inr, dataset_write = (\<lambda>opts s fs. (Inl ''existing data'', fs)),
     dataset_discover = (\<lambda>sel fmt part fs. Inr (base_dir sel)),
     dataset_fields = (\<lambda>d. [''a'', ''b'', ''c'']),
     dataset_fragments = (\<lambda>d fs. Inr (map (\<lambda>n. Inr (n, ''true'')) (dataset_file_names fs d))),
     dataset_scan = (\<lambda>d p f fs. Inr ([], concat (map (\<lambda>n. stored_rows (the (map_of (fs d) n))) (dataset_file_names fs d)))),
     file_system_root = Inr\<rparr>"

lemma split_path_join [simp]:
  assumes "CHR ''/'' \<notin> set n"
  shows "split_path (d @ CHR ''/'' # n) = (d, n)"
proof -
  have "takeWhile (\<lambda>c. c \<noteq> CHR ''/'') (rev n @ CHR ''/'' # rev d) = rev n"
    using assms by (subst takeWhile_append2) auto
  then show ?thesis by (simp add: split_path_def)
qed

lemma sample_table_laws: "table_laws sample_api (\<lambda>xs. xs) snd"
proof -
  have "map (\<lambda>i. map (\<lambda>a. a ! i) as) [0..<(case as of [] \<Rightarrow> 0 | a # _ \<Rightarrow> length a)] =
      map (\<lambda>i. map (\<lambda>a. a ! i) as) [0..<n]" if "as \<noteq> []" "\<forall>a\<in>set as. length a = n" for as :: "int list list" and n
    using that by (cases as) auto
  then show ?thesis by (simp add: table_laws_def sample_api_def)
qed

lemma sample_dataset_view_put [simp]: "sample_dataset_view (snd (sample_put (d, n) s fs)) d = (sample_dataset_view fs d)(n \<mapsto> s)"
  by (rule ext) (simp add: sample_dataset_view_def sample_put_def)

lemma sample_put_InrD: "sample_put p s fs = (Inr u, fs') \<Longrightarrow> fs' = snd (sample_put p s fs)"
  by simp

lemma dataset_file_names_set: "set (dataset_file_names fs d) = {n. dataset_file n \<and> sample_dataset_view fs d n \<noteq> None}" "distinct (dataset_file_names fs d)"
  by (simp_all add: dataset_file_names_def sample_dataset_view_def distinct_clearjunk dom_clearjunk map_of_eq_None_iff) blast

lemma sample_scanning_law: "scanning_law sample_api snd (\<lambda>fs d. True) sample_dataset_view"
  unfolding scanning_law_def
proof (intro allI impI, elim conjE)
  fix fs :: sample_fs and d format ds t schema ns contents
  assume ds: "dataset_discover sample_api \<lparr>base_dir = d, recursive = False\<rparr> format False fs = Inr ds"
    and t: "dataset_scan sample_api ds All_columns None fs = Inr t"
    and ns: "distinct ns" "{n. dataset_file n \<and> sample_dataset_view fs d n \<noteq> None} = set ns"
    and files: "\<forall>n\<in>set ns. sample_dataset_view fs d n = Some (Complete format schema (contents n))"
  have p: "mset (dataset_file_names fs d) = mset ns"
    using dataset_file_names_set [of fs d] ns by (simp add: set_eq_iff_mset_eq_distinct)
  have s: "snd t = concat (map (\<lambda>n. stored_rows (the (sample_dataset_view fs d n))) (dataset_file_names fs d))"
    using ds t by (auto simp: sample_api_def sample_dataset_view_def)
  also have "\<dots> = concat (map contents (dataset_file_names fs d))"
    using files ns(2) by (intro arg_cong [of _ _ concat] map_cong refl) (auto simp: dataset_file_names_set)
  finally have "snd t = concat (map contents (dataset_file_names fs d))" .
  moreover have "mset (concat (map contents xs)) = (\<Sum>n\<in>#mset xs. mset (contents n))" for xs
    by (induction xs) simp_all
  ultimately show "mset (snd t) = mset (concat (map contents ns))" by (simp only: p)
qed

lemma sample_writing_dataset_laws: "writing_dataset_laws sample_api snd (\<lambda>p. p) (\<lambda>p. p) (\<lambda>fs d. True) sample_dataset_view"
proof -
  have get: "map_of (fs d) n = Some s" if "sample_dataset_view fs d n = Some s" for fs d n s
    using that by (simp add: sample_dataset_view_def)
  show ?thesis
    unfolding writing_dataset_laws_def
    by (intro conjI allI impI)
      (auto simp: sample_api_def dest!: sample_put_InrD get)
qed

lemma sample_dataset_laws: "dataset_laws sample_api snd (\<lambda>p. p) (\<lambda>p. p) (\<lambda>fs d. True) sample_dataset_view"
  unfolding dataset_laws_def by (intro conjI sample_writing_dataset_laws sample_scanning_law)

definition sample_world :: "sample_fs example" where
  "sample_world = \<lparr>example_fs = (\<lambda>d. [(''data1.feather'', Partial [] [])]), cout = [], cerr = []\<rparr>"

theorem no_filter_reads_what_was_written_witness:
  "\<exists>w' out. main_dataset sample_api (\<lambda>st. []) [''dataset_example'', ''/tmp'', ''feather''] sample_world = (Some 0, w') \<and>
    cout w' = out @ ''Read 10 rows'' @ newline @ ''table'' @ newline \<and> cerr w' = []"
proof -
  have exit: "fst (main_dataset sample_api (\<lambda>st. []) [''dataset_example'', ''/tmp'', ''feather''] sample_world) = Some 0"
    by code_simp
  then obtain w' where run: "main_dataset sample_api (\<lambda>st. []) [''dataset_example'', ''/tmp'', ''feather''] sample_world = (Some 0, w')"
    by (metis prod.collapse)
  have "file_system_root sample_api ''/tmp'' = Inr ''/tmp''" "table_to_string sample_api t = ''table''" for t
    by (simp_all add: sample_api_def)
  then have "\<exists>out. cout w' = out @ ''Read 10 rows'' @ newline @ ''table'' @ newline \<and> cerr w' = []"
    using no_filter_reads_what_was_written [OF sample_table_laws sample_dataset_laws _ _ _ _ run]
    by (auto simp: sample_dataset_view_def sample_world_def dataset_names_def)
  with run show ?thesis by blast
qed

end
