(* ===== verification/Arrow_Compute.thy ===== *)
theory Arrow_Compute
  imports Dataset_Example
begin

text \<open>
  Programs that compute on Arrow columns: \<open>arrow/examples/compute_and_write_csv_example.cpp\<close> and
  \<open>arrow/02_arrow_compute.cpp\<close>. Arrow is a parameter, with laws for what its builders, arrays and
  compute functions do.
\<close>

section \<open>Comparing two columns\<close>

text \<open>
  The calls of the first program. \<open>UnsafeAppend\<close> does not check the capacity: without space it is
  undefined behaviour, \<open>None\<close>. A finished builder is empty and can be used again.
\<close>

record ('fs, 'ib, 'bb, 'ia, 'ba, 'table, 'out, 'e) compare_api =
  int64_builder :: 'ib
  boolean_builder :: 'bb
  int_resize :: "nat \<Rightarrow> 'ib \<Rightarrow> 'e + 'ib"
  bool_resize :: "nat \<Rightarrow> 'bb \<Rightarrow> 'e + 'bb"
  append_values :: "int list \<Rightarrow> 'ib \<Rightarrow> 'e + 'ib"
  int_finish :: "'ib \<Rightarrow> 'e + 'ia \<times> 'ib"
  int_reset :: "'ib \<Rightarrow> 'ib"
  unsafe_append :: "bool \<Rightarrow> 'bb \<Rightarrow> 'bb option"
  unsafe_append_null :: "'bb \<Rightarrow> 'bb option"
  bool_finish :: "'bb \<Rightarrow> 'e + 'ba \<times> 'bb"
  is_null :: "'ia \<Rightarrow> nat \<Rightarrow> bool"
  int_value :: "'ia \<Rightarrow> nat \<Rightarrow> int"
  call_compare :: "string \<Rightarrow> 'ia list \<Rightarrow> 'e + 'ba"
  make_columns :: "(string \<times> data_type) list \<Rightarrow> ('ia + 'ba) list \<Rightarrow> 'table"
  open_csv :: "string \<Rightarrow> 'fs \<Rightarrow> ('e + 'out) \<times> 'fs"
  write_csv :: "'table \<Rightarrow> 'out \<Rightarrow> 'fs \<Rightarrow> ('e + unit) \<times> 'fs"

text \<open>A failed status, undefined behaviour, or the abort of reading the value of a failed result.\<close>

datatype 'e compute_end = Not_ok 'e | Undefined | Aborted 'e

fun is_status :: "'e compute_end \<Rightarrow> bool" where
  "is_status (Not_ok e) \<longleftrightarrow> True"
| "is_status Undefined \<longleftrightarrow> False"
| "is_status (Aborted e) \<longleftrightarrow> False"

type_synonym ('fs, 'e, 'x) compute_action = "('fs example, 'e compute_end, 'x) action"

definition return_not_ok :: "'e + 'x \<Rightarrow> ('fs, 'e, 'x) compute_action" where
  "return_not_ok r = (case r of Inl e \<Rightarrow> raise (Not_ok e) | Inr x \<Rightarrow> ret x)"

definition with_files :: "('fs \<Rightarrow> ('e + 'x) \<times> 'fs) \<Rightarrow> ('fs, 'e, 'x) compute_action" where
  "with_files f w = (case f (example_fs w) of (r, fs) \<Rightarrow> return_not_ok r (w\<lparr>example_fs := fs\<rparr>))"

definition defined :: "'x option \<Rightarrow> ('fs, 'e, 'x) compute_action" where
  "defined r = (case r of None \<Rightarrow> raise Undefined | Some x \<Rightarrow> ret x)"

definition print :: "string \<Rightarrow> ('fs, 'e, unit) compute_action" where
  "print s = modify (\<lambda>w. w\<lparr>cout := cout w @ s\<rparr>)"

text \<open>The loop over the rows.\<close>

definition compare_row ::
  "('fs, 'ib, 'bb, 'ia, 'ba, 'table, 'out, 'e) compare_api \<Rightarrow> 'ia \<Rightarrow> 'ia \<Rightarrow> nat \<Rightarrow> 'bb \<Rightarrow> 'bb option" where
  "compare_row A int64_array_a int64_array_b i builder =
     (if \<not> is_null A int64_array_a i \<and> \<not> is_null A int64_array_b i
      then unsafe_append A (int_value A int64_array_b i < int_value A int64_array_a i) builder
      else unsafe_append_null A builder)"

fun compare_rows ::
  "('fs, 'ib, 'bb, 'ia, 'ba, 'table, 'out, 'e) compare_api \<Rightarrow> 'ia \<Rightarrow> 'ia \<Rightarrow> nat list \<Rightarrow> 'bb \<Rightarrow> 'bb option" where
  "compare_rows A a b [] builder = Some builder"
| "compare_rows A a b (i # is) builder =
     (case compare_row A a b i builder of None \<Rightarrow> None | Some builder \<Rightarrow> compare_rows A a b is builder)"

text \<open>\<open>RunMain\<close>: the four columns, then the table and the file.\<close>

definition compare_columns ::
  "('fs, 'ib, 'bb, 'ia, 'ba, 'table, 'out, 'e) compare_api \<Rightarrow> ('fs, 'e, 'ia \<times> 'ia \<times> 'ba \<times> 'ba) compute_action"
where
  "compare_columns A =
     seq (return_not_ok (int_resize A 8 (int64_builder A))) (\<lambda>int64_builder.
     seq (return_not_ok (bool_resize A 8 (boolean_builder A))) (\<lambda>boolean_builder.
     seq (return_not_ok (append_values A [1, 2, 3, 4, 5, 6, 7, 8] int64_builder)) (\<lambda>int64_builder.
     seq (return_not_ok (int_finish A int64_builder)) (\<lambda>(array_a, int64_builder).
     seq (return_not_ok (append_values A [2, 5, 1, 3, 6, 2, 7, 4] (int_reset A int64_builder))) (\<lambda>int64_builder.
     seq (return_not_ok (int_finish A int64_builder)) (\<lambda>(array_b, int64_builder).
     seq (defined (compare_rows A array_a array_b [0..<8] boolean_builder)) (\<lambda>boolean_builder.
     seq (return_not_ok (bool_finish A boolean_builder)) (\<lambda>(array_a_gt_b_self, boolean_builder).
     seq (print (''Array explicitly compared'' @ newline)) (\<lambda>_.
     seq (return_not_ok (call_compare A ''greater'' [array_a, array_b])) (\<lambda>array_a_gt_b_compute.
     seq (print (''Arrays compared using a compute function'' @ newline)) (\<lambda>_.
     ret (array_a, array_b, array_a_gt_b_self, array_a_gt_b_compute))))))))))))"

definition RunCompare ::
  "('fs, 'ib, 'bb, 'ia, 'ba, 'table, 'out, 'e) compare_api \<Rightarrow> ('fs, 'e, unit) compute_action" where
  "RunCompare A =
     seq (compare_columns A) (\<lambda>(array_a, array_b, array_a_gt_b_self, array_a_gt_b_compute).
     let my_table = make_columns A
           [(''a'', int64), (''b'', int64), (''a>b? (self written)'', boolean), (''a>b? (arrow)'', boolean)]
           [Inl array_a, Inl array_b, Inr array_a_gt_b_self, Inr array_a_gt_b_compute] in
     seq (print (''Table created'' @ newline)) (\<lambda>_.
     seq (with_files (open_csv A ''compute_and_write_output.csv'')) (\<lambda>outstream.
     seq (print (''Writing CSV file'' @ newline)) (\<lambda>_.
     with_files (write_csv A my_table outstream)))))"

text \<open>\<open>main\<close> prints the text of a failed status; \<open>None\<close> is undefined behaviour or an abort.\<close>

definition main_of :: "('e \<Rightarrow> string) \<Rightarrow> ('fs, 'e, unit) compute_action \<Rightarrow> 'fs example \<Rightarrow> nat option \<times> 'fs example" where
  "main_of status_text RunMain w =
     (case RunMain w of
        (Inr _, w) \<Rightarrow> (Some 0, w)
      | (Inl (Not_ok e), w) \<Rightarrow> (Some 1, w\<lparr>cerr := cerr w @ status_text e @ newline\<rparr>)
      | (Inl Undefined, w) \<Rightarrow> (None, w)
      | (Inl (Aborted e), w) \<Rightarrow> (None, w))"

definition main_compare ::
  "('e \<Rightarrow> string) \<Rightarrow> ('fs, 'ib, 'bb, 'ia, 'ba, 'table, 'out, 'e) compare_api \<Rightarrow> 'fs example \<Rightarrow> nat option \<times> 'fs example" where
  "main_compare status_text A = main_of status_text (RunCompare A)"

section \<open>The two comparisons agree\<close>

text \<open>
  What Arrow documents: builders collect values, an array is a list of values and nulls, and the function
  \<open>greater\<close> compares row by row, with a null for a null.
\<close>

definition gt_rows :: "int option list \<Rightarrow> int option list \<Rightarrow> bool option list" where
  "gt_rows xs ys = map2 (\<lambda>x y. case (x, y) of (Some a, Some b) \<Rightarrow> Some (b < a) | _ \<Rightarrow> None) xs ys"

record ('ib, 'bb, 'ia, 'ba) column_view =
  in_int :: "'ib \<Rightarrow> int option list"
  in_bool :: "'bb \<Rightarrow> bool option list"
  room :: "'bb \<Rightarrow> nat"
  ints_of :: "'ia \<Rightarrow> int option list"
  bools_of :: "'ba \<Rightarrow> bool option list"

definition compare_laws ::
  "('fs, 'ib, 'bb, 'ia, 'ba, 'table, 'out, 'e) compare_api \<Rightarrow> ('ib, 'bb, 'ia, 'ba) column_view \<Rightarrow> bool" where
  "compare_laws A V \<longleftrightarrow>
     in_int V (int64_builder A) = [] \<and> in_bool V (boolean_builder A) = [] \<and>
     (\<forall>n b b'. int_resize A n b = Inr b' \<longrightarrow> in_int V b' = in_int V b) \<and>
     (\<forall>n b b'. bool_resize A n b = Inr b' \<longrightarrow> in_bool V b' = in_bool V b \<and> n \<le> room V b') \<and>
     (\<forall>xs b b'. append_values A xs b = Inr b' \<longrightarrow> in_int V b' = in_int V b @ map Some xs) \<and>
     (\<forall>b a b'. int_finish A b = Inr (a, b') \<longrightarrow> ints_of V a = in_int V b) \<and>
     (\<forall>b. in_int V (int_reset A b) = []) \<and>
     (\<forall>x b. length (in_bool V b) < room V b \<longrightarrow>
        (\<exists>b'. unsafe_append A x b = Some b' \<and> in_bool V b' = in_bool V b @ [Some x] \<and> room V b' = room V b)) \<and>
     (\<forall>b. length (in_bool V b) < room V b \<longrightarrow>
        (\<exists>b'. unsafe_append_null A b = Some b' \<and> in_bool V b' = in_bool V b @ [None] \<and> room V b' = room V b)) \<and>
     (\<forall>b a b'. bool_finish A b = Inr (a, b') \<longrightarrow> bools_of V a = in_bool V b) \<and>
     (\<forall>a i. i < length (ints_of V a) \<longrightarrow> is_null A a i = (ints_of V a ! i = None)) \<and>
     (\<forall>a i x. i < length (ints_of V a) \<and> ints_of V a ! i = Some x \<longrightarrow> int_value A a i = x) \<and>
     (\<forall>a b r. length (ints_of V a) = length (ints_of V b) \<and> call_compare A ''greater'' [a, b] = Inr r \<longrightarrow>
        bools_of V r = gt_rows (ints_of V a) (ints_of V b))"

lemma compare_lawsD:
  assumes "compare_laws A V"
  shows "in_int V (int64_builder A) = []" "in_bool V (boolean_builder A) = []"
    "int_resize A n b = Inr b' \<Longrightarrow> in_int V b' = in_int V b"
    "bool_resize A n c = Inr c' \<Longrightarrow> in_bool V c' = in_bool V c \<and> n \<le> room V c'"
    "append_values A xs b = Inr b' \<Longrightarrow> in_int V b' = in_int V b @ map Some xs"
    "int_finish A b = Inr (a, b') \<Longrightarrow> ints_of V a = in_int V b"
    "in_int V (int_reset A b) = []"
    "length (in_bool V c) < room V c \<Longrightarrow>
       \<exists>c'. unsafe_append A x c = Some c' \<and> in_bool V c' = in_bool V c @ [Some x] \<and> room V c' = room V c"
    "length (in_bool V c) < room V c \<Longrightarrow>
       \<exists>c'. unsafe_append_null A c = Some c' \<and> in_bool V c' = in_bool V c @ [None] \<and> room V c' = room V c"
    "bool_finish A c = Inr (r, c') \<Longrightarrow> bools_of V r = in_bool V c"
    "i < length (ints_of V a) \<Longrightarrow> is_null A a i = (ints_of V a ! i = None)"
    "i < length (ints_of V a) \<Longrightarrow> ints_of V a ! i = Some y \<Longrightarrow> int_value A a i = y"
    "length (ints_of V a) = length (ints_of V d) \<Longrightarrow> call_compare A ''greater'' [a, d] = Inr r \<Longrightarrow>
       bools_of V r = gt_rows (ints_of V a) (ints_of V d)"
  using assms by (simp_all add: compare_laws_def)

lemma gt_rows_nth:
  "i < length xs \<Longrightarrow> i < length ys \<Longrightarrow>
     gt_rows xs ys ! i = (case (xs ! i, ys ! i) of (Some a, Some b) \<Rightarrow> Some (b < a) | _ \<Rightarrow> None)"
  by (simp add: gt_rows_def)

lemma length_gt_rows [simp]: "length (gt_rows xs ys) = min (length xs) (length ys)"
  by (simp add: gt_rows_def)

lemma compare_row_ok:
  assumes L: "compare_laws A V" and i: "i < length (ints_of V a)" "i < length (ints_of V b)"
    and room: "length (in_bool V c) < room V c"
  shows "\<exists>c'. compare_row A a b i c = Some c' \<and>
    in_bool V c' = in_bool V c @ [gt_rows (ints_of V a) (ints_of V b) ! i] \<and> room V c' = room V c"
proof (cases "ints_of V a ! i")
  case None
  then show ?thesis
    using compare_lawsD(9) [OF L room] compare_lawsD(11) [OF L i(1)] i by (simp add: compare_row_def gt_rows_nth)
next
  case (Some x)
  show ?thesis
  proof (cases "ints_of V b ! i")
    case None
    then show ?thesis
      using compare_lawsD(9) [OF L room] compare_lawsD(11) [OF L i(1)] compare_lawsD(11) [OF L i(2)] i Some
      by (simp add: compare_row_def gt_rows_nth)
  next
    case (Some y)
    then show ?thesis
      using compare_lawsD(8) [OF L room, of "y < x"] compare_lawsD(11) [OF L i(1)] compare_lawsD(11) [OF L i(2)] i
        compare_lawsD(12) [OF L i(1) \<open>ints_of V a ! i = Some x\<close>] compare_lawsD(12) [OF L i(2) Some]
        \<open>ints_of V a ! i = Some x\<close>
      by (simp add: compare_row_def gt_rows_nth)
  qed
qed

text \<open>The loop computes what \<open>greater\<close> does, for any two columns of the same length, nulls included, with
  enough space.\<close>

lemma compare_rows_ok:
  assumes L: "compare_laws A V" and n: "length (ints_of V a) = n" "length (ints_of V b) = n"
    and "k \<le> n" "length (in_bool V c) + (n - k) \<le> room V c"
  shows "\<exists>c'. compare_rows A a b [k..<n] c = Some c' \<and>
    in_bool V c' = in_bool V c @ drop k (gt_rows (ints_of V a) (ints_of V b))"
  using assms(4,5)
proof (induction "n - k" arbitrary: k c)
  case 0
  then show ?case using n by simp
next
  case (Suc m)
  then have k: "k < n" "[k..<n] = k # [Suc k..<n]" by (auto simp: upt_rec)
  obtain c1 where c1: "compare_row A a b k c = Some c1"
      "in_bool V c1 = in_bool V c @ [gt_rows (ints_of V a) (ints_of V b) ! k]" "room V c1 = room V c"
    using compare_row_ok [OF L, of k a b c] n k Suc by auto
  have m: "m = n - Suc k" and le: "Suc k \<le> n" and fits: "length (in_bool V c1) + (n - Suc k) \<le> room V c1"
    using Suc.hyps(2) Suc.prems k(1) c1 by simp_all
  obtain c' where c': "compare_rows A a b [Suc k..<n] c1 = Some c'"
      "in_bool V c' = in_bool V c1 @ drop (Suc k) (gt_rows (ints_of V a) (ints_of V b))"
    using Suc.hyps(1) [OF m le fits] by blast
  have "drop k (gt_rows (ints_of V a) (ints_of V b)) =
      gt_rows (ints_of V a) (ints_of V b) ! k # drop (Suc k) (gt_rows (ints_of V a) (ints_of V b))"
    using k n by (simp add: Cons_nth_drop_Suc)
  then show ?case using k c1 c' by simp
qed

definition values_a :: "int option list" where "values_a = map Some [1, 2, 3, 4, 5, 6, 7, 8]"
definition values_b :: "int option list" where "values_b = map Some [2, 5, 1, 3, 6, 2, 7, 4]"

lemma hoare_return:
  assumes "\<And>x. r = Inr x \<Longrightarrow> hoare P (k x) Q E" "\<And>e w. E (Not_ok e) w"
  shows "hoare P (seq (return_not_ok r) k) Q E"
  using assms by (cases r) (simp_all add: return_not_ok_def seq_ret seq_raise hoare_def)

lemma hoare_return_pair:
  assumes "\<And>x y. r = Inr (x, y) \<Longrightarrow> hoare P (k x y) Q E" "\<And>e w. E (Not_ok e) w"
  shows "hoare P (seq (return_not_ok r) (\<lambda>(x, y). k x y)) Q E"
  using assms by (intro hoare_return) (auto split: prod.splits)

lemma hoare_defined:
  assumes "r \<noteq> None" "\<And>x. r = Some x \<Longrightarrow> hoare P (k x) Q E"
  shows "hoare P (seq (defined r) k) Q E"
  using assms by (cases r) (simp_all add: defined_def seq_ret)

lemma hoare_print:
  assumes "\<And>w. P w \<Longrightarrow> R (w\<lparr>cout := cout w @ s\<rparr>)" "hoare R (k ()) Q E"
  shows "hoare P (seq (print s) k) Q E"
  using assms unfolding hoare_def print_def seq_modify by blast

text \<open>What is known after the columns have been computed, or the program has stopped before.\<close>

lemma compare_columns_triple:
  assumes L: "compare_laws A V"
  shows "hoare (\<lambda>w. True) (compare_columns A)
    (\<lambda>(a, b, self, arrow) w. ints_of V a = values_a \<and> ints_of V b = values_b \<and>
       bools_of V self = gt_rows values_a values_b \<and> bools_of V arrow = gt_rows values_a values_b)
    (\<lambda>e w. is_status e)"
  unfolding compare_columns_def
proof (rule hoare_return, rule hoare_return, rule hoare_return, rule hoare_return_pair, rule hoare_return,
    rule hoare_return_pair)
  fix ib bb ib1 a ib2 ib3 b ib4
  assume r: "int_resize A 8 (int64_builder A) = Inr ib" "bool_resize A 8 (boolean_builder A) = Inr bb"
    "append_values A [1, 2, 3, 4, 5, 6, 7, 8] ib = Inr ib1" "int_finish A ib1 = Inr (a, ib2)"
    "append_values A [2, 5, 1, 3, 6, 2, 7, 4] (int_reset A ib2) = Inr ib3" "int_finish A ib3 = Inr (b, ib4)"
  note D = compare_lawsD [OF L]
  have a: "ints_of V a = values_a" using D(1) D(3) [OF r(1)] D(5) [OF r(3)] D(6) [OF r(4)] by (simp add: values_a_def)
  have b: "ints_of V b = values_b" using D(5) [OF r(5)] D(6) [OF r(6)] D(7) by (simp add: values_b_def)
  have n: "length (ints_of V a) = 8" "length (ints_of V b) = 8" by (simp_all add: a b values_a_def values_b_def)
  obtain bb1 where bb1: "compare_rows A a b [0..<8] bb = Some bb1" "in_bool V bb1 = gt_rows values_a values_b"
    using compare_rows_ok [OF L n, of 0 bb] D(2) D(4) [OF r(2)] a b by auto
  show "hoare (\<lambda>w. True) (seq (defined (compare_rows A a b [0..<8] bb)) (\<lambda>boolean_builder.
     seq (return_not_ok (bool_finish A boolean_builder)) (\<lambda>(array_a_gt_b_self, boolean_builder).
     seq (print (''Array explicitly compared'' @ newline)) (\<lambda>_.
     seq (return_not_ok (call_compare A ''greater'' [a, b])) (\<lambda>array_a_gt_b_compute.
     seq (print (''Arrays compared using a compute function'' @ newline)) (\<lambda>_.
     ret (a, b, array_a_gt_b_self, array_a_gt_b_compute)))))))
    (\<lambda>(a, b, self, arrow) w. ints_of V a = values_a \<and> ints_of V b = values_b \<and>
       bools_of V self = gt_rows values_a values_b \<and> bools_of V arrow = gt_rows values_a values_b)
    (\<lambda>e w. is_status e)"
  proof (rule hoare_defined, simp add: bb1, rule hoare_return_pair, rule hoare_print [where R = "\<lambda>w. True"], simp,
      rule hoare_return, rule hoare_print [where R = "\<lambda>w. True"], simp)
    fix c self c1 arrow
    assume f: "compare_rows A a b [0..<8] bb = Some c" "bool_finish A c = Inr (self, c1)"
      "call_compare A ''greater'' [a, b] = Inr arrow"
    have "bools_of V self = gt_rows values_a values_b" using D(10) [OF f(2)] f(1) bb1 by simp
    moreover have "bools_of V arrow = gt_rows values_a values_b" using D(13) [OF _ f(3)] n a b by simp
    ultimately show "hoare (\<lambda>w. True) (ret (a, b, self, arrow)) (\<lambda>(a, b, self, arrow) w. ints_of V a = values_a \<and>
       ints_of V b = values_b \<and> bools_of V self = gt_rows values_a values_b \<and>
       bools_of V arrow = gt_rows values_a values_b) (\<lambda>e w. is_status e)"
      using a b by (simp add: hoare_def)
  qed simp_all
qed simp_all

text \<open>
  C33: the written-out comparison and Arrow's own give the same column, the one expected of the two lists of
  numbers; and the program never appends beyond the space it asked for.
\<close>

theorem both_comparisons_agree:
  assumes "compare_laws A V" "compare_columns A w = (r, w')"
  shows "case r of
      Inl e \<Rightarrow> is_status e
    | Inr (a, b, self, arrow) \<Rightarrow> bools_of V self = bools_of V arrow \<and>
        bools_of V self = map Some [False, False, True, True, False, True, False, True]"
proof -
  have g: "gt_rows values_a values_b = map Some [False, False, True, True, False, True, False, True]"
    by (simp add: gt_rows_def values_a_def values_b_def)
  show ?thesis
    using compare_columns_triple [OF assms(1)] assms(2) g unfolding hoare_def
    by (cases r) (auto split: prod.splits dest: spec [of _ w])
qed

lemma hoare_with_files:
  assumes "\<And>x. hoare (\<lambda>w. True) (k x) Q (\<lambda>e w. is_status e)"
  shows "hoare P (seq (with_files f) k) Q (\<lambda>e w. is_status e)"
  by (rule hoare_seq [where R = "\<lambda>_ _. True"], rule hoareI)
    (use assms in \<open>auto simp: with_files_def return_not_ok_def split: prod.splits sum.splits\<close>)

lemma with_files_defined: "hoare P (with_files f) (\<lambda>_ _. True) (\<lambda>e w. is_status e)"
  by (rule hoareI) (auto simp: with_files_def return_not_ok_def split: prod.splits sum.splits)

text \<open>The program never runs into undefined behaviour, and never aborts.\<close>

lemma RunCompare_defined:
  assumes "compare_laws A V"
  shows "fst (main_compare status_text A w) \<noteq> None"
proof -
  have "hoare (\<lambda>w. True) (RunCompare A) (\<lambda>_ _. True) (\<lambda>e w. is_status e)"
    unfolding RunCompare_def Let_def
    by (rule hoare_seq [OF hoare_weaken [OF compare_columns_triple [OF assms]], where R = "\<lambda>_ _. True"])
      (auto intro!: hoare_print [where R = "\<lambda>_. True"] hoare_with_files with_files_defined split: prod.splits)
  then show ?thesis
    unfolding hoare_def main_compare_def main_of_def
    by (auto split: prod.splits sum.splits compute_end.splits dest: spec [of _ w])
qed

section \<open>A column library to evaluate on\<close>

text \<open>Builders and arrays are lists; a Boolean builder also has its capacity.\<close>

definition sample_compare_api ::
  "(string list, int option list, bool option list \<times> nat, int option list, bool option list,
    (int option list + bool option list) list, string, string) compare_api" where
  "sample_compare_api = \<lparr>int64_builder = [], boolean_builder = ([], 0),
     int_resize = (\<lambda>n b. Inr b), bool_resize = (\<lambda>n b. Inr (fst b, n)),
     append_values = (\<lambda>xs b. Inr (b @ map Some xs)), int_finish = (\<lambda>b. Inr (b, [])), int_reset = (\<lambda>b. []),
     unsafe_append = (\<lambda>x b. if length (fst b) < snd b then Some (fst b @ [Some x], snd b) else None),
     unsafe_append_null = (\<lambda>b. if length (fst b) < snd b then Some (fst b @ [None], snd b) else None),
     bool_finish = (\<lambda>b. Inr (fst b, ([], 0))), is_null = (\<lambda>a i. a ! i = None), int_value = (\<lambda>a i. the (a ! i)),
     call_compare = (\<lambda>f as. if f = ''greater'' \<and> length as = 2 then Inr (gt_rows (as ! 0) (as ! 1)) else Inl ''no function''),
     make_columns = (\<lambda>schema columns. columns), open_csv = (\<lambda>f fs. (Inr f, fs @ [f])),
     write_csv = (\<lambda>t f fs. (Inr (), fs))\<rparr>"

definition sample_column_view ::
  "(int option list, bool option list \<times> nat, int option list, bool option list) column_view" where
  "sample_column_view = \<lparr>in_int = id, in_bool = fst, room = snd, ints_of = id, bools_of = id\<rparr>"

lemma sample_compare_laws: "compare_laws sample_compare_api sample_column_view"
  unfolding compare_laws_def by (intro conjI allI impI) (auto simp: sample_compare_api_def sample_column_view_def)

theorem both_comparisons_agree_witness:
  "\<exists>a b self arrow w'. compare_columns sample_compare_api \<lparr>example_fs = [], cout = [], cerr = []\<rparr> = (Inr (a, b, self, arrow), w') \<and>
    self = arrow \<and> self = map Some [False, False, True, True, False, True, False, True]"
proof -
  let ?A = sample_compare_api
  have n: "length (ints_of sample_column_view values_a) = 8" "length (ints_of sample_column_view values_b) = 8"
    by (simp_all add: sample_column_view_def values_a_def values_b_def)
  obtain c where c: "compare_rows ?A values_a values_b [0..<8] ([], 8) = Some c"
    using compare_rows_ok [OF sample_compare_laws n, of 0 "([], 8)"] by (auto simp: sample_column_view_def)
  have f: "int_resize ?A n b = Inr b" "bool_resize ?A n bb = Inr (fst bb, n)" "append_values ?A xs b = Inr (b @ map Some xs)"
    "int_finish ?A b = Inr (b, [])" "int_reset ?A b = []" "bool_finish ?A bb = Inr (fst bb, ([], 0))"
    "call_compare ?A ''greater'' [xs', ys'] = Inr (gt_rows xs' ys')" "int64_builder ?A = []" "boolean_builder ?A = ([], 0)"
    for n b bb xs xs' ys' by (simp_all add: sample_compare_api_def)
  have "\<exists>a b self arrow w'. compare_columns ?A \<lparr>example_fs = [], cout = [], cerr = []\<rparr> = (Inr (a, b, self, arrow), w')"
    unfolding compare_columns_def f return_not_ok_def defined_def print_def
    using c by (simp add: seq_ret seq_modify values_a_def values_b_def del: compare_rows.simps upt.simps upt_rec_numeral)
  then obtain a b self arrow w' where
    r: "compare_columns sample_compare_api \<lparr>example_fs = [], cout = [], cerr = []\<rparr> = (Inr (a, b, self, arrow), w')"
    by blast
  show ?thesis
    using both_comparisons_agree [OF sample_compare_laws r] r by (auto simp: sample_column_view_def)
qed

section \<open>Compute functions on a table\<close>

text \<open>The second program: a sum, a sum by element, and the position of a value. Cells are 32-bit words.\<close>

record ('array, 'table, 'column, 'datum, 'e) sums_api =
  build_int32 :: "32 word list \<Rightarrow> 'e + 'array"
  table_of :: "(string \<times> data_type) list \<Rightarrow> 'array list \<Rightarrow> nat \<Rightarrow> 'table"
  column_by_name :: "'table \<Rightarrow> string \<Rightarrow> 'column"
  sum_of :: "'column \<Rightarrow> 'e + 'datum"
  call_add :: "'column \<Rightarrow> 'column \<Rightarrow> 'e + 'datum"
  call_index :: "32 word \<Rightarrow> 'column \<Rightarrow> 'e + 'datum"
  datum_text :: "'datum \<Rightarrow> string"
  type_text :: "'datum \<Rightarrow> string"
  scalar_value :: "'datum \<Rightarrow> int"
  chunked_text :: "'datum \<Rightarrow> string"

definition kind_line :: "('array, 'table, 'column, 'datum, 'e) sums_api \<Rightarrow> 'datum \<Rightarrow> string" where
  "kind_line A d = ''Datum kind: '' @ datum_text A d @ '' content type: '' @ type_text A d @ newline"

definition make_numbers :: "('array, 'table, 'column, 'datum, 'e) sums_api \<Rightarrow> ('fs, 'e, 'table) compute_action" where
  "make_numbers A =
     seq (return_not_ok (build_int32 A [34, 624, 2223, 5654, 4356])) (\<lambda>some_nums.
     seq (return_not_ok (build_int32 A [75342, 23, 64, 17, 736])) (\<lambda>more_nums.
     ret (table_of A [(''A'', int32), (''B'', int32)] [some_nums, more_nums] 5)))"

definition RunSums :: "('array, 'table, 'column, 'datum, 'e) sums_api \<Rightarrow> ('fs, 'e, unit) compute_action" where
  "RunSums A =
     seq (make_numbers A) (\<lambda>table.
     seq (return_not_ok (sum_of A (column_by_name A table ''A''))) (\<lambda>sum.
     seq (print (''========== task1 =========='' @ newline)) (\<lambda>_.
     seq (print (kind_line A sum)) (\<lambda>_.
     seq (print (dec_int (scalar_value A sum) @ newline)) (\<lambda>_.
     seq (return_not_ok (call_add A (column_by_name A table ''A'') (column_by_name A table ''B''))) (\<lambda>element_wise_sum.
     seq (print (''========== task2 =========='' @ newline)) (\<lambda>_.
     seq (print (kind_line A element_wise_sum)) (\<lambda>_.
     seq (print (chunked_text A element_wise_sum @ newline)) (\<lambda>_.
     seq (return_not_ok (call_index A 2223 (column_by_name A table ''A''))) (\<lambda>third_item.
     seq (print (''========== task3 =========='' @ newline)) (\<lambda>_.
     seq (print (kind_line A third_item)) (\<lambda>_.
     print (dec_int (scalar_value A third_item) @ newline)))))))))))))"

definition main_sums ::
  "('e \<Rightarrow> string) \<Rightarrow> ('array, 'table, 'column, 'datum, 'e) sums_api \<Rightarrow> 'fs example \<Rightarrow> nat option \<times> 'fs example" where
  "main_sums status_text A = main_of status_text (RunSums A)"

text \<open>
  What Arrow documents: the sum of 32-bit integers is a 64-bit one, \<open>add\<close> adds cell by cell and wraps around, and
  \<open>index\<close> is the position of the first cell with the value, or -1.
\<close>

fun first_index :: "'a \<Rightarrow> 'a list \<Rightarrow> int" where
  "first_index x [] = - 1"
| "first_index x (y # ys) = (if x = y then 0 else let i = first_index x ys in if i = - 1 then - 1 else i + 1)"

definition sums_laws ::
  "('array, 'table, 'column, 'datum, 'e) sums_api \<Rightarrow> ('array \<Rightarrow> 32 word list) \<Rightarrow> ('column \<Rightarrow> 32 word list) \<Rightarrow>
   ('datum \<Rightarrow> 32 word list) \<Rightarrow> bool" where
  "sums_laws A cells column datum_cells \<longleftrightarrow>
     (\<forall>xs a. build_int32 A xs = Inr a \<longrightarrow> cells a = xs) \<and>
     (\<forall>n t m u a b k. n \<noteq> m \<longrightarrow> column (column_by_name A (table_of A [(n, t), (m, u)] [a, b] k) n) = cells a \<and>
        column (column_by_name A (table_of A [(n, t), (m, u)] [a, b] k) m) = cells b) \<and>
     (\<forall>c d. sum_of A c = Inr d \<and> length (column c) < 2 ^ 31 \<longrightarrow> scalar_value A d = sum_list (map sint (column c))) \<and>
     (\<forall>c c' d. call_add A c c' = Inr d \<and> length (column c) = length (column c') \<longrightarrow>
        datum_cells d = map2 (+) (column c) (column c')) \<and>
     (\<forall>x c d. call_index A x c = Inr d \<longrightarrow> scalar_value A d = first_index x (column c))"

lemma seq_return_InrE:
  assumes "seq (return_not_ok r) k w = (Inr y, w')"
  obtains x where "r = Inr x" "k x w = (Inr y, w')"
  using assms by (cases r) (simp_all add: return_not_ok_def)

lemma return_ok: "seq (return_not_ok (Inr x)) k = k x"
  by (simp add: return_not_ok_def seq_ret)

lemma seq_print: "seq (print s) k w = k () (w\<lparr>cout := cout w @ s\<rparr>)"
  by (simp add: print_def seq_modify)

lemma RunSums_InrE:
  assumes "RunSums A w = (Inr (), w')"
  obtains xs ys t d1 d2 d3 where
    "build_int32 A [34, 624, 2223, 5654, 4356] = Inr xs" "build_int32 A [75342, 23, 64, 17, 736] = Inr ys"
    "t = table_of A [(''A'', int32), (''B'', int32)] [xs, ys] 5" "sum_of A (column_by_name A t ''A'') = Inr d1"
    "call_add A (column_by_name A t ''A'') (column_by_name A t ''B'') = Inr d2" "call_index A 2223 (column_by_name A t ''A'') = Inr d3"
    "cout w' = cout w @ ''========== task1 =========='' @ newline @ kind_line A d1 @ dec_int (scalar_value A d1) @ newline @
      ''========== task2 =========='' @ newline @ kind_line A d2 @ chunked_text A d2 @ newline @
      ''========== task3 =========='' @ newline @ kind_line A d3 @ dec_int (scalar_value A d3) @ newline"
proof -
  note run = assms [unfolded RunSums_def make_numbers_def seq_assoc seq_ret]
  obtain xs where xs: "build_int32 A [34, 624, 2223, 5654, 4356] = Inr xs"
    using run by (rule seq_return_InrE)
  note run1 = run [unfolded xs return_ok]
  obtain ys where ys: "build_int32 A [75342, 23, 64, 17, 736] = Inr ys"
    using run1 by (rule seq_return_InrE)
  let ?t = "table_of A [(''A'', int32), (''B'', int32)] [xs, ys] 5"
  note run2 = run1 [unfolded ys return_ok]
  obtain d1 where d1: "sum_of A (column_by_name A ?t ''A'') = Inr d1"
    using run2 by (rule seq_return_InrE)
  note run3 = run2 [unfolded d1 return_ok seq_print]
  obtain d2 where d2: "call_add A (column_by_name A ?t ''A'') (column_by_name A ?t ''B'') = Inr d2"
    using run3 by (rule seq_return_InrE)
  note run4 = run3 [unfolded d2 return_ok seq_print]
  obtain d3 where d3: "call_index A 2223 (column_by_name A ?t ''A'') = Inr d3"
    using run4 by (rule seq_return_InrE)
  note run5 = run4 [unfolded d3 return_ok seq_print print_def modify_run]
  show thesis
    by (rule that [OF xs ys refl d1 d2 d3]) (use run5 in auto)
qed

lemma sums_lawsD:
  assumes "sums_laws A cells column datum_cells"
  shows "build_int32 A xs = Inr a \<Longrightarrow> cells a = xs"
    "n \<noteq> m \<Longrightarrow> column (column_by_name A (table_of A [(n, t), (m, u)] [a, b] k) n) = cells a"
    "n \<noteq> m \<Longrightarrow> column (column_by_name A (table_of A [(n, t), (m, u)] [a, b] k) m) = cells b"
    "sum_of A c = Inr d \<Longrightarrow> length (column c) < 2 ^ 31 \<Longrightarrow> scalar_value A d = sum_list (map sint (column c))"
    "call_add A c c' = Inr d \<Longrightarrow> length (column c) = length (column c') \<Longrightarrow> datum_cells d = map2 (+) (column c) (column c')"
    "call_index A x c = Inr d \<Longrightarrow> scalar_value A d = first_index x (column c)"
  using assms by (simp_all add: sums_laws_def)

text \<open>
  A run that succeeds prints the sum 12891, a column with the five sums and the position 2.
\<close>

theorem sums_are_printed:
  assumes "sums_laws A cells column datum_cells" "RunSums A w = (Inr (), w')"
  shows "\<exists>sum added third. datum_cells added = [75376, 647, 2287, 5671, 5092] \<and>
    cout w' = cout w @ ''========== task1 =========='' @ newline @ kind_line A sum @ ''12891'' @ newline @
      ''========== task2 =========='' @ newline @ kind_line A added @ chunked_text A added @ newline @
      ''========== task3 =========='' @ newline @ kind_line A third @ ''2'' @ newline"
proof -
  note L = sums_lawsD [OF assms(1)]
  let ?c = "\<lambda>t n. column_by_name A t n"
  obtain xs ys t d1 d2 d3 where r: "build_int32 A [34, 624, 2223, 5654, 4356] = Inr xs" "build_int32 A [75342, 23, 64, 17, 736] = Inr ys"
    "t = table_of A [(''A'', int32), (''B'', int32)] [xs, ys] 5" "sum_of A (?c t ''A'') = Inr d1"
    "call_add A (?c t ''A'') (?c t ''B'') = Inr d2" "call_index A 2223 (?c t ''A'') = Inr d3"
    "cout w' = cout w @ ''========== task1 =========='' @ newline @ kind_line A d1 @ dec_int (scalar_value A d1) @ newline @
      ''========== task2 =========='' @ newline @ kind_line A d2 @ chunked_text A d2 @ newline @
      ''========== task3 =========='' @ newline @ kind_line A d3 @ dec_int (scalar_value A d3) @ newline"
    by (rule RunSums_InrE [OF assms(2)])
  have ab: "column (?c t ''A'') = [34, 624, 2223, 5654, 4356]" "column (?c t ''B'') = [75342, 23, 64, 17, 736]"
    unfolding r(3) using L(2,3) [of "''A''" "''B''"] L(1) [OF r(1)] L(1) [OF r(2)] by simp_all
  have "scalar_value A d1 = sum_list (map sint (column (?c t ''A'')))" using L(4) [OF r(4)] ab(1) by simp
  then have v1: "scalar_value A d1 = 12891" by (simp add: ab(1))
  have "datum_cells d2 = map2 (+) (column (?c t ''A'')) (column (?c t ''B''))" using L(5) [OF r(5)] ab by simp
  then have v2: "datum_cells d2 = [75376, 647, 2287, 5671, 5092]" by (simp add: ab)
  have "scalar_value A d3 = first_index 2223 (column (?c t ''A''))" using L(6) [OF r(6)] .
  then have v3: "scalar_value A d3 = 2" by (simp add: ab(1))
  have "dec_int 12891 = ''12891''" "dec_int 2 = ''2''" by (simp_all add: dec_int_def dec_nat.simps)
  then show ?thesis using r(7) v1 v2 v3 by auto
qed

text \<open>Columns as lists, and a datum as a number and a list of cells.\<close>

definition sample_sums_api ::
  "(32 word list, (string \<times> 32 word list) list, 32 word list, int \<times> 32 word list, string) sums_api" where
  "sample_sums_api = \<lparr>build_int32 = Inr, table_of = (\<lambda>schema arrays n. zip (map fst schema) arrays),
     column_by_name = (\<lambda>t n. the (map_of t n)), sum_of = (\<lambda>c. Inr (sum_list (map sint c), [])),
     call_add = (\<lambda>c c'. Inr (0, map2 (+) c c')), call_index = (\<lambda>x c. Inr (first_index x c, [])),
     datum_text = (\<lambda>d. ''Scalar''), type_text = (\<lambda>d. ''int64''), scalar_value = fst, chunked_text = (\<lambda>d. ''[...]'')\<rparr>"

lemma sample_sums_laws: "sums_laws sample_sums_api (\<lambda>a. a) (\<lambda>c. c) snd"
  unfolding sums_laws_def by (intro conjI allI impI) (auto simp: sample_sums_api_def)

theorem sums_are_printed_witness:
  "\<exists>w' sum added third. RunSums sample_sums_api \<lparr>example_fs = (), cout = [], cerr = []\<rparr> = (Inr (), w') \<and>
    snd (added :: int \<times> 32 word list) = [75376, 647, 2287, 5671, 5092] \<and>
    cout w' = ''========== task1 =========='' @ newline @ kind_line sample_sums_api sum @ ''12891'' @ newline @
      ''========== task2 =========='' @ newline @ kind_line sample_sums_api added @ ''[...]'' @ newline @
      ''========== task3 =========='' @ newline @ kind_line sample_sums_api third @ ''2'' @ newline"
proof -
  let ?A = sample_sums_api
  have f: "build_int32 ?A xs = Inr xs" "sum_of ?A c = Inr (sum_list (map sint c), [])" "call_add ?A c c' = Inr (0, map2 (+) c c')"
    "call_index ?A x c = Inr (first_index x c, [])" "chunked_text ?A d = ''[...]''" for xs c c' x d
    by (simp_all add: sample_sums_api_def)
  obtain w' where r: "RunSums ?A \<lparr>example_fs = (), cout = [], cerr = []\<rparr> = (Inr (), w')"
    unfolding RunSums_def make_numbers_def seq_assoc seq_ret f return_ok seq_print unfolding print_def modify_run by blast
  show ?thesis
    using sums_are_printed [OF sample_sums_laws r] r unfolding f by auto
qed

end
