(* ===== verification/Arrow_Files.thy ===== *)
theory Arrow_Files
  imports Arrow_Compute
begin

text \<open>
  Programs that write and read Arrow, CSV and Parquet files: \<open>arrow/01_file_io.cpp\<close>,
  \<open>arrow/03_arrow_dataset.cpp\<close> and \<open>arrow/examples/example.cpp\<close>. Arrow and the file system are parameters.
\<close>

section \<open>The calls\<close>

text \<open>\<open>status_io_error\<close> makes the status the third program returns itself.\<close>

record ('fs, 'array, 'table, 'out, 'writer, 'input, 'reader, 'batch, 'dataset, 'e) files_api =
  build_ints :: "data_type \<Rightarrow> int list \<Rightarrow> 'e + 'array"
  table_from :: "(string \<times> data_type) list \<Rightarrow> 'array list \<Rightarrow> 'table"
  slice :: "'table \<Rightarrow> nat \<Rightarrow> nat option \<Rightarrow> 'table"
  schema_of :: "'table \<Rightarrow> (string \<times> data_type) list"
  table_text :: "'table \<Rightarrow> string"
  pretty_text :: "'table \<Rightarrow> 'e + string"
  open_output :: "string \<Rightarrow> 'fs \<Rightarrow> ('e + 'out) \<times> 'fs"
  ipc_writer :: "'out \<Rightarrow> (string \<times> data_type) list \<Rightarrow> 'fs \<Rightarrow> ('e + 'writer) \<times> 'fs"
  csv_writer :: "'out \<Rightarrow> (string \<times> data_type) list \<Rightarrow> 'fs \<Rightarrow> ('e + 'writer) \<times> 'fs"
  put_table :: "'writer \<Rightarrow> 'table \<Rightarrow> 'fs \<Rightarrow> ('e + unit) \<times> 'fs"
  put_batch :: "'writer \<Rightarrow> 'batch \<Rightarrow> 'fs \<Rightarrow> ('e + unit) \<times> 'fs"
  close_file :: "'writer \<Rightarrow> 'fs \<Rightarrow> ('e + unit) \<times> 'fs"
  put_parquet :: "'table \<Rightarrow> 'out \<Rightarrow> nat \<Rightarrow> 'fs \<Rightarrow> ('e + unit) \<times> 'fs"
  open_input :: "string \<Rightarrow> 'fs \<Rightarrow> 'e + 'input"
  ipc_reader :: "'input \<Rightarrow> 'fs \<Rightarrow> 'e + 'reader"
  read_batch :: "'reader \<Rightarrow> nat \<Rightarrow> 'fs \<Rightarrow> 'e + 'batch"
  batch_schema :: "'batch \<Rightarrow> (string \<times> data_type) list"
  csv_reader :: "'input \<Rightarrow> 'fs \<Rightarrow> 'e + 'reader"
  read_csv :: "'reader \<Rightarrow> 'fs \<Rightarrow> 'e + 'table"
  make_dir :: "string \<Rightarrow> 'fs \<Rightarrow> ('e + unit) \<times> 'fs"
  getcwd :: "nat \<Rightarrow> 'fs \<Rightarrow> string option"
  file_system_at :: "string \<Rightarrow> 'e + unit"
  discover :: "selector \<Rightarrow> file_format \<Rightarrow> bool \<Rightarrow> 'fs \<Rightarrow> 'e + 'dataset"
  fragments_of :: "'dataset \<Rightarrow> 'fs \<Rightarrow> 'e + ('e + string \<times> string) list"
  scan :: "'dataset \<Rightarrow> 'fs \<Rightarrow> 'e + 'table"
  write_overwriting :: "write_options \<Rightarrow> 'table \<Rightarrow> 'fs \<Rightarrow> ('e + unit) \<times> 'fs"
  status_io_error :: "string \<Rightarrow> 'e"

definition look :: "('fs \<Rightarrow> 'e + 'x) \<Rightarrow> ('fs, 'e, 'x) compute_action" where
  "look f w = return_not_ok (f (example_fs w)) w"

definition print_err :: "string \<Rightarrow> ('fs, 'e, unit) compute_action" where
  "print_err s = modify (\<lambda>w. w\<lparr>cerr := cerr w @ s\<rparr>)"

section \<open>Writing a file and copying it\<close>

definition days :: "int list" where "days = [1, 12, 17, 23, 28]"
definition months :: "int list" where "months = [1, 3, 5, 7, 1]"
definition years :: "int list" where "years = [1990, 2000, 1995, 2000, 1995]"

definition date_schema :: "(string \<times> data_type) list" where
  "date_schema = [(''Day'', int8), (''Month'', int8), (''Year'', int16)]"

definition GenInitialFile ::
  "('fs, 'array, 'table, 'out, 'writer, 'input, 'reader, 'batch, 'dataset, 'e) files_api \<Rightarrow>
   ('fs, 'e, unit) compute_action" where
  "GenInitialFile A =
     seq (return_not_ok (build_ints A int8 days)) (\<lambda>days.
     seq (return_not_ok (build_ints A int8 months)) (\<lambda>months.
     seq (return_not_ok (build_ints A int16 years)) (\<lambda>years.
     let table = table_from A date_schema [days, months, years] in
     seq (with_files (open_output A ''test_in.arrow'')) (\<lambda>outfile.
     seq (with_files (ipc_writer A outfile date_schema)) (\<lambda>ipc_writer.
     seq (with_files (put_table A ipc_writer table)) (\<lambda>_.
     seq (with_files (close_file A ipc_writer)) (\<lambda>_.
     seq (with_files (open_output A ''test_in.csv'')) (\<lambda>outfile.
     seq (with_files (csv_writer A outfile (schema_of A table))) (\<lambda>csv_writer.
     seq (with_files (put_table A csv_writer table)) (\<lambda>_.
     with_files (close_file A csv_writer)))))))))))"

definition RunFileIO ::
  "('fs, 'array, 'table, 'out, 'writer, 'input, 'reader, 'batch, 'dataset, 'e) files_api \<Rightarrow>
   ('fs, 'e, unit) compute_action" where
  "RunFileIO A =
     seq (GenInitialFile A) (\<lambda>_.
     seq (look (open_input A ''test_in.arrow'')) (\<lambda>infile.
     seq (look (ipc_reader A infile)) (\<lambda>ipc_reader.
     seq (look (read_batch A ipc_reader 0)) (\<lambda>rbatch.
     seq (with_files (open_output A ''test_out.arrow'')) (\<lambda>outstream.
     seq (with_files (ipc_writer A outstream (batch_schema A rbatch))) (\<lambda>ipc_writer.
     seq (with_files (put_batch A ipc_writer rbatch)) (\<lambda>_.
     with_files (close_file A ipc_writer))))))))"

section \<open>From CSV to Arrow\<close>

definition RunCsvToArrow ::
  "('fs, 'array, 'table, 'out, 'writer, 'input, 'reader, 'batch, 'dataset, 'e) files_api \<Rightarrow>
   ('fs, 'e, unit) compute_action" where
  "RunCsvToArrow A =
     seq (print_err (''* Reading CSV file '' @ [CHR 0x27] @ ''test.csv'' @ [CHR 0x27] @ '' into table'' @ newline)) (\<lambda>_.
     seq (look (open_input A ''test.csv'')) (\<lambda>input_file.
     seq (look (csv_reader A input_file)) (\<lambda>csv_reader.
     seq (look (read_csv A csv_reader)) (\<lambda>table.
     seq (print_err (''* Read table:'' @ newline)) (\<lambda>_.
     seq (return_not_ok (pretty_text A table)) (\<lambda>text_of.
     seq (print_err text_of) (\<lambda>_.
     seq (print_err (''* Writing table into Arrow IPC file '' @ [CHR 0x27] @ ''test.arrow'' @ [CHR 0x27] @ newline)) (\<lambda>_.
     seq (with_files (open_output A ''test.arrow'')) (\<lambda>output_file.
     seq (with_files (ipc_writer A output_file (schema_of A table))) (\<lambda>batch_writer.
     seq (with_files (put_table A batch_writer table)) (\<lambda>_.
     with_files (close_file A batch_writer))))))))))))"

section \<open>A dataset of two files\<close>

definition CreateTable3 ::
  "('fs, 'array, 'table, 'out, 'writer, 'input, 'reader, 'batch, 'dataset, 'e) files_api \<Rightarrow>
   ('fs, 'e, 'table) compute_action" where
  "CreateTable3 A =
     seq (return_not_ok (build_ints A int64 [0, 1, 2, 3, 4, 5, 6, 7, 8, 9])) (\<lambda>array_a.
     seq (return_not_ok (build_ints A int64 [9, 8, 7, 6, 5, 4, 3, 2, 1, 0])) (\<lambda>array_b.
     seq (return_not_ok (build_ints A int64 [1, 2, 1, 2, 1, 2, 1, 2, 1, 2])) (\<lambda>array_c.
     ret (table_from A [(''a'', int64), (''b'', int64), (''c'', int64)] [array_a, array_b, array_c]))))"

definition CreateParquetFiles ::
  "('fs, 'array, 'table, 'out, 'writer, 'input, 'reader, 'batch, 'dataset, 'e) files_api \<Rightarrow> string \<Rightarrow>
   ('fs, 'e, string) compute_action" where
  "CreateParquetFiles A root_path =
     (let base_path = root_path @ ''parquet_dataset'' in
      seq (with_files (make_dir A base_path)) (\<lambda>_.
      seq (CreateTable3 A) (\<lambda>table.
      seq (with_files (open_output A (base_path @ ''/data1.parquet''))) (\<lambda>output.
      seq (with_files (put_parquet A (slice A table 0 (Some 5)) output 2048)) (\<lambda>_.
      seq (with_files (open_output A (base_path @ ''/data2.parquet''))) (\<lambda>output.
      seq (with_files (put_parquet A (slice A table 5 None) output 2048)) (\<lambda>_.
      ret base_path)))))))"

definition TableToCSV ::
  "('fs, 'array, 'table, 'out, 'writer, 'input, 'reader, 'batch, 'dataset, 'e) files_api \<Rightarrow> 'table \<Rightarrow>
   ('fs, 'e, unit) compute_action" where
  "TableToCSV A table =
     seq (with_files (open_output A ''table.csv'')) (\<lambda>outfile.
     seq (with_files (csv_writer A outfile (schema_of A table))) (\<lambda>csv_writer.
     seq (with_files (put_table A csv_writer table)) (\<lambda>_.
     with_files (close_file A csv_writer))))"

text \<open>The directory the program is in, if its name fits into 256 bytes.\<close>

definition working_dir ::
  "('fs, 'array, 'table, 'out, 'writer, 'input, 'reader, 'batch, 'dataset, 'e) files_api \<Rightarrow>
   ('fs, 'e, string) compute_action" where
  "working_dir A w =
     (case getcwd A 256 (example_fs w) of
        None \<Rightarrow> raise (Not_ok (status_io_error A ''Fetching PWD failed.'')) w
      | Some path \<Rightarrow> ret path w)"

definition PrepareEnv ::
  "('fs, 'array, 'table, 'out, 'writer, 'input, 'reader, 'batch, 'dataset, 'e) files_api \<Rightarrow>
   ('fs, 'e, unit) compute_action" where
  "PrepareEnv A =
     seq (CreateTable3 A) (\<lambda>src_table.
     seq (TableToCSV A src_table) (\<lambda>_.
     seq (working_dir A) (\<lambda>setup_path.
     seq (return_not_ok (file_system_at A setup_path)) (\<lambda>_.
     seq (CreateParquetFiles A []) (\<lambda>dset_path. ret ())))))"

fun show_fragments :: "('e + string \<times> string) list \<Rightarrow> ('fs, 'e, unit) compute_action" where
  "show_fragments [] = ret ()"
| "show_fragments (Inl e # fragments) = raise (Aborted e)"
| "show_fragments (Inr (text_of, partition_expression) # fragments) =
     seq (print (''Found fragment: '' @ text_of @ newline)) (\<lambda>_.
     seq (print (''Partition expression: '' @ partition_expression @ newline)) (\<lambda>_.
     show_fragments fragments))"

definition RunDataset ::
  "('fs, 'array, 'table, 'out, 'writer, 'input, 'reader, 'batch, 'dataset, 'e) files_api \<Rightarrow>
   ('fs, 'e, unit) compute_action" where
  "RunDataset A =
     seq (PrepareEnv A) (\<lambda>_.
     seq (working_dir A) (\<lambda>init_path.
     seq (return_not_ok (file_system_at A init_path)) (\<lambda>_.
     seq (look (discover A \<lparr>base_dir = ''parquet_dataset'', recursive = True\<rparr> ParquetFileFormat True)) (\<lambda>read_dataset.
     seq (look (fragments_of A read_dataset)) (\<lambda>fragments.
     seq (show_fragments fragments) (\<lambda>_.
     seq (look (scan A read_dataset)) (\<lambda>table.
     seq (print (table_text A table)) (\<lambda>_.
     with_files (write_overwriting A
       \<lparr>write_format = ParquetFileFormat, write_base_dir = ''write_dataset'', partition_fields = [(''a'', utf8)],
        basename_template = ''part{i}.parquet''\<rparr> table)))))))))"

section \<open>The main functions\<close>

text \<open>\<open>arrow/00_basic_data_strcuture.cpp\<close> only makes one array.\<close>

definition RunBasic ::
  "('fs, 'array, 'table, 'out, 'writer, 'input, 'reader, 'batch, 'dataset, 'e) files_api \<Rightarrow>
   ('fs, 'e, unit) compute_action" where
  "RunBasic A = seq (return_not_ok (build_ints A int8 [1, 12, 17, 23, 28])) (\<lambda>days. ret ())"

definition main_basic ::
  "('e \<Rightarrow> string) \<Rightarrow> ('fs, 'array, 'table, 'out, 'writer, 'input, 'reader, 'batch, 'dataset, 'e) files_api \<Rightarrow>
   'fs example \<Rightarrow> nat option \<times> 'fs example" where
  "main_basic status_text A = main_of status_text (RunBasic A)"

definition main_file_io ::
  "('e \<Rightarrow> string) \<Rightarrow> ('fs, 'array, 'table, 'out, 'writer, 'input, 'reader, 'batch, 'dataset, 'e) files_api \<Rightarrow>
   'fs example \<Rightarrow> nat option \<times> 'fs example" where
  "main_file_io status_text A = main_of status_text (RunFileIO A)"

definition main_csv_to_arrow ::
  "('e \<Rightarrow> string) \<Rightarrow> ('fs, 'array, 'table, 'out, 'writer, 'input, 'reader, 'batch, 'dataset, 'e) files_api \<Rightarrow>
   'fs example \<Rightarrow> nat option \<times> 'fs example" where
  "main_csv_to_arrow status_text A = main_of status_text (RunCsvToArrow A)"

definition main_dataset3 ::
  "('e \<Rightarrow> string) \<Rightarrow> ('fs, 'array, 'table, 'out, 'writer, 'input, 'reader, 'batch, 'dataset, 'e) files_api \<Rightarrow>
   'fs example \<Rightarrow> nat option \<times> 'fs example" where
  "main_dataset3 status_text A = main_of status_text (RunDataset A)"

section \<open>What Arrow promises\<close>

text \<open>
  A file as far as the laws go: one being written, with its batches so far, or a complete one. \<open>file_view\<close> says
  what tables, batches and arrays hold, which file a handle is for, and whether a writer is one of IPC files.
\<close>

datatype file_state = Writing "int list list list" | Ipc_file "int list list list" | Csv_file "int list list"
  | Parquet_file "(string \<times> data_type) list" "int list list"

record ('fs, 'array, 'table, 'out, 'writer, 'input, 'reader, 'batch) file_view =
  cells_of :: "'array \<Rightarrow> int list"
  rows_of :: "'table \<Rightarrow> int list list"
  one_chunk :: "'table \<Rightarrow> bool"
  batch_rows :: "'batch \<Rightarrow> int list list"
  out_name :: "'out \<Rightarrow> string"
  writer_name :: "'writer \<Rightarrow> bool \<times> string"
  input_name :: "'input \<Rightarrow> string"
  reader_name :: "'reader \<Rightarrow> string"
  file_at :: "'fs \<Rightarrow> string \<Rightarrow> file_state option"

definition closed_file :: "bool \<Rightarrow> int list list list \<Rightarrow> file_state" where
  "closed_file ipc bs = (if ipc then Ipc_file bs else Csv_file (concat bs))"

text \<open>Each law speaks of a call that succeeds.\<close>

definition writing_laws ::
  "('fs, 'array, 'table, 'out, 'writer, 'input, 'reader, 'batch, 'dataset, 'e) files_api \<Rightarrow>
   ('fs, 'array, 'table, 'out, 'writer, 'input, 'reader, 'batch) file_view \<Rightarrow> bool" where
  "writing_laws A V \<longleftrightarrow>
     (\<forall>ty xs a. build_ints A ty xs = Inr a \<longrightarrow> cells_of V a = xs) \<and>
     (\<forall>s as n. as \<noteq> [] \<and> (\<forall>a\<in>set as. length (cells_of V a) = n) \<longrightarrow>
        rows_of V (table_from A s as) = map (\<lambda>i. map (\<lambda>a. cells_of V a ! i) as) [0..<n] \<and> one_chunk V (table_from A s as)) \<and>
     (\<forall>f fs out fs'. open_output A f fs = (Inr out, fs') \<longrightarrow>
        out_name V out = f \<and> file_at V fs' = (file_at V fs)(f \<mapsto> Writing [])) \<and>
     (\<forall>out s fs x fs'. ipc_writer A out s fs = (Inr x, fs') \<longrightarrow>
        writer_name V x = (True, out_name V out) \<and> file_at V fs' = file_at V fs) \<and>
     (\<forall>out s fs x fs'. csv_writer A out s fs = (Inr x, fs') \<longrightarrow>
        writer_name V x = (False, out_name V out) \<and> file_at V fs' = file_at V fs) \<and>
     (\<forall>x t fs u fs' ipc f bs. put_table A x t fs = (Inr u, fs') \<and> writer_name V x = (ipc, f) \<and>
        file_at V fs f = Some (Writing bs) \<longrightarrow>
        (\<exists>bs'. concat bs' = rows_of V t \<and> (one_chunk V t \<and> rows_of V t \<noteq> [] \<longrightarrow> bs' = [rows_of V t]) \<and>
           file_at V fs' = (file_at V fs)(f \<mapsto> Writing (bs @ bs')))) \<and>
     (\<forall>x b fs u fs' ipc f bs. put_batch A x b fs = (Inr u, fs') \<and> writer_name V x = (ipc, f) \<and>
        file_at V fs f = Some (Writing bs) \<longrightarrow>
        file_at V fs' = (file_at V fs)(f \<mapsto> Writing (bs @ [batch_rows V b]))) \<and>
     (\<forall>x fs u fs' ipc f bs. close_file A x fs = (Inr u, fs') \<and> writer_name V x = (ipc, f) \<and>
        file_at V fs f = Some (Writing bs) \<longrightarrow> file_at V fs' = (file_at V fs)(f \<mapsto> closed_file ipc bs))"

definition reading_laws ::
  "('fs, 'array, 'table, 'out, 'writer, 'input, 'reader, 'batch, 'dataset, 'e) files_api \<Rightarrow>
   ('fs, 'array, 'table, 'out, 'writer, 'input, 'reader, 'batch) file_view \<Rightarrow> bool" where
  "reading_laws A V \<longleftrightarrow>
     (\<forall>f fs i. open_input A f fs = Inr i \<longrightarrow> input_name V i = f) \<and>
     (\<forall>i fs r. ipc_reader A i fs = Inr r \<or> csv_reader A i fs = Inr r \<longrightarrow> reader_name V r = input_name V i) \<and>
     (\<forall>r k fs b bs. read_batch A r k fs = Inr b \<and> file_at V fs (reader_name V r) = Some (Ipc_file bs) \<longrightarrow>
        k < length bs \<and> batch_rows V b = bs ! k) \<and>
     (\<forall>r fs t rs. read_csv A r fs = Inr t \<and> file_at V fs (reader_name V r) = Some (Csv_file rs) \<longrightarrow> rows_of V t = rs)"

lemma writing_lawsD:
  assumes "writing_laws A V"
  shows "build_ints A ty xs = Inr a \<Longrightarrow> cells_of V a = xs"
    "as \<noteq> [] \<Longrightarrow> \<forall>a\<in>set as. length (cells_of V a) = n \<Longrightarrow>
        rows_of V (table_from A s as) = map (\<lambda>i. map (\<lambda>a. cells_of V a ! i) as) [0..<n] \<and> one_chunk V (table_from A s as)"
    "open_output A f fs = (Inr out, fs') \<Longrightarrow> out_name V out = f \<and> file_at V fs' = (file_at V fs)(f \<mapsto> Writing [])"
    "ipc_writer A out s fs = (Inr x, fs') \<Longrightarrow> writer_name V x = (True, out_name V out) \<and> file_at V fs' = file_at V fs"
    "csv_writer A out s fs = (Inr x, fs') \<Longrightarrow> writer_name V x = (False, out_name V out) \<and> file_at V fs' = file_at V fs"
    "put_table A x t fs = (Inr u, fs') \<Longrightarrow> writer_name V x = (ipc, f) \<Longrightarrow> file_at V fs f = Some (Writing bs) \<Longrightarrow>
        \<exists>bs'. concat bs' = rows_of V t \<and> (one_chunk V t \<and> rows_of V t \<noteq> [] \<longrightarrow> bs' = [rows_of V t]) \<and>
           file_at V fs' = (file_at V fs)(f \<mapsto> Writing (bs @ bs'))"
    "put_batch A x b fs = (Inr u, fs') \<Longrightarrow> writer_name V x = (ipc, f) \<Longrightarrow> file_at V fs f = Some (Writing bs) \<Longrightarrow>
        file_at V fs' = (file_at V fs)(f \<mapsto> Writing (bs @ [batch_rows V b]))"
    "close_file A x fs = (Inr u, fs') \<Longrightarrow> writer_name V x = (ipc, f) \<Longrightarrow> file_at V fs f = Some (Writing bs) \<Longrightarrow>
        file_at V fs' = (file_at V fs)(f \<mapsto> closed_file ipc bs)"
  using assms unfolding writing_laws_def by meson+

lemma reading_lawsD:
  assumes "reading_laws A V"
  shows "open_input A f fs = Inr i \<Longrightarrow> input_name V i = f"
    "ipc_reader A i fs = Inr r \<Longrightarrow> reader_name V r = input_name V i"
    "csv_reader A i fs = Inr r \<Longrightarrow> reader_name V r = input_name V i"
    "read_batch A r k fs = Inr b \<Longrightarrow> file_at V fs (reader_name V r) = Some (Ipc_file bs) \<Longrightarrow> k < length bs \<and> batch_rows V b = bs ! k"
    "read_csv A r fs = Inr t \<Longrightarrow> file_at V fs (reader_name V r) = Some (Csv_file rs) \<Longrightarrow> rows_of V t = rs"
  using assms unfolding reading_laws_def by meson+

lemma with_files_InrE:
  assumes "seq (with_files f) k w = (Inr y, w')"
  obtains x fs where "f (example_fs w) = (Inr x, fs)" "k x (w\<lparr>example_fs := fs\<rparr>) = (Inr y, w')"
  using assms
  by (cases "f (example_fs w)"; cases "fst (f (example_fs w))") (auto simp: with_files_def seq_def return_not_ok_def)

lemma look_InrE:
  assumes "seq (look f) k w = (Inr y, w')"
  obtains x where "f (example_fs w) = Inr x" "k x w = (Inr y, w')"
  using assms by (cases "f (example_fs w)") (auto simp: look_def seq_def return_not_ok_def)

lemma with_files_last: "with_files f = seq (with_files f) (\<lambda>_. ret ())"
  by (rule ext) (simp add: seq_def split: prod.splits sum.splits)

lemma seq_ret_right: "seq m ret = m"
  by (rule ext) (simp add: seq_def ret_def split: prod.splits sum.splits)

text \<open>Opening a file, making a writer, writing a table and closing leaves the table's rows in the file.\<close>

lemma table_file_InrE:
  assumes L: "writing_laws A V"
    and mk: "\<And>out fs x fs'. mk out fs = (Inr x, fs') \<Longrightarrow> writer_name V x = (ipc, out_name V out) \<and> file_at V fs' = file_at V fs"
    and run: "seq (with_files (open_output A f)) (\<lambda>out. seq (with_files (mk out)) (\<lambda>x.
      seq (with_files (put_table A x t)) (\<lambda>_. seq (with_files (close_file A x)) k))) w = (Inr y, w')"
  obtains fs bs where "k () (w\<lparr>example_fs := fs\<rparr>) = (Inr y, w')" "concat bs = rows_of V t"
    "one_chunk V t \<Longrightarrow> rows_of V t \<noteq> [] \<Longrightarrow> bs = [rows_of V t]"
    "file_at V fs = (file_at V (example_fs w))(f \<mapsto> closed_file ipc bs)"
proof -
  note L = writing_lawsD [OF L]
  obtain out fs1 where 1: "open_output A f (example_fs w) = (Inr out, fs1)"
      "seq (with_files (mk out)) (\<lambda>x. seq (with_files (put_table A x t)) (\<lambda>_. seq (with_files (close_file A x)) k))
         (w\<lparr>example_fs := fs1\<rparr>) = (Inr y, w')"
    using run by (rule with_files_InrE)
  obtain x fs2 where 2: "mk out fs1 = (Inr x, fs2)"
      "seq (with_files (put_table A x t)) (\<lambda>_. seq (with_files (close_file A x)) k) (w\<lparr>example_fs := fs2\<rparr>) = (Inr y, w')"
    using 1(2) by (rule with_files_InrE) simp
  obtain u fs3 where 3: "put_table A x t fs2 = (Inr u, fs3)"
      "seq (with_files (close_file A x)) k (w\<lparr>example_fs := fs3\<rparr>) = (Inr y, w')"
    using 2(2) by (rule with_files_InrE) simp
  obtain fs4 where 4: "close_file A x fs3 = (Inr (), fs4)" "k () (w\<lparr>example_fs := fs4\<rparr>) = (Inr y, w')"
    using 3(2) by (rule with_files_InrE) simp
  have v2: "file_at V fs2 = (file_at V (example_fs w))(f \<mapsto> Writing [])" "writer_name V x = (ipc, f)"
    using L(3) [OF 1(1)] mk [OF 2(1)] by simp_all
  obtain bs where bs: "concat bs = rows_of V t" "one_chunk V t \<and> rows_of V t \<noteq> [] \<longrightarrow> bs = [rows_of V t]"
      "file_at V fs3 = (file_at V fs2)(f \<mapsto> Writing ([] @ bs))"
    using L(6) [OF 3(1) v2(2), of "[]"] v2(1) by auto
  have "file_at V fs4 = (file_at V fs3)(f \<mapsto> closed_file ipc bs)" using L(8) [OF 4(1) v2(2), of bs] bs(3) by simp
  then show thesis using that [OF 4(2) bs(1)] bs(2,3) v2(1) by simp
qed

section \<open>The copy is equal\<close>

definition date_rows :: "int list list" where
  "date_rows = map (\<lambda>i. [days ! i, months ! i, years ! i]) [0..<5]"

lemma GenInitialFile_files:
  fixes A :: "('fs, 'array, 'table, 'out, 'writer, 'input, 'reader, 'batch, 'dataset, 'e) files_api"
  assumes L: "writing_laws A V" and run: "GenInitialFile A w = (Inr u, w')"
  shows "file_at V (example_fs w') =
    (file_at V (example_fs w))(''test_in.arrow'' \<mapsto> Ipc_file [date_rows], ''test_in.csv'' \<mapsto> Csv_file date_rows)"
proof -
  obtain a where a: "build_ints A int8 days = Inr a" using run unfolding GenInitialFile_def by (rule seq_return_InrE)
  obtain b where b: "build_ints A int8 months = Inr b"
    using run unfolding GenInitialFile_def a return_ok by (rule seq_return_InrE)
  obtain c where c: "build_ints A int16 years = Inr c"
    using run unfolding GenInitialFile_def a b return_ok by (rule seq_return_InrE)
  let ?t = "table_from A date_schema [a, b, c]"
  have t: "rows_of V ?t = date_rows" "one_chunk V ?t"
    using writing_lawsD(2) [OF L, of "[a, b, c]" 5 date_schema]
    by (simp_all add: writing_lawsD(1) [OF L a] writing_lawsD(1) [OF L b] writing_lawsD(1) [OF L c] days_def months_def
        years_def date_rows_def)
  have ne: "rows_of V ?t \<noteq> []" by (simp add: t date_rows_def)
  have run1: "seq (with_files (open_output A ''test_in.arrow'')) (\<lambda>outfile.
     seq (with_files (ipc_writer A outfile date_schema)) (\<lambda>x.
     seq (with_files (put_table A x ?t)) (\<lambda>_.
     seq (with_files (close_file A x)) (\<lambda>_.
     seq (with_files (open_output A ''test_in.csv'')) (\<lambda>outfile.
     seq (with_files (csv_writer A outfile (schema_of A ?t))) (\<lambda>x.
     seq (with_files (put_table A x ?t)) (\<lambda>_.
     seq (with_files (close_file A x)) (\<lambda>_. ret ())))))))) w = (Inr u, w')"
    using run unfolding GenInitialFile_def a b c return_ok Let_def by (simp only: with_files_last [symmetric])
  obtain fs bs where 1: "seq (with_files (open_output A ''test_in.csv'')) (\<lambda>outfile.
     seq (with_files (csv_writer A outfile (schema_of A ?t))) (\<lambda>x.
     seq (with_files (put_table A x ?t)) (\<lambda>_.
     seq (with_files (close_file A x)) (\<lambda>_. ret ())))) (w\<lparr>example_fs := fs\<rparr>) = (Inr u, w')"
     "one_chunk V ?t \<Longrightarrow> rows_of V ?t \<noteq> [] \<Longrightarrow> bs = [rows_of V ?t]"
     "file_at V fs = (file_at V (example_fs w))(''test_in.arrow'' \<mapsto> closed_file True bs)"
    by (rule table_file_InrE [OF L _ run1, of True]) (use writing_lawsD(4) [OF L] in auto)
  obtain fs2 bs2 where 2: "(ret () :: ('fs, 'e, unit) compute_action) (w\<lparr>example_fs := fs, example_fs := fs2\<rparr>) = (Inr u, w')"
     "concat bs2 = rows_of V ?t"
     "file_at V fs2 = (file_at V fs)(''test_in.csv'' \<mapsto> closed_file False bs2)"
    by (rule table_file_InrE [OF L _ 1(1), of False]) (use writing_lawsD(5) [OF L] in auto)
  show ?thesis using 1(2) [OF t(2) ne] 1(3) 2 t(1) by (auto simp: closed_file_def)
qed

text \<open>
  A run that succeeds has written the five dates to the Arrow and the CSV file, and the copy of the Arrow
  file holds the same batch; no other file is touched.
\<close>

theorem copied_file_is_equal:
  assumes L: "writing_laws A V" "reading_laws A V" and run: "RunFileIO A w = (Inr (), w')"
  shows "file_at V (example_fs w') = (file_at V (example_fs w))(''test_in.arrow'' \<mapsto> Ipc_file [date_rows],
    ''test_in.csv'' \<mapsto> Csv_file date_rows, ''test_out.arrow'' \<mapsto> Ipc_file [date_rows])"
proof -
  note W = writing_lawsD [OF L(1)] and R = reading_lawsD [OF L(2)]
  obtain w1 where g: "GenInitialFile A w = (Inr (), w1)" and run1: "seq (look (open_input A ''test_in.arrow'')) (\<lambda>infile.
     seq (look (ipc_reader A infile)) (\<lambda>ipc_reader.
     seq (look (read_batch A ipc_reader 0)) (\<lambda>rbatch.
     seq (with_files (open_output A ''test_out.arrow'')) (\<lambda>outstream.
     seq (with_files (ipc_writer A outstream (batch_schema A rbatch))) (\<lambda>ipc_writer.
     seq (with_files (put_batch A ipc_writer rbatch)) (\<lambda>_.
     seq (with_files (close_file A ipc_writer)) (\<lambda>_. ret ()))))))) w1 = (Inr (), w')"
    using run unfolding RunFileIO_def by (rule seq_InrE) (simp add: seq_ret_right)
  note v1 = GenInitialFile_files [OF L(1) g]
  obtain i where i: "open_input A ''test_in.arrow'' (example_fs w1) = Inr i"
    and run2: "seq (look (ipc_reader A i)) (\<lambda>ipc_reader.
     seq (look (read_batch A ipc_reader 0)) (\<lambda>rbatch.
     seq (with_files (open_output A ''test_out.arrow'')) (\<lambda>outstream.
     seq (with_files (ipc_writer A outstream (batch_schema A rbatch))) (\<lambda>ipc_writer.
     seq (with_files (put_batch A ipc_writer rbatch)) (\<lambda>_.
     seq (with_files (close_file A ipc_writer)) (\<lambda>_. ret ())))))) w1 = (Inr (), w')"
    using run1 by (rule look_InrE)
  obtain r where r: "ipc_reader A i (example_fs w1) = Inr r"
    and run3: "seq (look (read_batch A r 0)) (\<lambda>rbatch.
     seq (with_files (open_output A ''test_out.arrow'')) (\<lambda>outstream.
     seq (with_files (ipc_writer A outstream (batch_schema A rbatch))) (\<lambda>ipc_writer.
     seq (with_files (put_batch A ipc_writer rbatch)) (\<lambda>_.
     seq (with_files (close_file A ipc_writer)) (\<lambda>_. ret ()))))) w1 = (Inr (), w')"
    using run2 by (rule look_InrE)
  obtain b where b: "read_batch A r 0 (example_fs w1) = Inr b"
    and run4: "seq (with_files (open_output A ''test_out.arrow'')) (\<lambda>outstream.
     seq (with_files (ipc_writer A outstream (batch_schema A b))) (\<lambda>ipc_writer.
     seq (with_files (put_batch A ipc_writer b)) (\<lambda>_.
     seq (with_files (close_file A ipc_writer)) (\<lambda>_. ret ())))) w1 = (Inr (), w')"
    using run3 by (rule look_InrE)
  have "file_at V (example_fs w1) (reader_name V r) = Some (Ipc_file [date_rows])"
    using v1 R(1) [OF i] R(2) [OF r] by simp
  then have rows: "batch_rows V b = date_rows" using R(4) [OF b] by simp
  obtain out fs1 where 1: "open_output A ''test_out.arrow'' (example_fs w1) = (Inr out, fs1)"
      "seq (with_files (ipc_writer A out (batch_schema A b))) (\<lambda>ipc_writer. seq (with_files (put_batch A ipc_writer b)) (\<lambda>_.
     seq (with_files (close_file A ipc_writer)) (\<lambda>_. ret ()))) (w1\<lparr>example_fs := fs1\<rparr>) = (Inr (), w')"
    using run4 by (rule with_files_InrE)
  obtain x fs2 where 2: "ipc_writer A out (batch_schema A b) fs1 = (Inr x, fs2)"
      "seq (with_files (put_batch A x b)) (\<lambda>_. seq (with_files (close_file A x)) (\<lambda>_. ret ())) (w1\<lparr>example_fs := fs2\<rparr>) = (Inr (), w')"
    using 1(2) by (rule with_files_InrE) simp
  obtain u fs3 where 3: "put_batch A x b fs2 = (Inr u, fs3)"
      "seq (with_files (close_file A x)) (\<lambda>_. ret ()) (w1\<lparr>example_fs := fs3\<rparr>) = (Inr (), w')"
    using 2(2) by (rule with_files_InrE) simp
  obtain u' fs4 where 4: "close_file A x fs3 = (Inr u', fs4)" "w' = w1\<lparr>example_fs := fs4\<rparr>"
    using 3(2) by (rule with_files_InrE) simp
  have v2: "file_at V fs2 = (file_at V (example_fs w1))(''test_out.arrow'' \<mapsto> Writing [])" "writer_name V x = (True, ''test_out.arrow'')"
    using W(3) [OF 1(1)] W(4) [OF 2(1)] by simp_all
  have v3: "file_at V fs3 = (file_at V (example_fs w1))(''test_out.arrow'' \<mapsto> Writing [date_rows])"
    using W(7) [OF 3(1) v2(2), of "[]"] v2(1) rows by simp
  have "file_at V fs4 = (file_at V (example_fs w1))(''test_out.arrow'' \<mapsto> Ipc_file [date_rows])"
    using W(8) [OF 4(1) v2(2), of "[date_rows]"] v3 by (simp add: closed_file_def)
  then show ?thesis using v1 4(2) by simp
qed

section \<open>The rows of the CSV file\<close>

lemma seq_print_err: "seq (print_err s) k w = k () (w\<lparr>cerr := cerr w @ s\<rparr>)"
  by (simp add: print_err_def seq_modify)

text \<open>A run that succeeds leaves in the Arrow file the rows of the CSV file, in order, and touches no other file.\<close>

theorem csv_rows_are_kept:
  fixes A :: "('fs, 'array, 'table, 'out, 'writer, 'input, 'reader, 'batch, 'dataset, 'e) files_api"
  assumes L: "writing_laws A V" "reading_laws A V"
    and csv: "file_at V (example_fs w) ''test.csv'' = Some (Csv_file rs)" and run: "RunCsvToArrow A w = (Inr (), w')"
  shows "\<exists>bs. concat bs = rs \<and> file_at V (example_fs w') = (file_at V (example_fs w))(''test.arrow'' \<mapsto> Ipc_file bs)"
proof -
  note R = reading_lawsD [OF L(2)]
  let ?save = "\<lambda>table. seq (with_files (open_output A ''test.arrow'')) (\<lambda>output_file.
     seq (with_files (ipc_writer A output_file (schema_of A table))) (\<lambda>batch_writer.
     seq (with_files (put_table A batch_writer table)) (\<lambda>_.
     seq (with_files (close_file A batch_writer)) (\<lambda>_. ret ()))))"
  obtain i r table w1 where i: "open_input A ''test.csv'' (example_fs w) = Inr i"
    and r: "csv_reader A i (example_fs w) = Inr r" and t: "read_csv A r (example_fs w) = Inr table"
    and save: "?save table w1 = (Inr (), w')" "example_fs w1 = example_fs w"
  proof -
    obtain i where i: "open_input A ''test.csv'' (example_fs w) = Inr i"
      and run1: "seq (look (csv_reader A i)) (\<lambda>csv_reader. seq (look (read_csv A csv_reader)) (\<lambda>table.
     seq (print_err (''* Read table:'' @ newline)) (\<lambda>_.
     seq (return_not_ok (pretty_text A table)) (\<lambda>text_of.
     seq (print_err text_of) (\<lambda>_.
     seq (print_err (''* Writing table into Arrow IPC file '' @ [CHR 0x27] @ ''test.arrow'' @ [CHR 0x27] @ newline)) (\<lambda>_.
     ?save table)))))) (w\<lparr>cerr := cerr w @ ''* Reading CSV file '' @ [CHR 0x27] @ ''test.csv'' @ [CHR 0x27] @ '' into table'' @ newline\<rparr>) = (Inr (), w')"
      using run unfolding RunCsvToArrow_def seq_print_err by (rule look_InrE) (simp add: seq_ret_right)
    obtain r where r: "csv_reader A i (example_fs w) = Inr r"
      and run2: "seq (look (read_csv A r)) (\<lambda>table.
     seq (print_err (''* Read table:'' @ newline)) (\<lambda>_.
     seq (return_not_ok (pretty_text A table)) (\<lambda>text_of.
     seq (print_err text_of) (\<lambda>_.
     seq (print_err (''* Writing table into Arrow IPC file '' @ [CHR 0x27] @ ''test.arrow'' @ [CHR 0x27] @ newline)) (\<lambda>_.
     ?save table))))) (w\<lparr>cerr := cerr w @ ''* Reading CSV file '' @ [CHR 0x27] @ ''test.csv'' @ [CHR 0x27] @ '' into table'' @ newline\<rparr>) = (Inr (), w')"
      using run1 by (rule look_InrE) simp
    obtain table where t: "read_csv A r (example_fs w) = Inr table"
      and run3: "seq (print_err (''* Read table:'' @ newline)) (\<lambda>_.
     seq (return_not_ok (pretty_text A table)) (\<lambda>text_of.
     seq (print_err text_of) (\<lambda>_.
     seq (print_err (''* Writing table into Arrow IPC file '' @ [CHR 0x27] @ ''test.arrow'' @ [CHR 0x27] @ newline)) (\<lambda>_.
     ?save table)))) (w\<lparr>cerr := cerr w @ ''* Reading CSV file '' @ [CHR 0x27] @ ''test.csv'' @ [CHR 0x27] @ '' into table'' @ newline\<rparr>) = (Inr (), w')"
      using run2 by (rule look_InrE) simp
    obtain text_of where "pretty_text A table = Inr text_of"
      and "seq (print_err text_of) (\<lambda>_.
     seq (print_err (''* Writing table into Arrow IPC file '' @ [CHR 0x27] @ ''test.arrow'' @ [CHR 0x27] @ newline)) (\<lambda>_.
     ?save table)) (w\<lparr>cerr := cerr w @ ''* Reading CSV file '' @ [CHR 0x27] @ ''test.csv'' @ [CHR 0x27] @ '' into table'' @ newline
       @ ''* Read table:'' @ newline\<rparr>) = (Inr (), w')"
      using run3 unfolding seq_print_err by (rule seq_return_InrE) simp
    then show thesis using that [OF i r t] unfolding seq_print_err by simp
  qed
  have rows: "rows_of V table = rs"
    using R(5) [OF t] R(1) [OF i] R(3) [OF r] csv by simp
  obtain fs bs where "(ret () :: ('fs, 'e, unit) compute_action) (w1\<lparr>example_fs := fs\<rparr>) = (Inr (), w')" "concat bs = rows_of V table"
     "file_at V fs = (file_at V (example_fs w1))(''test.arrow'' \<mapsto> closed_file True bs)"
    by (rule table_file_InrE [OF L(1) _ save(1), of True]) (use writing_lawsD(4) [OF L(1)] in auto)
  then show ?thesis using rows save(2) by (auto simp: closed_file_def)
qed

section \<open>The dataset\<close>

text \<open>
  The laws the dataset program needs besides: slices, Parquet files, directories, and a scan, which
  returns the rows of the files of the directory, if all are Parquet files of one schema, none is in a directory of its
  own and no name has a prefix that is ignored.
\<close>

definition parquet_laws ::
  "('fs, 'array, 'table, 'out, 'writer, 'input, 'reader, 'batch, 'dataset, 'e) files_api \<Rightarrow>
   ('fs, 'array, 'table, 'out, 'writer, 'input, 'reader, 'batch) file_view \<Rightarrow> bool" where
  "parquet_laws A V \<longleftrightarrow>
     (\<forall>t off n. rows_of V (slice A t off (Some n)) = take n (drop off (rows_of V t))) \<and>
     (\<forall>t off. rows_of V (slice A t off None) = drop off (rows_of V t)) \<and>
     (\<forall>t off len. schema_of A (slice A t off len) = schema_of A t) \<and>
     (\<forall>t out n fs u fs'. put_parquet A t out n fs = (Inr u, fs') \<longrightarrow>
        file_at V fs' = (file_at V fs)(out_name V out \<mapsto> Parquet_file (schema_of A t) (rows_of V t))) \<and>
     (\<forall>d fs u fs'. make_dir A d fs = (Inr u, fs') \<longrightarrow> file_at V fs' = file_at V fs) \<and>
     (\<forall>dir part fs d t ns schema contents. discover A \<lparr>base_dir = dir, recursive = True\<rparr> ParquetFileFormat part fs = Inr d \<and>
        scan A d fs = Inr t \<and> distinct ns \<and> {f \<in> dom (file_at V fs). prefix (dir @ ''/'') f} = set (map (\<lambda>n. dir @ ''/'' @ n) ns) \<and>
        (\<forall>n\<in>set ns. CHR ''/'' \<notin> set n \<and> dataset_file n \<and>
           file_at V fs (dir @ ''/'' @ n) = Some (Parquet_file schema (contents n))) \<longrightarrow>
        mset (rows_of V t) = mset (concat (map contents ns)))"

lemma parquet_lawsD:
  assumes "parquet_laws A V"
  shows "rows_of V (slice A t off (Some n)) = take n (drop off (rows_of V t))"
    "rows_of V (slice A t off None) = drop off (rows_of V t)"
    "put_parquet A t out n fs = (Inr u, fs') \<Longrightarrow> file_at V fs' = (file_at V fs)(out_name V out \<mapsto> Parquet_file (schema_of A t) (rows_of V t))"
    "make_dir A d fs = (Inr u, fs') \<Longrightarrow> file_at V fs' = file_at V fs"
    "discover A \<lparr>base_dir = dir, recursive = True\<rparr> ParquetFileFormat part fs = Inr ds \<Longrightarrow> scan A ds fs = Inr t \<Longrightarrow>
       distinct ns \<Longrightarrow> {f \<in> dom (file_at V fs). prefix (dir @ ''/'') f} = set (map (\<lambda>n. dir @ ''/'' @ n) ns) \<Longrightarrow>
       \<forall>n\<in>set ns. CHR ''/'' \<notin> set n \<and> dataset_file n \<and> file_at V fs (dir @ ''/'' @ n) = Some (Parquet_file schema (contents n)) \<Longrightarrow>
       mset (rows_of V t) = mset (concat (map contents ns))"
    "schema_of A (slice A t off len) = schema_of A t"
  using assms unfolding parquet_laws_def by meson+

lemma CreateTable3_InrE:
  assumes L: "writing_laws A V" and run: "seq (CreateTable3 A) k w = (Inr y, w')"
  obtains t where "CreateTable3 A = ret t" "k t w = (Inr y, w')" "rows_of V t = example_rows" "one_chunk V t"
proof -
  note run = run [unfolded CreateTable3_def seq_assoc seq_ret]
  obtain a where a: "build_ints A int64 [0, 1, 2, 3, 4, 5, 6, 7, 8, 9] = Inr a" using run by (rule seq_return_InrE)
  note run1 = run [unfolded a return_ok]
  obtain b where b: "build_ints A int64 [9, 8, 7, 6, 5, 4, 3, 2, 1, 0] = Inr b" using run1 by (rule seq_return_InrE)
  note run2 = run1 [unfolded b return_ok]
  obtain c where c: "build_ints A int64 [1, 2, 1, 2, 1, 2, 1, 2, 1, 2] = Inr c" using run2 by (rule seq_return_InrE)
  note run3 = run2 [unfolded c return_ok]
  let ?t = "table_from A [(''a'', int64), (''b'', int64), (''c'', int64)] [a, b, c]"
  have cells: "cells_of V a = [0, 1, 2, 3, 4, 5, 6, 7, 8, 9]" "cells_of V b = [9, 8, 7, 6, 5, 4, 3, 2, 1, 0]"
      "cells_of V c = [1, 2, 1, 2, 1, 2, 1, 2, 1, 2]"
    using writing_lawsD(1) [OF L] a b c by blast+
  have "rows_of V ?t = example_rows" "one_chunk V ?t"
    using writing_lawsD(2) [OF L, of "[a, b, c]" 10] cells by (simp_all add: example_rows_def column_a_def column_b_def column_c_def)
  moreover have "CreateTable3 A = ret ?t" unfolding CreateTable3_def a b c return_ok ..
  ultimately show thesis using that run3 by blast
qed

lemma TableToCSV_InrE:
  fixes A :: "('fs, 'array, 'table, 'out, 'writer, 'input, 'reader, 'batch, 'dataset, 'e) files_api"
  assumes L: "writing_laws A V" and run: "seq (TableToCSV A t) k w = (Inr y, w')"
  obtains fs where "k () (w\<lparr>example_fs := fs\<rparr>) = (Inr y, w')" "TableToCSV A t w = (Inr (), w\<lparr>example_fs := fs\<rparr>)"
    "file_at V fs = (file_at V (example_fs w))(''table.csv'' \<mapsto> Csv_file (rows_of V t))"
proof -
  obtain w1 where w1: "TableToCSV A t w = (Inr (), w1)" "k () w1 = (Inr y, w')"
    using run by (rule seq_InrE) simp
  have r: "seq (with_files (open_output A ''table.csv'')) (\<lambda>outfile.
     seq (with_files (csv_writer A outfile (schema_of A t))) (\<lambda>csv_writer.
     seq (with_files (put_table A csv_writer t)) (\<lambda>_.
     seq (with_files (close_file A csv_writer)) (\<lambda>_. ret ())))) w = (Inr (), w1)"
    using w1(1) by (simp add: TableToCSV_def seq_ret_right)
  obtain fs bs where "(ret () :: ('fs, 'e, unit) compute_action) (w\<lparr>example_fs := fs\<rparr>) = (Inr (), w1)" "concat bs = rows_of V t"
     "file_at V fs = (file_at V (example_fs w))(''table.csv'' \<mapsto> closed_file False bs)"
    by (rule table_file_InrE [OF L _ r, of False]) (use writing_lawsD(5) [OF L] in auto)
  then show thesis using that w1 by (auto simp: closed_file_def)
qed

lemma working_dir_InrE:
  assumes "seq (working_dir A) k w = (Inr y, w')"
  obtains path where "k path w = (Inr y, w')"
  using assms by (auto simp: seq_def working_dir_def split: option.splits)

text \<open>
  In a directory whose name does not fit into 256 bytes the program fails with its own error, but has
  already written the CSV file.
\<close>

theorem long_directory_name_fails_late:
  assumes L: "writing_laws A V" and cwd: "\<forall>fs. getcwd A 256 fs = None"
    and csv: "seq (CreateTable3 A) (TableToCSV A) w = (Inr (), w1)"
  shows "main_dataset3 status_text A w =
      (Some 1, w1\<lparr>cerr := cerr w1 @ status_text (status_io_error A ''Fetching PWD failed.'') @ newline\<rparr>) \<and>
    file_at V (example_fs w1) = (file_at V (example_fs w))(''table.csv'' \<mapsto> Csv_file example_rows)"
proof -
  obtain t where t: "CreateTable3 A = ret t" "TableToCSV A t w = (Inr (), w1)" "rows_of V t = example_rows"
    by (rule CreateTable3_InrE [OF L csv])
  have "seq (TableToCSV A t) ret w = (Inr (), w1)" using t(2) by (simp add: seq_ret_right)
  then obtain fs where "TableToCSV A t w = (Inr (), w\<lparr>example_fs := fs\<rparr>)"
      "file_at V fs = (file_at V (example_fs w))(''table.csv'' \<mapsto> Csv_file (rows_of V t))"
    by (rule TableToCSV_InrE [OF L])
  moreover have "RunDataset A w = (Inl (Not_ok (status_io_error A ''Fetching PWD failed.'')), w1)"
    using t(2) cwd by (simp add: RunDataset_def PrepareEnv_def t(1) seq_ret working_dir_def)
  ultimately show ?thesis using t by (simp add: main_dataset3_def main_of_def)
qed

definition file1 :: string where "file1 = ''parquet_dataset/data1.parquet''"
definition file2 :: string where "file2 = ''parquet_dataset/data2.parquet''"

lemma CreateParquetFiles_InrE:
  assumes L: "writing_laws A V" "parquet_laws A V" and run: "seq (CreateParquetFiles A []) k w = (Inr y, w')"
  obtains fs schema where "k ''parquet_dataset'' (w\<lparr>example_fs := fs\<rparr>) = (Inr y, w')"
    "file_at V fs = (file_at V (example_fs w))(file1 \<mapsto> Parquet_file schema (take 5 example_rows), file2 \<mapsto> Parquet_file schema (drop 5 example_rows))"
proof -
  note W = writing_lawsD [OF L(1)] and P = parquet_lawsD [OF L(2)]
  let ?two = "\<lambda>t. seq (with_files (open_output A file2)) (\<lambda>output.
     seq (with_files (put_parquet A (slice A t 5 None) output 2048)) (\<lambda>_. k ''parquet_dataset''))"
  let ?one = "\<lambda>t. seq (with_files (open_output A file1)) (\<lambda>output.
     seq (with_files (put_parquet A (slice A t 0 (Some 5)) output 2048)) (\<lambda>_. ?two t))"
  have run': "seq (with_files (make_dir A ''parquet_dataset'')) (\<lambda>_. seq (CreateTable3 A) ?one) w = (Inr y, w')"
    using run by (simp add: CreateParquetFiles_def Let_def seq_assoc seq_ret file1_def file2_def)
  obtain u fs1 where 1: "make_dir A ''parquet_dataset'' (example_fs w) = (Inr u, fs1)"
      "seq (CreateTable3 A) ?one (w\<lparr>example_fs := fs1\<rparr>) = (Inr y, w')"
    using run' by (rule with_files_InrE)
  obtain t where t: "?one t (w\<lparr>example_fs := fs1\<rparr>) = (Inr y, w')" "rows_of V t = example_rows"
    by (rule CreateTable3_InrE [OF L(1) 1(2)])
  obtain o1 fs2 where 2: "open_output A file1 fs1 = (Inr o1, fs2)"
      "seq (with_files (put_parquet A (slice A t 0 (Some 5)) o1 2048)) (\<lambda>_. ?two t) (w\<lparr>example_fs := fs2\<rparr>) = (Inr y, w')"
    using t(1) by (rule with_files_InrE) simp
  obtain u3 fs3 where 3: "put_parquet A (slice A t 0 (Some 5)) o1 2048 fs2 = (Inr u3, fs3)"
      "?two t (w\<lparr>example_fs := fs3\<rparr>) = (Inr y, w')"
    using 2(2) by (rule with_files_InrE) simp
  obtain o2 fs4 where 4: "open_output A file2 fs3 = (Inr o2, fs4)"
      "seq (with_files (put_parquet A (slice A t 5 None) o2 2048)) (\<lambda>_. k ''parquet_dataset'') (w\<lparr>example_fs := fs4\<rparr>) = (Inr y, w')"
    using 3(2) by (rule with_files_InrE) simp
  obtain u5 fs5 where 5: "put_parquet A (slice A t 5 None) o2 2048 fs4 = (Inr u5, fs5)"
      "k ''parquet_dataset'' (w\<lparr>example_fs := fs5\<rparr>) = (Inr y, w')"
    using 4(2) by (rule with_files_InrE) simp
  have "file_at V fs5 = (file_at V (example_fs w))(file1 \<mapsto> Parquet_file (schema_of A t) (take 5 example_rows),
      file2 \<mapsto> Parquet_file (schema_of A t) (drop 5 example_rows))"
    using P(4) [OF 1(1)] W(3) [OF 2(1)] P(3) [OF 3(1)] W(3) [OF 4(1)] P(3) [OF 5(1)] P(1,2,6) t(2) by simp
  then show thesis using that 5(2) by blast
qed

lemma show_fragments_InrE:
  assumes "seq (show_fragments fragments) k w = (Inr y, w')"
  obtains out where "k () (w\<lparr>cout := cout w @ out\<rparr>) = (Inr y, w')"
  using assms
proof (induction fragments arbitrary: w thesis)
  case Nil
  then show ?case using Nil.prems(1) [of "[]"] by (simp add: seq_ret)
next
  case (Cons fr fragments)
  show ?case
  proof (cases fr)
    case (Inl e)
    then show ?thesis using Cons.prems by (simp add: seq_raise)
  next
    case (Inr p)
    obtain text_of part_expr where p: "p = (text_of, part_expr)" by (cases p)
    let ?l = "''Found fragment: '' @ text_of @ newline @ ''Partition expression: '' @ part_expr @ newline"
    have "seq (show_fragments fragments) k (w\<lparr>cout := cout w @ ?l\<rparr>) = (Inr y, w')"
      using Cons.prems(2) unfolding Inr p show_fragments.simps seq_assoc unfolding seq_print by simp
    from Cons.IH [OF _ this] show ?thesis using Cons.prems(1) by fastforce
  qed
qed

text \<open>What is prepared: the CSV file and the two Parquet files.\<close>

lemma PrepareEnv_InrE:
  assumes L: "writing_laws A V" "parquet_laws A V" and run: "seq (PrepareEnv A) k w = (Inr y, w')"
  obtains fs schema where "k () (w\<lparr>example_fs := fs\<rparr>) = (Inr y, w')"
    "file_at V fs = (file_at V (example_fs w))(''table.csv'' \<mapsto> Csv_file example_rows,
       file1 \<mapsto> Parquet_file schema (take 5 example_rows), file2 \<mapsto> Parquet_file schema (drop 5 example_rows))"
proof -
  let ?rest = "seq (working_dir A) (\<lambda>setup_path. seq (return_not_ok (file_system_at A setup_path)) (\<lambda>_.
     seq (CreateParquetFiles A []) (\<lambda>dset_path. k ())))"
  have run0: "seq (CreateTable3 A) (\<lambda>src_table. seq (TableToCSV A src_table) (\<lambda>_. ?rest)) w = (Inr y, w')"
    using run by (simp add: PrepareEnv_def seq_assoc seq_ret)
  obtain t where t: "seq (TableToCSV A t) (\<lambda>_. ?rest) w = (Inr y, w')" "rows_of V t = example_rows"
    by (rule CreateTable3_InrE [OF L(1) run0])
  obtain fs1 where 1: "?rest (w\<lparr>example_fs := fs1\<rparr>) = (Inr y, w')"
    "file_at V fs1 = (file_at V (example_fs w))(''table.csv'' \<mapsto> Csv_file (rows_of V t))"
    by (rule TableToCSV_InrE [OF L(1) t(1)])
  have 2: "seq (CreateParquetFiles A []) (\<lambda>dset_path. k ()) (w\<lparr>example_fs := fs1\<rparr>) = (Inr y, w')"
    using 1(1) by (rule working_dir_InrE) (auto elim: seq_return_InrE)
  show thesis using CreateParquetFiles_InrE [OF L 2] that 1(2) t(2) by auto
qed

lemma only_own_files:
  assumes fs: "file_at V fs = (file_at V fs0)(''table.csv'' \<mapsto> c, file1 \<mapsto> p, file2 \<mapsto> q)"
    and others: "\<forall>f\<in>dom (file_at V fs0). prefix ''parquet_dataset/'' f \<longrightarrow> f = file1 \<or> f = file2"
  shows "{f \<in> dom (file_at V fs). prefix (''parquet_dataset'' @ ''/'') f} =
      set (map (\<lambda>n. ''parquet_dataset'' @ ''/'' @ n) [''data1.parquet'', ''data2.parquet''])"
proof -
  define P where "P = prefix ''parquet_dataset/''"
  have P: "P file1" "P file2" "\<not> P ''table.csv''" by (simp_all add: P_def file1_def file2_def)
  have dom: "dom (file_at V fs) = insert file2 (insert file1 (insert ''table.csv'' (dom (file_at V fs0))))" by (simp add: fs)
  have D: "f = file1 \<or> f = file2" if "f \<in> dom (file_at V fs0)" "P f" for f
    using others that unfolding P_def by blast
  have "{f \<in> dom (file_at V fs). P f} = {file1, file2}" unfolding dom using P D by blast
  moreover have "set (map (\<lambda>n. ''parquet_dataset'' @ ''/'' @ n) [''data1.parquet'', ''data2.parquet'']) = {file1, file2}"
    by (simp add: file1_def file2_def)
  moreover have "prefix (''parquet_dataset'' @ ''/'') = P" by (simp add: P_def)
  ultimately show ?thesis by simp
qed

text \<open>
  C32: a run that succeeds reads back, prints and writes on as a dataset exactly the ten rows of the table,
  if no file of others is in the directory of the first dataset.
\<close>

theorem dataset_has_the_ten_rows:
  assumes L: "writing_laws A V" "parquet_laws A V" and run: "RunDataset A w = (Inr (), w')"
    and others: "\<forall>f\<in>dom (file_at V (example_fs w)). prefix ''parquet_dataset/'' f \<longrightarrow> f = file1 \<or> f = file2"
  shows "\<exists>table out fs. mset (rows_of V table) = mset example_rows \<and> cout w' = cout w @ out @ table_text A table \<and>
    write_overwriting A \<lparr>write_format = ParquetFileFormat, write_base_dir = ''write_dataset'', partition_fields = [(''a'', utf8)],
      basename_template = ''part{i}.parquet''\<rparr> table fs = (Inr (), example_fs w')"
proof -
  let ?opts = "\<lparr>write_format = ParquetFileFormat, write_base_dir = ''write_dataset'', partition_fields = [(''a'', utf8)],
      basename_template = ''part{i}.parquet''\<rparr>"
  let ?read = "\<lambda>ds. seq (look (scan A ds)) (\<lambda>table. seq (print (table_text A table)) (\<lambda>_.
     with_files (write_overwriting A ?opts table)))"
  obtain fs schema where 1: "seq (working_dir A) (\<lambda>init_path. seq (return_not_ok (file_system_at A init_path)) (\<lambda>_.
     seq (look (discover A \<lparr>base_dir = ''parquet_dataset'', recursive = True\<rparr> ParquetFileFormat True)) (\<lambda>ds.
     seq (look (fragments_of A ds)) (\<lambda>fragments. seq (show_fragments fragments) (\<lambda>_. ?read ds))))) (w\<lparr>example_fs := fs\<rparr>) = (Inr (), w')"
    "file_at V fs = (file_at V (example_fs w))(''table.csv'' \<mapsto> Csv_file example_rows,
       file1 \<mapsto> Parquet_file schema (take 5 example_rows), file2 \<mapsto> Parquet_file schema (drop 5 example_rows))"
    using run unfolding RunDataset_def by (rule PrepareEnv_InrE [OF L])
  have 2: "seq (look (discover A \<lparr>base_dir = ''parquet_dataset'', recursive = True\<rparr> ParquetFileFormat True)) (\<lambda>ds.
     seq (look (fragments_of A ds)) (\<lambda>fragments. seq (show_fragments fragments) (\<lambda>_. ?read ds))) (w\<lparr>example_fs := fs\<rparr>) = (Inr (), w')"
    using 1(1) by (rule working_dir_InrE) (auto elim: seq_return_InrE)
  obtain ds where ds: "discover A \<lparr>base_dir = ''parquet_dataset'', recursive = True\<rparr> ParquetFileFormat True fs = Inr ds"
      "seq (look (fragments_of A ds)) (\<lambda>fragments. seq (show_fragments fragments) (\<lambda>_. ?read ds)) (w\<lparr>example_fs := fs\<rparr>) = (Inr (), w')"
    using 2 by (rule look_InrE) simp
  obtain frs where frs: "seq (show_fragments frs) (\<lambda>_. ?read ds) (w\<lparr>example_fs := fs\<rparr>) = (Inr (), w')"
    using ds(2) by (rule look_InrE) simp
  obtain out where out: "?read ds (w\<lparr>example_fs := fs, cout := cout w @ out\<rparr>) = (Inr (), w')"
    using show_fragments_InrE [OF frs] by auto
  obtain table where table: "scan A ds fs = Inr table" "seq (print (table_text A table)) (\<lambda>_.
     with_files (write_overwriting A ?opts table)) (w\<lparr>example_fs := fs, cout := cout w @ out\<rparr>) = (Inr (), w')"
    using out by (rule look_InrE) simp
  obtain fs3 where last: "write_overwriting A ?opts table fs = (Inr (), fs3)"
      "w' = w\<lparr>example_fs := fs3, cout := cout w @ out @ table_text A table\<rparr>"
    using table(2) unfolding seq_print by (auto simp: with_files_def return_not_ok_def split: prod.splits sum.splits)
  have "mset (rows_of V table) = mset (concat (map (\<lambda>n. if n = ''data1.parquet'' then take 5 example_rows else drop 5 example_rows)
      [''data1.parquet'', ''data2.parquet'']))"
    by (rule parquet_lawsD(5) [OF L(2) ds(1) table(1) _ only_own_files [OF 1(2) others]]) (simp_all add: 1(2) file1_def file2_def dataset_file_def)
  then have "mset (rows_of V table) = mset (take 5 example_rows @ drop 5 example_rows)" by simp
  then have rows: "mset (rows_of V table) = mset example_rows" by (simp only: append_take_drop_id)
  then show ?thesis using last by (intro exI [of _ table] exI [of _ out] exI [of _ fs]) simp
qed

section \<open>Files to evaluate on\<close>

text \<open>
  A file system is a list of names and files; a table, and a batch, is its rows; a handle is the name of its file.
\<close>

type_synonym file_list = "(string \<times> file_state) list"

definition sample_put :: "bool \<times> string \<Rightarrow> int list list \<Rightarrow> file_list \<Rightarrow> (string + unit) \<times> file_list" where
  "sample_put x rows fs =
     (case map_of fs (snd x) of
        Some (Writing bs) \<Rightarrow> (Inr (), AList.update (snd x) (Writing (bs @ [rows])) fs)
      | _ \<Rightarrow> (Inl ''not open'', fs))"

definition sample_close :: "bool \<times> string \<Rightarrow> file_list \<Rightarrow> (string + unit) \<times> file_list" where
  "sample_close x fs =
     (case map_of fs (snd x) of
        Some (Writing bs) \<Rightarrow> (Inr (), AList.update (snd x) (closed_file (fst x) bs) fs)
      | _ \<Rightarrow> (Inl ''not open'', fs))"

definition sample_batch :: "string \<Rightarrow> nat \<Rightarrow> file_list \<Rightarrow> string + int list list" where
  "sample_batch f k fs =
     (case map_of fs f of Some (Ipc_file bs) \<Rightarrow> if k < length bs then Inr (bs ! k) else Inl ''no batch'' | _ \<Rightarrow> Inl ''no file'')"

definition sample_csv :: "string \<Rightarrow> file_list \<Rightarrow> string + int list list" where
  "sample_csv f fs = (case map_of fs f of Some (Csv_file rs) \<Rightarrow> Inr rs | _ \<Rightarrow> Inl ''no file'')"

definition parquet_rows :: "file_list \<Rightarrow> string \<Rightarrow> int list list" where
  "parquet_rows fs f = (case map_of fs f of Some (Parquet_file schema rs) \<Rightarrow> rs | _ \<Rightarrow> [])"

definition sample_scan :: "string \<Rightarrow> file_list \<Rightarrow> string + int list list" where
  "sample_scan dir fs =
     Inr (concat (map (parquet_rows fs) (remdups (filter (prefix (dir @ ''/'')) (map fst fs)))))"

definition sample_files_api ::
  "nat \<Rightarrow> (file_list, int list, int list list, string, bool \<times> string, string, string, int list list, string, string) files_api" where
  "sample_files_api cwd_size = \<lparr>
     build_ints = (\<lambda>ty xs. Inr xs),
     table_from = (\<lambda>s as. map (\<lambda>i. map (\<lambda>a. a ! i) as) [0..<length (hd as)]),
     slice = (\<lambda>t off n. case n of None \<Rightarrow> drop off t | Some n \<Rightarrow> take n (drop off t)),
     schema_of = (\<lambda>t. []), table_text = (\<lambda>t. ''table''), pretty_text = (\<lambda>t. Inr ''table''),
     open_output = (\<lambda>f fs. (Inr f, AList.update f (Writing []) fs)),
     ipc_writer = (\<lambda>f s fs. (Inr (True, f), fs)), csv_writer = (\<lambda>f s fs. (Inr (False, f), fs)),
     put_table = sample_put, put_batch = sample_put, close_file = sample_close,
     put_parquet = (\<lambda>t f n fs. (Inr (), AList.update f (Parquet_file [] t) fs)),
     open_input = (\<lambda>f fs. Inr f), ipc_reader = (\<lambda>f fs. Inr f), read_batch = sample_batch, batch_schema = (\<lambda>b. []),
     csv_reader = (\<lambda>f fs. Inr f), read_csv = sample_csv, make_dir = (\<lambda>d fs. (Inr (), fs)),
     getcwd = (\<lambda>n fs. if cwd_size < n then Some ''/work'' else None), file_system_at = (\<lambda>p. Inr ()),
     discover = (\<lambda>sel format part fs. Inr (base_dir sel)),
     fragments_of = (\<lambda>dir fs. Inr [Inr (''file'', ''true'')]), scan = sample_scan,
     write_overwriting = (\<lambda>opts t fs. (Inr (), fs)), status_io_error = (\<lambda>m. m)\<rparr>"

definition sample_file_view ::
  "(file_list, int list, int list list, string, bool \<times> string, string, string, int list list) file_view" where
  "sample_file_view = \<lparr>cells_of = (\<lambda>a. a), rows_of = (\<lambda>t. t), one_chunk = (\<lambda>t. True), batch_rows = (\<lambda>b. b),
     out_name = (\<lambda>f. f), writer_name = (\<lambda>x. x), input_name = (\<lambda>f. f), reader_name = (\<lambda>f. f), file_at = map_of\<rparr>"

lemmas sample_files = sample_files_api_def sample_file_view_def

lemma sample_writing_laws: "writing_laws (sample_files_api n) sample_file_view"
  unfolding writing_laws_def
proof (intro conjI allI impI)
  fix s as m
  assume a: "as \<noteq> [] \<and> (\<forall>a\<in>set as. length (cells_of sample_file_view a) = m)"
  then have "length (hd as) = m" by (cases as) (simp_all add: sample_file_view_def)
  then show "rows_of sample_file_view (table_from (sample_files_api n) s as) =
      map (\<lambda>i. map (\<lambda>a. cells_of sample_file_view a ! i) as) [0..<m]"
    by (simp add: sample_files)
next
  fix x t fs u fs' ipc f bs
  assume "put_table (sample_files_api n) x t fs = (Inr u, fs') \<and> writer_name sample_file_view x = (ipc, f) \<and>
    file_at sample_file_view fs f = Some (Writing bs)"
  then show "\<exists>bs'. concat bs' = rows_of sample_file_view t \<and>
      (one_chunk sample_file_view t \<and> rows_of sample_file_view t \<noteq> [] \<longrightarrow> bs' = [rows_of sample_file_view t]) \<and>
      file_at sample_file_view fs' = (file_at sample_file_view fs)(f \<mapsto> Writing (bs @ bs'))"
    by (intro exI [of _ "[t]"]) (auto simp: sample_files sample_put_def update_conv')
qed (auto simp: sample_files sample_put_def sample_close_def update_conv')

lemma sample_reading_laws: "reading_laws (sample_files_api n) sample_file_view"
  unfolding reading_laws_def
  by (intro conjI allI impI)
    (auto simp: sample_files sample_batch_def sample_csv_def split: if_splits)

lemma mset_concat_map_cong:
  assumes "distinct xs" "distinct ys" "set xs = set (map g ys)" "inj_on g (set ys)" "\<And>y. y \<in> set ys \<Longrightarrow> f (g y) = h y"
  shows "mset (concat (map f xs)) = mset (concat (map h ys))"
proof -
  have "mset xs = mset (map g ys)"
    using assms(1-4) by (subst set_eq_iff_mset_eq_distinct [symmetric]) (simp_all add: distinct_map)
  then have "mset (map f xs) = mset (map f (map g ys))" by (metis mset_map)
  then have "mset (concat (map f xs)) = mset (concat (map f (map g ys)))"
    by (metis mset_concat sum_mset_sum_list mset_map)
  also have "map f (map g ys) = map h ys" using assms(5) by simp
  finally show ?thesis .
qed

lemma sample_parquet_laws: "parquet_laws (sample_files_api n) sample_file_view"
  unfolding parquet_laws_def
proof (intro conjI allI impI)
  fix dir part fs d t ns schema contents
  assume a: "discover (sample_files_api n) \<lparr>base_dir = dir, recursive = True\<rparr> ParquetFileFormat part fs = Inr d \<and>
    scan (sample_files_api n) d fs = Inr t \<and> distinct ns \<and>
    {f \<in> dom (file_at sample_file_view fs). prefix (dir @ ''/'') f} = set (map (\<lambda>n. dir @ ''/'' @ n) ns) \<and>
    (\<forall>n\<in>set ns. CHR ''/'' \<notin> set n \<and> dataset_file n \<and> file_at sample_file_view fs (dir @ ''/'' @ n) = Some (Parquet_file schema (contents n)))"
  let ?p = "prefix (dir @ ''/'')"
  have t: "t = concat (map (parquet_rows fs) (remdups (filter ?p (map fst fs))))"
    using a by (auto simp: sample_files sample_scan_def)
  have "set (remdups (filter ?p (map fst fs))) = set (map (\<lambda>n. dir @ ''/'' @ n) ns)"
    using a by (auto simp: sample_file_view_def dom_map_of_conv_image_fst)
  moreover have "parquet_rows fs (dir @ ''/'' @ n) = contents n" if "n \<in> set ns" for n
    using a that by (auto simp: sample_file_view_def parquet_rows_def)
  ultimately show "mset (rows_of sample_file_view t) = mset (concat (map contents ns))"
    unfolding t using a by (simp add: sample_file_view_def del: set_remdups set_map) (rule mset_concat_map_cong, auto simp: inj_on_def)
qed (auto simp: sample_files update_conv')

section \<open>Runs on them\<close>

lemma seq_with_files_ok: "f (example_fs w) = (Inr x, fs) \<Longrightarrow> seq (with_files f) k w = k x (w\<lparr>example_fs := fs\<rparr>)"
  by (simp add: seq_def with_files_def return_not_ok_def)

lemma with_files_ok: "f (example_fs w) = (Inr x, fs) \<Longrightarrow> with_files f w = (Inr x, w\<lparr>example_fs := fs\<rparr>)"
  by (simp add: with_files_def return_not_ok_def)

lemma seq_look_ok: "f (example_fs w) = Inr x \<Longrightarrow> seq (look f) k w = k x w"
  by (simp add: seq_def look_def return_not_ok_def)

lemma sample_put_ok: "map_of fs f = Some (Writing bs) \<Longrightarrow> sample_put (ipc, f) rows fs = (Inr (), AList.update f (Writing (bs @ [rows])) fs)"
  by (simp add: sample_put_def)

lemma sample_close_ok: "map_of fs f = Some (Writing bs) \<Longrightarrow> sample_close (ipc, f) fs = (Inr (), AList.update f (closed_file ipc bs) fs)"
  by (simp add: sample_close_def)

lemma sample_file_calls:
  "build_ints (sample_files_api n) ty xs = Inr xs" "open_output (sample_files_api n) f fs = (Inr f, AList.update f (Writing []) fs)"
  "ipc_writer (sample_files_api n) f s fs = (Inr (True, f), fs)" "csv_writer (sample_files_api n) f s fs = (Inr (False, f), fs)"
  "put_table (sample_files_api n) = sample_put" "put_batch (sample_files_api n) = sample_put" "close_file (sample_files_api n) = sample_close"
  "put_parquet (sample_files_api n) t f m fs = (Inr (), AList.update f (Parquet_file [] t) fs)"
  "open_input (sample_files_api n) f fs = Inr f" "ipc_reader (sample_files_api n) f fs = Inr f" "csv_reader (sample_files_api n) f fs = Inr f"
  "read_batch (sample_files_api n) = sample_batch" "read_csv (sample_files_api n) = sample_csv" "pretty_text (sample_files_api n) rows = Inr ''table''"
  "make_dir (sample_files_api n) d fs = (Inr (), fs)" "getcwd (sample_files_api n) m fs = (if n < m then Some ''/work'' else None)"
  "file_system_at (sample_files_api n) p = Inr ()" "discover (sample_files_api n) sel fmt part fs = Inr (base_dir sel)"
  "fragments_of (sample_files_api n) dir fs = Inr [Inr (''file'', ''true'')]" "scan (sample_files_api n) = sample_scan"
  "write_overwriting (sample_files_api n) opts t fs = (Inr (), fs)" "status_io_error (sample_files_api n) msg = msg"
  by (simp_all add: sample_files_api_def)

lemmas sample_steps = sample_file_calls seq_with_files_ok with_files_ok seq_look_ok sample_put_ok sample_close_ok return_ok update_conv'

definition no_files :: "file_list example" where
  "no_files = \<lparr>example_fs = [], cout = [], cerr = []\<rparr>"

theorem long_directory_name_fails_late_witness:
  "fst (main_dataset3 (\<lambda>m. m) (sample_files_api 300) no_files) = Some 1 \<and>
   map_of (example_fs (snd (main_dataset3 (\<lambda>m. m) (sample_files_api 300) no_files))) ''table.csv'' = Some (Csv_file example_rows)"
proof -
  let ?A = "sample_files_api 300"
  have "\<exists>w1. seq (CreateTable3 ?A) (TableToCSV ?A) no_files = (Inr (), w1)"
    unfolding CreateTable3_def TableToCSV_def sample_file_calls return_ok seq_ret by (simp add: sample_steps)
  then obtain w1 where w1: "seq (CreateTable3 ?A) (TableToCSV ?A) no_files = (Inr (), w1)" ..
  have "\<forall>fs. getcwd ?A 256 fs = None" by (simp add: sample_file_calls)
  from long_directory_name_fails_late [OF sample_writing_laws this w1]
  show ?thesis by (simp add: sample_file_view_def)
qed

theorem copied_file_is_equal_witness:
  "\<exists>w'. RunFileIO (sample_files_api 4) no_files = (Inr (), w') \<and>
    map_of (example_fs w') ''test_out.arrow'' = Some (Ipc_file [date_rows])"
proof -
  let ?A = "sample_files_api 4"
  have "\<exists>w'. RunFileIO ?A no_files = (Inr (), w')"
    unfolding RunFileIO_def GenInitialFile_def Let_def seq_assoc sample_file_calls return_ok
    by (simp add: sample_steps sample_batch_def closed_file_def)
  then obtain w' where r: "RunFileIO ?A no_files = (Inr (), w')" ..
  from copied_file_is_equal [OF sample_writing_laws sample_reading_laws r]
  show ?thesis using r by (simp add: sample_file_view_def)
qed

theorem csv_rows_are_kept_witness:
  "\<exists>w'. RunCsvToArrow (sample_files_api 4) (no_files\<lparr>example_fs := [(''test.csv'', Csv_file [[1, 2], [3, 4]])]\<rparr>) = (Inr (), w') \<and>
    (\<exists>bs. concat bs = [[1, 2], [3, 4]] \<and> map_of (example_fs w') ''test.arrow'' = Some (Ipc_file bs))"
proof -
  let ?A = "sample_files_api 4"
  let ?w = "no_files\<lparr>example_fs := [(''test.csv'', Csv_file [[1, 2], [3, 4]])]\<rparr>"
  have "\<exists>w'. RunCsvToArrow ?A ?w = (Inr (), w')"
    unfolding RunCsvToArrow_def seq_print_err seq_assoc sample_file_calls return_ok
    by (simp add: sample_steps sample_csv_def seq_print_err)
  then obtain w' where r: "RunCsvToArrow ?A ?w = (Inr (), w')" ..
  have "file_at sample_file_view (example_fs ?w) ''test.csv'' = Some (Csv_file [[1, 2], [3, 4]])"
    by (simp add: sample_file_view_def)
  from csv_rows_are_kept [OF sample_writing_laws sample_reading_laws this r]
  show ?thesis using r by (auto simp: sample_file_view_def)
qed

theorem dataset_has_the_ten_rows_witness:
  "\<exists>w' table out. RunDataset (sample_files_api 4) no_files = (Inr (), w') \<and> mset table = mset example_rows \<and>
    cout w' = out @ ''table''"
proof -
  let ?A = "sample_files_api 4"
  have "\<exists>w'. RunDataset ?A no_files = (Inr (), w')"
    unfolding RunDataset_def PrepareEnv_def CreateTable3_def CreateParquetFiles_def TableToCSV_def Let_def seq_assoc sample_file_calls
      return_ok seq_ret
    by (simp add: sample_steps sample_scan_def working_dir_def seq_print print_def seq_ret seq_assoc)
  then obtain w' where r: "RunDataset ?A no_files = (Inr (), w')" ..
  have "\<forall>f\<in>dom (file_at sample_file_view (example_fs no_files)). prefix ''parquet_dataset/'' f \<longrightarrow> f = file1 \<or> f = file2"
    by (simp add: sample_file_view_def no_files_def)
  from dataset_has_the_ten_rows [OF sample_writing_laws sample_parquet_laws r this]
  show ?thesis using r by (auto simp: sample_file_view_def no_files_def sample_files_api_def)
qed

end
