(* ===== verification/Arrow_Acero.thy ===== *)
theory Arrow_Acero
  imports Arrow_Files Complex_Main
begin

text \<open>
  Programs about execution plans of Acero: \<open>arrow/examples/acero_register_example.cpp\<close> registers a function
  and a plan node of its own, \<open>arrow/user_guide/streaming_engine.cpp\<close> runs a filter and a grouped mean. Arrow's
  registries, plans and readers are parameters; their state is the \<open>example_fs\<close> of a run.
\<close>

section \<open>Function options\<close>

datatype function_options = ExampleFunctionOptions

definition type_name :: string where "type_name = ''ExampleFunctionOptionsType''"

definition Stringify :: "function_options \<Rightarrow> string" where "Stringify options = ''ExampleFunctionOptionsType''"

definition Compare :: "function_options \<Rightarrow> function_options \<Rightarrow> bool" where "Compare options other = True"

definition Copy :: "function_options \<Rightarrow> function_options" where "Copy options = ExampleFunctionOptions"

text \<open>Comparison without looking is right, because the options have no fields.\<close>

lemma Compare_is_equality: "Compare options other \<longleftrightarrow> options = other" "Compare (Copy options) options"
  by (cases options; cases other; simp add: Compare_def)+

text \<open>The kernel hands its first argument on; an empty batch would be read out of range.\<close>

definition ExampleFunctionImpl :: "'array list \<Rightarrow> 'array option" where
  "ExampleFunctionImpl batch = (case batch of [] \<Rightarrow> None | array # rest \<Rightarrow> Some array)"

section \<open>The plan node\<close>

text \<open>
  The virtual functions of a plan node, over a state \<open>'w\<close>. A call names the node it comes from. \<open>'s\<close> is \<open>Status\<close>.
\<close>

record ('w, 'batch, 'id, 's) exec_node =
  kind_name :: string
  input_labels :: "string list"
  output_schema :: "(string \<times> data_type) list"
  start_producing :: "'w \<Rightarrow> 's \<times> 'w"
  resume_producing :: "'id \<Rightarrow> 32 word \<Rightarrow> 'w \<Rightarrow> 'w"
  pause_producing :: "'id \<Rightarrow> 32 word \<Rightarrow> 'w \<Rightarrow> 'w"
  stop_producing_impl :: "'w \<Rightarrow> 's \<times> 'w"
  input_received :: "'id \<Rightarrow> 'batch \<Rightarrow> 'w \<Rightarrow> 's \<times> 'w"
  input_finished :: "'id \<Rightarrow> int \<Rightarrow> 'w \<Rightarrow> 's \<times> 'w"

definition ExampleNode ::
  "'s \<Rightarrow> 'id \<Rightarrow> ('w, 'batch, 'id, 's) exec_node \<Rightarrow> ('w, 'batch, 'id, 's) exec_node \<Rightarrow> ('w, 'batch, 'id, 's) exec_node"
where
  "ExampleNode OK this input target = \<lparr>
     kind_name = ''ExampleNode'', input_labels = [''ignored''], output_schema = output_schema input,
     start_producing = input_finished target this 0,
     resume_producing = (\<lambda>output counter. resume_producing input this counter),
     pause_producing = (\<lambda>output counter. pause_producing input this counter),
     stop_producing_impl = (\<lambda>w. (OK, w)),
     input_received = (\<lambda>input batch w. (OK, w)),
     input_finished = (\<lambda>input total_batches w. (OK, w))\<rparr>"

text \<open>The factory takes the first input; without one it would read out of range. The output is set later, by the plan.\<close>

definition ExampleExecNodeFactory ::
  "'s \<Rightarrow> 'id \<Rightarrow> ('w, 'batch, 'id, 's) exec_node list \<Rightarrow>
   (('w, 'batch, 'id, 's) exec_node \<Rightarrow> ('w, 'batch, 'id, 's) exec_node) option" where
  "ExampleExecNodeFactory OK this inputs =
     (case inputs of [] \<Rightarrow> None | input # rest \<Rightarrow> Some (ExampleNode OK this input))"

section \<open>What its output sees\<close>

text \<open>What may happen to a node: calls by the plan, by its input and by its output.\<close>

datatype 'batch node_event = Start | Received 'batch | Finished int | Pause "32 word" | Resume "32 word" | Stop

fun happen :: "('w, 'batch, 'id, 's) exec_node \<Rightarrow> 'id \<Rightarrow> 'id \<Rightarrow> 'batch node_event \<Rightarrow> 'w \<Rightarrow> 's option \<times> 'w" where
  "happen node input output Start w = (case start_producing node w of (s, w) \<Rightarrow> (Some s, w))"
| "happen node input output (Received batch) w = (case input_received node input batch w of (s, w) \<Rightarrow> (Some s, w))"
| "happen node input output (Finished n) w = (case input_finished node input n w of (s, w) \<Rightarrow> (Some s, w))"
| "happen node input output (Pause counter) w = (None, pause_producing node output counter w)"
| "happen node input output (Resume counter) w = (None, resume_producing node output counter w)"
| "happen node input output Stop w = (case stop_producing_impl node w of (s, w) \<Rightarrow> (Some s, w))"

fun happen_all ::
  "('w, 'batch, 'id, 's) exec_node \<Rightarrow> 'id \<Rightarrow> 'id \<Rightarrow> 'batch node_event list \<Rightarrow> 'w \<Rightarrow> 's option list \<times> 'w" where
  "happen_all node input output [] w = ([], w)"
| "happen_all node input output (e # es) w =
     (case happen node input output e w of (s, w) \<Rightarrow>
      case happen_all node input output es w of (ss, w) \<Rightarrow> (s # ss, w))"

text \<open>Neighbours that write down the calls they get; they answer every call with success.\<close>

datatype ('batch, 'id) call = To_output 'id 'batch | Total_to_output 'id int
  | Pause_input 'id "32 word" | Resume_input 'id "32 word"

definition watching_node :: "'s \<Rightarrow> (('batch, 'id) call list, 'batch, 'id, 's) exec_node" where
  "watching_node OK = \<lparr>kind_name = ''watching'', input_labels = [], output_schema = [],
     start_producing = (\<lambda>w. (OK, w)),
     resume_producing = (\<lambda>from counter w. w @ [Resume_input from counter]),
     pause_producing = (\<lambda>from counter w. w @ [Pause_input from counter]),
     stop_producing_impl = (\<lambda>w. (OK, w)),
     input_received = (\<lambda>from batch w. (OK, w @ [To_output from batch])),
     input_finished = (\<lambda>from n w. (OK, w @ [Total_to_output from n]))\<rparr>"

definition calls_of ::
  "((('batch, 'id) call list, 'batch, 'id, 's) exec_node \<Rightarrow> (('batch, 'id) call list, 'batch, 'id, 's) exec_node \<Rightarrow>
    (('batch, 'id) call list, 'batch, 'id, 's) exec_node) \<Rightarrow> 's \<Rightarrow> 'id \<Rightarrow> 'id \<Rightarrow> 'batch node_event list \<Rightarrow> ('batch, 'id) call list"
where
  "calls_of mk OK input output es = snd (happen_all (mk (watching_node OK) (watching_node OK)) input output es [])"

definition totals :: "('batch, 'id) call list \<Rightarrow> int list" where
  "totals cs = concat (map (\<lambda>c. case c of Total_to_output i n \<Rightarrow> [n] | _ \<Rightarrow> []) cs)"

definition batches :: "('batch, 'id) call list \<Rightarrow> 'batch list" where
  "batches cs = concat (map (\<lambda>c. case c of To_output i b \<Rightarrow> [b] | _ \<Rightarrow> []) cs)"

text \<open>
  The contract of a node with its output: it announces its number of batches at most once, and announces the number it
  sends. A sink relies on it to know that nothing will follow.
\<close>

locale counted_stream =
  fixes calls :: "'batch node_event list \<Rightarrow> ('batch, 'id) call list"
  assumes announced: "count_list es Start \<le> 1 \<Longrightarrow> set (totals (calls es)) \<subseteq> {int (length (batches (calls es)))}"
    and once: "length (totals (calls es)) = count_list es Start"
begin

definition sink_is_done :: "'batch node_event list \<Rightarrow> bool" where
  "sink_is_done es \<longleftrightarrow> (\<exists>n\<in>set (totals (calls es)). int (length (batches (calls es))) = n)"

lemma sink_done_when_started: "count_list es Start = 1 \<Longrightarrow> sink_is_done es"
  using announced [of es] once [of es] by (cases "totals (calls es)") (auto simp: sink_is_done_def)

lemma sink_not_done_before: "count_list es Start = 0 \<Longrightarrow> \<not> sink_is_done es"
  using once [of es] by (simp add: sink_is_done_def)

lemma total_of_started: "count_list es Start = 1 \<Longrightarrow> totals (calls es) = [int (length (batches (calls es)))]"
  using announced [of es] once [of es] by (cases "totals (calls es)") auto

end

fun forwarded :: "'id \<Rightarrow> 'batch node_event \<Rightarrow> ('batch, 'id) call list" where
  "forwarded this Start = [Total_to_output this 0]"
| "forwarded this (Received batch) = []"
| "forwarded this (Finished n) = []"
| "forwarded this (Pause counter) = [Pause_input this counter]"
| "forwarded this (Resume counter) = [Resume_input this counter]"
| "forwarded this Stop = []"

lemma happen_ExampleNode:
  "snd (happen (ExampleNode OK this (watching_node OK) (watching_node OK)) input output e w) = w @ forwarded this e"
  by (cases e) (simp_all add: ExampleNode_def watching_node_def)

lemma snd_happen_all_Cons:
  "snd (happen_all node input output (e # es) w) = snd (happen_all node input output es (snd (happen node input output e w)))"
  by (simp add: case_prod_unfold)

lemma happen_all_ExampleNode:
  "snd (happen_all (ExampleNode OK this (watching_node OK) (watching_node OK)) input output es w) =
    w @ concat (map (forwarded this) es)"
  by (induction es arbitrary: w) (simp_all only: snd_happen_all_Cons happen_ExampleNode, simp_all)

lemma calls_of_ExampleNode: "calls_of (ExampleNode OK this) OK input output es = concat (map (forwarded this) es)"
  by (simp add: calls_of_def happen_all_ExampleNode)

lemma totals_forwarded: "totals (concat (map (forwarded this) es)) = replicate (count_list es Start) 0"
proof (induction es)
  case (Cons e es)
  then show ?case by (cases e) (simp_all add: totals_def)
qed (simp add: totals_def)

lemma batches_forwarded: "batches (concat (map (forwarded this) es)) = []"
proof (induction es)
  case (Cons e es)
  then show ?case by (cases e) (simp_all add: batches_def)
qed (simp add: batches_def)

interpretation example_node: counted_stream "\<lambda>es. calls_of (ExampleNode OK this) OK input output es"
  by unfold_locales (auto simp: calls_of_ExampleNode totals_forwarded batches_forwarded)

text \<open>
  Started once, whatever batches arrive and in whatever order the calls come, the node sends no batch, announces once
  that there are none, and hands each pause and resume of its output to its input.
\<close>

theorem sink_gets_an_empty_stream:
  assumes "count_list es Start = 1"
  shows "batches (calls_of (ExampleNode OK this) OK input output es) = [] \<and>
    totals (calls_of (ExampleNode OK this) OK input output es) = [0] \<and>
    [c \<leftarrow> calls_of (ExampleNode OK this) OK input output es. \<not> (\<exists>n. c = Total_to_output this n)] =
      concat (map (\<lambda>e. case e of Pause k \<Rightarrow> [Pause_input this k] | Resume k \<Rightarrow> [Resume_input this k] | _ \<Rightarrow> []) es)"
proof -
  let ?cs = "calls_of (ExampleNode OK this) OK input output es"
  have none: "batches ?cs = []" by (simp add: calls_of_ExampleNode batches_forwarded)
  have "[c \<leftarrow> concat (map (forwarded this) es). \<not> (\<exists>n. c = Total_to_output this n)] =
      concat (map (\<lambda>e. case e of Pause k \<Rightarrow> [Pause_input this k] | Resume k \<Rightarrow> [Resume_input this k] | _ \<Rightarrow> []) es)"
  proof (induction es)
    case (Cons e es)
    then show ?case by (cases e) simp_all
  qed simp
  moreover have "totals ?cs = [int (length (batches ?cs))]" by (rule example_node.total_of_started [OF assms])
  ultimately show ?thesis using none by (simp add: calls_of_ExampleNode)
qed

theorem sink_gets_an_empty_stream_witness:
  "totals (calls_of (ExampleNode () (1 :: nat)) () 0 2 [Received ''rows'', Start, Pause 1, Received ''more'', Resume 1, Finished 2]) = [0]"
  using sink_gets_an_empty_stream [of "[Received ''rows'', Start, Pause 1, Received ''more'', Resume 1, Finished 2]" "()" "1 :: nat" 0 2]
  by simp

section \<open>Registering the function and the node\<close>

text \<open>\<open>FunctionDoc\<close>: summary, description, argument names, options class.\<close>

definition func_doc :: "string \<times> string \<times> string list \<times> string" where
  "func_doc = (''Example function to demonstrate registering an out-of-tree function'', '''', [''x''], ''ExampleFunctionOptions'')"

datatype node_options = SourceNodeOptions "(string \<times> data_type) list" | ExampleNodeOptions | SinkNodeOptions

text \<open>
  The calls of the program; \<open>'rt\<close> is the state of the registries. A factory gets the name of the new node and its inputs.
  \<open>outcome_text\<close> is \<open>Status::ToString\<close>, of success for \<open>None\<close>.
\<close>

record ('rt, 'func, 'array, 'buffer, 'plan, 'w, 'batch, 'id, 's, 'e) register_api =
  scalar_function :: "string \<Rightarrow> nat \<Rightarrow> string \<times> string \<times> string list \<times> string \<Rightarrow> 'func"
  add_kernel :: "data_type list \<Rightarrow> data_type \<Rightarrow> ('array list \<Rightarrow> 'array option) \<Rightarrow> bool \<Rightarrow> 'func \<Rightarrow> 'e + 'func"
  add_function :: "'func \<Rightarrow> 'rt \<Rightarrow> ('e + unit) \<times> 'rt"
  build_numbers :: "int list \<Rightarrow> 'e + 'array"
  call_function :: "string \<Rightarrow> 'array list \<Rightarrow> function_options \<Rightarrow> 'rt \<Rightarrow> 'e + 'array"
  array_text :: "'array \<Rightarrow> string"
  serialize_call :: "string \<Rightarrow> function_options \<Rightarrow> 'rt \<Rightarrow> 'e + 'buffer"
  outcome_text :: "'e option \<Rightarrow> string"
  add_factory :: "string \<Rightarrow> ('id \<Rightarrow> ('w, 'batch, 'id, 's) exec_node list \<Rightarrow>
    (('w, 'batch, 'id, 's) exec_node \<Rightarrow> ('w, 'batch, 'id, 's) exec_node) option) \<Rightarrow> 'rt \<Rightarrow> ('e + unit) \<times> 'rt"
  exec_plan :: "'e + 'plan"
  add_to_plan :: "(string \<times> node_options) list \<Rightarrow> 'plan \<Rightarrow> 'rt \<Rightarrow> 'e + unit"

fun status_of :: "'e + 'x \<Rightarrow> 'e option" where
  "status_of (Inl e) = Some e"
| "status_of (Inr x) = None"

text \<open>The flag of \<open>add_kernel\<close> is preallocation, which the program turns off.\<close>

definition RunComputeRegister ::
  "'s \<Rightarrow> ('rt, 'func, 'array, 'buffer, 'plan, 'w, 'batch, 'id, 's, 'e) register_api \<Rightarrow> ('rt, 'e, unit) compute_action" where
  "RunComputeRegister OK A =
     (let name = ''compute_register_example''; func = scalar_function A name 1 func_doc in
      seq (return_not_ok (add_kernel A [int64] int64 ExampleFunctionImpl False func)) (\<lambda>func.
      seq (with_files (add_function A func)) (\<lambda>_.
      seq (return_not_ok (build_numbers A [42])) (\<lambda>arr.
      seq (look (call_function A name [arr] ExampleFunctionOptions)) (\<lambda>result.
      seq (print (array_text A result @ newline)) (\<lambda>_.
      seq (gets (\<lambda>w. serialize_call A name ExampleFunctionOptions (example_fs w))) (\<lambda>maybe_serialized.
      seq (print_err (outcome_text A (status_of maybe_serialized) @ newline)) (\<lambda>_.
      seq (with_files (add_factory A name (ExampleExecNodeFactory OK))) (\<lambda>_.
      seq (return_not_ok (exec_plan A)) (\<lambda>plan.
      look (add_to_plan A [(''source'', SourceNodeOptions []), (name, ExampleNodeOptions), (''sink'', SinkNodeOptions)] plan)))))))))))"

definition main_register ::
  "('e \<Rightarrow> string) \<Rightarrow> 's \<Rightarrow> ('rt, 'func, 'array, 'buffer, 'plan, 'w, 'batch, 'id, 's, 'e) register_api \<Rightarrow>
   'rt example \<Rightarrow> nat option \<times> 'rt example" where
  "main_register status_text OK A = main_of status_text (RunComputeRegister OK A)"

text \<open>
  What Arrow documents: an array has the values built, a function has the kernel added to it, a registry finds a function
  by its name once it has been added, and calling it runs the kernel.
\<close>

record ('rt, 'func, 'array) register_view =
  func_name :: "'func \<Rightarrow> string"
  func_kernel :: "'func \<Rightarrow> ('array list \<Rightarrow> 'array option) option"
  function_at :: "'rt \<Rightarrow> string \<Rightarrow> ('array list \<Rightarrow> 'array option) option"
  numbers_of :: "'array \<Rightarrow> int list"

definition register_laws ::
  "('rt, 'func, 'array, 'buffer, 'plan, 'w, 'batch, 'id, 's, 'e) register_api \<Rightarrow> ('rt, 'func, 'array) register_view \<Rightarrow> bool" where
  "register_laws A V \<longleftrightarrow>
     (\<forall>n k d. func_name V (scalar_function A n k d) = n) \<and>
     (\<forall>ins out impl p f f'. add_kernel A ins out impl p f = Inr f' \<longrightarrow>
        func_name V f' = func_name V f \<and> func_kernel V f' = Some impl) \<and>
     (\<forall>f rt u rt' impl. add_function A f rt = (Inr u, rt') \<and> func_kernel V f = Some impl \<longrightarrow>
        function_at V rt' = (function_at V rt)(func_name V f \<mapsto> impl)) \<and>
     (\<forall>xs a. build_numbers A xs = Inr a \<longrightarrow> numbers_of V a = xs) \<and>
     (\<forall>n as opts rt r impl. call_function A n as opts rt = Inr r \<and> function_at V rt n = Some impl \<longrightarrow>
        (\<exists>r'. impl as = Some r' \<and> numbers_of V r = numbers_of V r'))"

lemma register_lawsD:
  assumes "register_laws A V"
  shows "func_name V (scalar_function A n k d) = n"
    "add_kernel A ins out impl p f = Inr f' \<Longrightarrow> func_name V f' = func_name V f \<and> func_kernel V f' = Some impl"
    "add_function A f rt = (Inr u, rt') \<Longrightarrow> func_kernel V f = Some impl \<Longrightarrow>
       function_at V rt' = (function_at V rt)(func_name V f \<mapsto> impl)"
    "build_numbers A xs = Inr a \<Longrightarrow> numbers_of V a = xs"
    "call_function A n as opts rt = Inr r \<Longrightarrow> function_at V rt n = Some impl \<Longrightarrow>
       \<exists>r'. impl as = Some r' \<and> numbers_of V r = numbers_of V r'"
  using assms unfolding register_laws_def by meson+

lemma seq_gets: "seq (gets f) k w = k (f w) w"
  by (simp add: seq_def)

text \<open>
  A run that succeeds has printed the result of the registered function on 42, an array of just 42, and one line on
  \<open>cerr\<close>, the status of the serialization: whether that worked does not matter to the run.
\<close>

theorem registered_function_is_called:
  assumes L: "register_laws A V" and run: "RunComputeRegister OK A w = (Inr (), w')"
  shows "\<exists>result outcome. numbers_of V result = [42] \<and> cout w' = cout w @ array_text A result @ newline \<and>
    cerr w' = cerr w @ outcome_text A outcome @ newline"
proof -
  note D = register_lawsD [OF L]
  let ?name = "''compute_register_example''"
  note run = run [unfolded RunComputeRegister_def Let_def]
  obtain f where f: "add_kernel A [int64] int64 ExampleFunctionImpl False (scalar_function A ?name 1 func_doc) = Inr f"
    using run by (rule seq_return_InrE)
  note run1 = run [unfolded f return_ok]
  obtain u rt where rt: "add_function A f (example_fs w) = (Inr u, rt)"
    and run2: "seq (return_not_ok (build_numbers A [42])) (\<lambda>arr.
      seq (look (call_function A ?name [arr] ExampleFunctionOptions)) (\<lambda>result.
      seq (print (array_text A result @ newline)) (\<lambda>_.
      seq (gets (\<lambda>w. serialize_call A ?name ExampleFunctionOptions (example_fs w))) (\<lambda>maybe_serialized.
      seq (print_err (outcome_text A (status_of maybe_serialized) @ newline)) (\<lambda>_.
      seq (with_files (add_factory A ?name (ExampleExecNodeFactory OK))) (\<lambda>_.
      seq (return_not_ok (exec_plan A)) (\<lambda>plan.
      look (add_to_plan A [(''source'', SourceNodeOptions []), (?name, ExampleNodeOptions), (''sink'', SinkNodeOptions)] plan))))))))
      (w\<lparr>example_fs := rt\<rparr>) = (Inr (), w')"
    using run1 by (rule with_files_InrE)
  obtain arr where arr: "build_numbers A [42] = Inr arr" using run2 by (rule seq_return_InrE)
  note run3 = run2 [unfolded arr return_ok]
  obtain r where r: "call_function A ?name [arr] ExampleFunctionOptions rt = Inr r"
    and run4: "seq (print (array_text A r @ newline)) (\<lambda>_.
      seq (gets (\<lambda>w. serialize_call A ?name ExampleFunctionOptions (example_fs w))) (\<lambda>maybe_serialized.
      seq (print_err (outcome_text A (status_of maybe_serialized) @ newline)) (\<lambda>_.
      seq (with_files (add_factory A ?name (ExampleExecNodeFactory OK))) (\<lambda>_.
      seq (return_not_ok (exec_plan A)) (\<lambda>plan.
      look (add_to_plan A [(''source'', SourceNodeOptions []), (?name, ExampleNodeOptions), (''sink'', SinkNodeOptions)] plan))))))
      (w\<lparr>example_fs := rt\<rparr>) = (Inr (), w')"
    using run3 by (rule look_InrE) simp
  have "function_at V rt ?name = Some ExampleFunctionImpl" using D(1) D(2) [OF f] D(3) [OF rt] by simp
  from D(5) [OF r this] have "numbers_of V r = [42]" using D(4) [OF arr] by (auto simp: ExampleFunctionImpl_def)
  moreover obtain out where "cout w' = cout w @ array_text A r @ newline" "cerr w' = cerr w @ outcome_text A out @ newline"
  proof -
    obtain w1 where w1: "with_files (add_factory A ?name (ExampleExecNodeFactory OK))
        (w\<lparr>example_fs := rt, cout := cout w @ array_text A r @ newline,
           cerr := cerr w @ outcome_text A (status_of (serialize_call A ?name ExampleFunctionOptions rt)) @ newline\<rparr>) = (Inr (), w1)"
      and run5: "seq (return_not_ok (exec_plan A)) (\<lambda>plan.
      look (add_to_plan A [(''source'', SourceNodeOptions []), (?name, ExampleNodeOptions), (''sink'', SinkNodeOptions)] plan)) w1 = (Inr (), w')"
      using run4 unfolding seq_print seq_gets seq_print_err by (elim seq_InrE) simp
    have "w' = w1" using run5 by (auto elim!: seq_return_InrE simp: look_def return_not_ok_def split: sum.splits)
    moreover have "cout w1 = cout w @ array_text A r @ newline"
      "cerr w1 = cerr w @ outcome_text A (status_of (serialize_call A ?name ExampleFunctionOptions rt)) @ newline"
      using w1 by (auto simp: with_files_def return_not_ok_def split: prod.splits sum.splits)
    ultimately show thesis using that by blast
  qed
  ultimately show ?thesis by blast
qed

text \<open>A registry that is a map from names to kernels; it has no way to serialize options.\<close>

definition sample_register_api ::
  "(string \<Rightarrow> (int list list \<Rightarrow> int list option) option, string \<times> (int list list \<Rightarrow> int list option) option, int list, unit, unit,
    unit, unit, nat, unit, string) register_api" where
  "sample_register_api = \<lparr>scalar_function = (\<lambda>n k d. (n, None)),
     add_kernel = (\<lambda>ins out impl p f. Inr (fst f, Some impl)),
     add_function = (\<lambda>f rt. (Inr (), rt(fst f := snd f))), build_numbers = Inr,
     call_function = (\<lambda>n as opts rt. case rt n of None \<Rightarrow> Inl ''no function'' | Some impl \<Rightarrow>
        (case impl as of None \<Rightarrow> Inl ''no result'' | Some r \<Rightarrow> Inr r)),
     array_text = (\<lambda>a. if a = [42] then ''[42]'' else ''[...]''), serialize_call = (\<lambda>n opts rt. Inl ''NotImplemented''),
     outcome_text = (\<lambda>s. case s of None \<Rightarrow> ''OK'' | Some e \<Rightarrow> e), add_factory = (\<lambda>n f rt. (Inr (), rt)),
     exec_plan = Inr (), add_to_plan = (\<lambda>nodes p rt. Inr ())\<rparr>"

definition sample_register_view ::
  "(string \<Rightarrow> (int list list \<Rightarrow> int list option) option, string \<times> (int list list \<Rightarrow> int list option) option, int list) register_view" where
  "sample_register_view = \<lparr>func_name = fst, func_kernel = snd, function_at = (\<lambda>rt. rt), numbers_of = (\<lambda>a. a)\<rparr>"

lemma sample_register_laws: "register_laws sample_register_api sample_register_view"
  unfolding register_laws_def
  by (intro conjI allI impI)
    (auto simp: sample_register_api_def sample_register_view_def split: option.splits if_splits)

theorem registered_function_is_called_witness:
  "\<exists>w' outcome. RunComputeRegister () sample_register_api \<lparr>example_fs = \<lambda>n. None, cout = [], cerr = []\<rparr> = (Inr (), w') \<and>
    cout w' = ''[42]'' @ newline \<and> cerr w' = outcome @ newline"
proof -
  let ?A = sample_register_api
  have f: "scalar_function ?A n k d = (n, None)" "add_kernel ?A ins out impl p f = Inr (fst f, Some impl)"
    "add_function ?A f rt = (Inr (), rt(fst f := snd f))" "build_numbers ?A xs = Inr xs"
    "add_factory ?A n g rt = (Inr (), rt)" "exec_plan ?A = Inr ()" "add_to_plan ?A nodes plan rt = Inr ()"
    for n k d ins out impl p f rt xs g nodes plan
    by (simp_all add: sample_register_api_def)
  have call: "call_function ?A n [xs] opts (rt(n := Some ExampleFunctionImpl)) = Inr xs" for n xs opts rt
    by (simp add: sample_register_api_def ExampleFunctionImpl_def)
  have "\<exists>w'. RunComputeRegister () ?A \<lparr>example_fs = \<lambda>n. None, cout = [], cerr = []\<rparr> = (Inr (), w')"
    unfolding RunComputeRegister_def Let_def f return_ok
    by (simp add: seq_with_files_ok seq_look_ok f call seq_print seq_gets seq_print_err look_def return_not_ok_def)
  then obtain w' where r: "RunComputeRegister () ?A \<lparr>example_fs = \<lambda>n. None, cout = [], cerr = []\<rparr> = (Inr (), w')" ..
  from registered_function_is_called [OF sample_register_laws r]
  show ?thesis using r by (auto simp: sample_register_view_def sample_register_api_def)
qed

end
