(* ===== verification/Arrow_Streaming.thy ===== *)
theory Arrow_Streaming
  imports Arrow_Files Complex_Main
begin

text \<open>
  \<open>arrow/user_guide/streaming_engine.cpp\<close>: a plan that filters an in-memory dataset and takes means by group, with the
  schema the program declares for the result. Arrow is a parameter; the state of its plans is the \<open>example_fs\<close> of a run.
\<close>

section \<open>The dataset\<close>

text \<open>\<open>numeric_limits<int64_t>::quiet_NaN()\<close>: an integer type has no NaN, and the function returns \<open>int64_t()\<close>.\<close>

definition null_long :: "64 word" where "null_long = 0"

definition sample_longs :: "64 word list" where
  "sample_longs = [1, 2, null_long, 3, null_long, 4, 5, 6, 7, 8]"

text \<open>The nodes of a plan, with the options the program gives them.\<close>

datatype plan_node =
    Scan_node (scan_filter: expr) (scan_columns: "string list")
  | Filter_node expr
  | Project_node "expr list" "string list"
  | Aggregate_node "(string \<times> string \<times> string) list" "string list"
  | Sink_node

record ('rt, 'builder, 'array, 'batch, 'table, 'dataset, 'projection, 'plan, 'reader, 'e) stream_api =
  long_builder :: 'builder
  reserve_space :: "nat \<Rightarrow> 'builder \<Rightarrow> 'e + 'builder"
  append_longs :: "64 word list \<Rightarrow> 'builder \<Rightarrow> 'e + 'builder"
  finish_longs :: "'builder \<Rightarrow> 'e + 'array"
  record_batch :: "(string \<times> data_type) list \<Rightarrow> nat \<Rightarrow> 'array list \<Rightarrow> 'batch"
  table_from_batches :: "'batch list \<Rightarrow> 'e + 'table"
  in_memory_dataset :: "'table \<Rightarrow> 'dataset"
  schema_of_dataset :: "'dataset \<Rightarrow> (string \<times> data_type) list"
  projection_from_names :: "string list \<Rightarrow> (string \<times> data_type) list \<Rightarrow> 'e + 'projection"
  new_plan :: "'e + 'plan"
  add_nodes :: "'dataset \<Rightarrow> plan_node list \<Rightarrow> 'plan \<Rightarrow> 'e + 'plan"
  generator_reader :: "(string \<times> data_type) list \<Rightarrow> 'plan \<Rightarrow> 'reader"
  validate_plan :: "'plan \<Rightarrow> 'e + unit"
  start_plan :: "'plan \<Rightarrow> 'rt \<Rightarrow> 'rt"
  table_from_reader :: "'reader \<Rightarrow> 'rt \<Rightarrow> ('e + 'table) \<times> 'rt"
  table_text_of :: "'table \<Rightarrow> string"
  stop_plan :: "'plan \<Rightarrow> 'rt \<Rightarrow> 'rt"
  finished_plan :: "'plan \<Rightarrow> 'rt \<Rightarrow> ('e + unit) \<times> 'rt"

definition GetArrayDataSample ::
  "('rt, 'builder, 'array, 'batch, 'table, 'dataset, 'projection, 'plan, 'reader, 'e) stream_api \<Rightarrow> 64 word list \<Rightarrow>
   ('rt, 'e, 'array) compute_action" where
  "GetArrayDataSample A values =
     seq (return_not_ok (reserve_space A (length values) (long_builder A))) (\<lambda>builder.
     seq (return_not_ok (append_longs A values builder)) (\<lambda>builder.
     return_not_ok (finish_longs A builder)))"

definition long_schema :: "(string \<times> data_type) list" where
  "long_schema = [(''a'', int64), (''b'', int64), (''c'', int64)]"

definition GetTable ::
  "('rt, 'builder, 'array, 'batch, 'table, 'dataset, 'projection, 'plan, 'reader, 'e) stream_api \<Rightarrow>
   ('rt, 'e, 'table) compute_action" where
  "GetTable A =
     seq (GetArrayDataSample A sample_longs) (\<lambda>a_array.
     seq (GetArrayDataSample A sample_longs) (\<lambda>b_array.
     seq (GetArrayDataSample A sample_longs) (\<lambda>c_array.
     return_not_ok (table_from_batches A [record_batch A long_schema 10 [a_array, b_array, c_array]]))))"

definition create_dataset ::
  "('rt, 'builder, 'array, 'batch, 'table, 'dataset, 'projection, 'plan, 'reader, 'e) stream_api \<Rightarrow>
   ('rt, 'e, 'dataset) compute_action" where
  "create_dataset A = seq (GetTable A) (\<lambda>table. ret (in_memory_dataset A table))"

section \<open>The plan\<close>

definition query_nodes :: "plan_node list" where
  "query_nodes = [
     Scan_node (greater (field_ref ''a'') (literal_int 5)) [''c'', ''a''],
     Filter_node (greater (field_ref ''a'') (literal_int 5)),
     Project_node [field_ref ''c'', field_ref ''a''] [''c'', ''a''],
     Aggregate_node [(''hash_mean'', ''c'', ''mean(c)'')] [''a''],
     Sink_node]"

text \<open>The schema given to the reader of the result.\<close>

definition declared_schema :: "(string \<times> data_type) list" where
  "declared_schema = [(''mean(c)'', float64), (''a'', int32)]"

definition grouped_filtered_mean ::
  "('rt, 'builder, 'array, 'batch, 'table, 'dataset, 'projection, 'plan, 'reader, 'e) stream_api \<Rightarrow> 'dataset \<Rightarrow>
   ('rt, 'e, unit) compute_action" where
  "grouped_filtered_mean A dataset =
     seq (return_not_ok (projection_from_names A [''c'', ''a''] (schema_of_dataset A dataset))) (\<lambda>projection.
     seq (return_not_ok (new_plan A)) (\<lambda>plan.
     seq (return_not_ok (add_nodes A dataset query_nodes plan)) (\<lambda>plan.
     let sink_reader = generator_reader A declared_schema plan in
     seq (return_not_ok (validate_plan A plan)) (\<lambda>_.
     seq (modify (\<lambda>w. w\<lparr>example_fs := start_plan A plan (example_fs w)\<rparr>)) (\<lambda>_.
     seq (with_files (table_from_reader A sink_reader)) (\<lambda>response_table.
     seq (print (''Results: '' @ newline @ table_text_of A response_table @ newline)) (\<lambda>_.
     seq (modify (\<lambda>w. w\<lparr>example_fs := stop_plan A plan (example_fs w)\<rparr>)) (\<lambda>_.
     with_files (finished_plan A plan)))))))))"

text \<open>\<open>main\<close> aborts without a dataset (\<open>None\<close>); a failed query is printed, but \<open>main\<close> has no other exit code than 0.\<close>

definition main_streaming ::
  "('e \<Rightarrow> string) \<Rightarrow> ('rt, 'builder, 'array, 'batch, 'table, 'dataset, 'projection, 'plan, 'reader, 'e) stream_api \<Rightarrow>
   'rt example \<Rightarrow> nat option \<times> 'rt example" where
  "main_streaming message A w =
     (case create_dataset A w of
        (Inl e, w) \<Rightarrow> (None, w)
      | (Inr dataset, w) \<Rightarrow>
          (case grouped_filtered_mean A dataset w of
             (Inr _, w) \<Rightarrow> (Some 0, w)
           | (Inl (Not_ok e), w) \<Rightarrow> (Some 0, w\<lparr>cerr := cerr w @ message e @ newline\<rparr>)
           | (Inl Undefined, w) \<Rightarrow> (None, w)
           | (Inl (Aborted e), w) \<Rightarrow> (None, w)))"

section \<open>The dataset it makes\<close>

text \<open>
  What Arrow documents of builders, batches, tables and datasets, for calls that succeed: a builder collects values, and the
  others have the columns they are made from. Rows of 64-bit integers; an appended value is never null.
  What the nodes of the plan do is Arrow's and not described.
\<close>

type_synonym long_rows = "(string \<times> data_type) list \<times> 64 word list list"

record ('builder, 'array, 'batch, 'table, 'dataset) stream_view =
  builder_longs :: "'builder \<Rightarrow> 64 word list"
  array_longs :: "'array \<Rightarrow> 64 word list"
  batch_longs :: "'batch \<Rightarrow> long_rows"
  table_longs :: "'table \<Rightarrow> long_rows"
  dataset_longs :: "'dataset \<Rightarrow> long_rows"

definition longs_of :: "(string \<times> data_type) list \<Rightarrow> nat \<Rightarrow> 64 word list list \<Rightarrow> long_rows" where
  "longs_of s n as = (s, map (\<lambda>i. map (\<lambda>xs. xs ! i) as) [0..<n])"

definition stream_laws ::
  "('rt, 'builder, 'array, 'batch, 'table, 'dataset, 'projection, 'plan, 'reader, 'e) stream_api \<Rightarrow>
   ('builder, 'array, 'batch, 'table, 'dataset) stream_view \<Rightarrow> bool" where
  "stream_laws A V \<longleftrightarrow>
     builder_longs V (long_builder A) = [] \<and>
     (\<forall>n b b'. reserve_space A n b = Inr b' \<longrightarrow> builder_longs V b' = builder_longs V b) \<and>
     (\<forall>xs b b'. append_longs A xs b = Inr b' \<longrightarrow> builder_longs V b' = builder_longs V b @ xs) \<and>
     (\<forall>b a. finish_longs A b = Inr a \<longrightarrow> array_longs V a = builder_longs V b) \<and>
     (\<forall>s n as. length s = length as \<and> (\<forall>c\<in>set s. snd c = int64) \<and> (\<forall>a\<in>set as. length (array_longs V a) = n) \<longrightarrow>
        batch_longs V (record_batch A s n as) = longs_of s n (map (array_longs V) as)) \<and>
     (\<forall>b t. table_from_batches A [b] = Inr t \<longrightarrow> table_longs V t = batch_longs V b) \<and>
     (\<forall>t. dataset_longs V (in_memory_dataset A t) = table_longs V t)"

lemma stream_lawsD:
  assumes "stream_laws A V"
  shows "builder_longs V (long_builder A) = []"
    "reserve_space A n b = Inr b' \<Longrightarrow> builder_longs V b' = builder_longs V b"
    "append_longs A xs b = Inr b' \<Longrightarrow> builder_longs V b' = builder_longs V b @ xs"
    "finish_longs A b = Inr a \<Longrightarrow> array_longs V a = builder_longs V b"
    "length s = length as \<Longrightarrow> \<forall>c\<in>set s. snd c = int64 \<Longrightarrow> \<forall>a\<in>set as. length (array_longs V a) = n \<Longrightarrow>
       batch_longs V (record_batch A s n as) = longs_of s n (map (array_longs V) as)"
    "table_from_batches A [batch] = Inr t \<Longrightarrow> table_longs V t = batch_longs V batch"
    "dataset_longs V (in_memory_dataset A t) = table_longs V t"
  using assms unfolding stream_laws_def by meson+

lemma return_fail: "seq (return_not_ok (Inl e)) k = raise (Not_ok e)"
  by (simp add: return_not_ok_def seq_raise)

lemma GetArrayDataSample_cases:
  assumes "stream_laws A V"
  obtains e where "GetArrayDataSample A xs = raise (Not_ok e)"
  | a where "GetArrayDataSample A xs = ret a" "array_longs V a = xs"
proof (cases "reserve_space A (length xs) (long_builder A)")
  case (Inl e)
  show ?thesis by (rule that(1)) (unfold GetArrayDataSample_def Inl return_fail, rule refl)
next
  case r: (Inr b)
  show ?thesis
  proof (cases "append_longs A xs b")
    case (Inl e)
    show ?thesis by (rule that(1)) (unfold GetArrayDataSample_def r return_ok Inl return_fail, rule refl)
  next
    case a: (Inr b')
    show ?thesis
    proof (cases "finish_longs A b'")
      case (Inl e)
      show ?thesis by (rule that(1)) (unfold GetArrayDataSample_def r a return_ok, simp add: Inl return_not_ok_def)
    next
      case f: (Inr array)
      show ?thesis
        by (rule that(2) [of array], unfold GetArrayDataSample_def r a return_ok, simp add: f return_not_ok_def)
          (use stream_lawsD(1-4) [OF assms] r a f in simp)
    qed
  qed
qed

text \<open>
  If the dataset is made, it has ten rows of three equal columns of 64-bit integers, and the two values meant as nulls are zeros.
\<close>

theorem dataset_has_zeros_for_nulls:
  fixes A :: "('rt, 'builder, 'array, 'batch, 'table, 'dataset, 'projection, 'plan, 'reader, 'e) stream_api"
  assumes L: "stream_laws A V" and run: "create_dataset A w = (Inr d, w')"
  shows "dataset_longs V d = ([(''a'', int64), (''b'', int64), (''c'', int64)],
      map (\<lambda>x. [x, x, x]) [1, 2, 0, 3, 0, 4, 5, 6, 7, 8]) \<and> w' = w"
proof -
  note D = stream_lawsD [OF L]
  obtain a where a: "(GetArrayDataSample A sample_longs :: ('rt, 'e, 'array) compute_action) = ret a" "array_longs V a = sample_longs"
  proof (rule GetArrayDataSample_cases [OF L, of sample_longs])
    fix e assume "(GetArrayDataSample A sample_longs :: ('rt, 'e, 'array) compute_action) = raise (Not_ok e)"
    then show thesis using run by (simp add: create_dataset_def GetTable_def seq_raise)
  qed
  let ?b = "record_batch A long_schema 10 [a, a, a]"
  obtain t where t: "table_from_batches A [?b] = Inr t" and d: "d = in_memory_dataset A t" "w' = w"
    using run unfolding create_dataset_def GetTable_def a(1) seq_ret by (auto simp: seq_ret elim!: seq_return_InrE)
  have "batch_longs V ?b = longs_of long_schema 10 (map (array_longs V) [a, a, a])"
    by (rule D(5)) (simp_all add: long_schema_def a(2) sample_longs_def)
  also have "\<dots> = ([(''a'', int64), (''b'', int64), (''c'', int64)], map (\<lambda>x. [x, x, x]) [1, 2, 0, 3, 0, 4, 5, 6, 7, 8])"
    by (simp add: a(2) longs_of_def long_schema_def sample_longs_def null_long_def upt_rec)
  finally show ?thesis using D(6) [OF t] D(7) d by simp
qed

section \<open>The exit code\<close>

text \<open>
  Once the dataset has been made, the program ends with exit code 0 whatever fails; the message of a failure is on \<open>cerr\<close>.
\<close>

lemma hoare_modify: "(\<And>w. P w \<Longrightarrow> R (f w)) \<Longrightarrow> hoare R (k ()) Q E \<Longrightarrow> hoare P (seq (modify f) k) Q E"
  unfolding hoare_def seq_modify by blast

lemma grouped_filtered_mean_status: "hoare (\<lambda>w. True) (grouped_filtered_mean A d) (\<lambda>_ _. True) (\<lambda>e w. is_status e)"
  unfolding grouped_filtered_mean_def Let_def
  by (intro hoare_return hoare_with_files with_files_defined hoare_modify [where R = "\<lambda>_. True"]
      hoare_print [where R = "\<lambda>_. True"]) simp_all

lemma streaming_exit_code:
  assumes "create_dataset A w = (Inr d, w)"
  shows "fst (main_streaming message A w) = Some 0 \<and>
    (\<forall>e w1. grouped_filtered_mean A d w = (Inl e, w1) \<longrightarrow>
      (\<exists>status. e = Not_ok status \<and> cerr (snd (main_streaming message A w)) = cerr w1 @ message status @ newline))"
proof (cases "grouped_filtered_mean A d w")
  case (Pair r w1)
  show ?thesis
  proof (cases r)
    case (Inl e)
    then have "is_status e" using grouped_filtered_mean_status [of A d] Pair unfolding hoare_def by (metis fst_conv sum.case(1))
    then show ?thesis using Inl Pair assms by (cases e) (simp_all add: main_streaming_def)
  next
    case (Inr u)
    then show ?thesis using Pair assms by (simp add: main_streaming_def)
  qed
qed

section \<open>An Arrow to evaluate on\<close>

text \<open>Everything is its rows, and the query fails; the state counts the calls that start and stop plans.\<close>

definition sample_stream_api ::
  "(nat, 64 word list, 64 word list, long_rows, long_rows, long_rows, unit, unit, unit, string) stream_api" where
  "sample_stream_api = \<lparr>long_builder = [], reserve_space = (\<lambda>n. Inr), append_longs = (\<lambda>xs b. Inr (b @ xs)), finish_longs = Inr,
     record_batch = longs_of, table_from_batches = (\<lambda>bs. Inr (hd bs)), in_memory_dataset = (\<lambda>t. t), schema_of_dataset = fst,
     projection_from_names = (\<lambda>ns s. Inr ()), new_plan = Inr (), add_nodes = (\<lambda>d ns p. Inr p),
     generator_reader = (\<lambda>s p. ()), validate_plan = (\<lambda>p. Inr ()), start_plan = (\<lambda>p. Suc),
     table_from_reader = (\<lambda>r rt. (Inl ''no rows'', rt)),
     table_text_of = (\<lambda>t. ''table''), stop_plan = (\<lambda>p. Suc), finished_plan = (\<lambda>p rt. (Inr (), rt))\<rparr>"

definition sample_stream_view :: "(64 word list, 64 word list, long_rows, long_rows, long_rows) stream_view" where
  "sample_stream_view = \<lparr>builder_longs = (\<lambda>b. b), array_longs = (\<lambda>a. a), batch_longs = (\<lambda>b. b), table_longs = (\<lambda>t. t),
     dataset_longs = (\<lambda>d. d)\<rparr>"

lemma sample_stream_laws: "stream_laws sample_stream_api sample_stream_view"
  unfolding stream_laws_def by (intro conjI allI impI) (auto simp: sample_stream_api_def sample_stream_view_def)

theorem dataset_has_zeros_for_nulls_witness:
  "\<exists>d. create_dataset sample_stream_api \<lparr>example_fs = 0, cout = [], cerr = []\<rparr> = (Inr d, \<lparr>example_fs = 0, cout = [], cerr = []\<rparr>) \<and>
     snd d ! 2 = [0, 0, 0]"
proof -
  let ?A = sample_stream_api and ?w = "\<lparr>example_fs = 0 :: nat, cout = [], cerr = []\<rparr>"
  have f: "long_builder ?A = []" "reserve_space ?A n b = Inr b" "append_longs ?A xs b = Inr (b @ xs)" "finish_longs ?A b = Inr b"
    "table_from_batches ?A [fr] = Inr fr" "in_memory_dataset ?A fr = fr" for n b xs fr
    by (simp_all add: sample_stream_api_def)
  have g: "GetArrayDataSample ?A xs = ret xs" for xs
    unfolding GetArrayDataSample_def f return_ok by (simp add: return_not_ok_def)
  have "\<exists>d. create_dataset ?A ?w = (Inr d, ?w)"
    unfolding create_dataset_def GetTable_def g seq_ret f return_ok by (simp add: return_not_ok_def seq_ret)
  then obtain d where d: "create_dataset ?A ?w = (Inr d, ?w)" ..
  with dataset_has_zeros_for_nulls [OF sample_stream_laws d] show ?thesis
    by (intro exI [of _ d]) (simp add: sample_stream_view_def)
qed

end
