(* ===== verification/Interleaving.thy ===== *)
theory Interleaving
  imports Prelude
begin

text \<open>
  What the models of threads share: runs of a step relation in which every step is progress, and traces of what the
  threads have written.
\<close>

section \<open>Systems that come to an end\<close>

text \<open>
  A system with an invariant, a size that every step lowers, and a step from every state that is not final: then however the
  steps interleave, a run cannot go on for ever and can only stop in a final state.
\<close>

locale ending_system =
  fixes step :: "'s \<Rightarrow> 's \<Rightarrow> bool" and inv :: "'s \<Rightarrow> bool" and size_of :: "'s \<Rightarrow> nat" and final :: "'s \<Rightarrow> bool"
  assumes step_inv: "inv s \<Longrightarrow> step s t \<Longrightarrow> inv t"
    and step_smaller: "inv s \<Longrightarrow> step s t \<Longrightarrow> size_of t < size_of s"
    and progress: "inv s \<Longrightarrow> \<not> final s \<Longrightarrow> \<exists>t. step s t"
begin

lemma reach_inv: "step\<^sup>*\<^sup>* s t \<Longrightarrow> inv s \<Longrightarrow> inv t"
  by (induction rule: rtranclp_induct) (auto dest: step_inv)

lemma stuck_is_final: "inv s \<Longrightarrow> step\<^sup>*\<^sup>* s t \<Longrightarrow> \<forall>u. \<not> step t u \<Longrightarrow> final t"
  using progress reach_inv by blast

lemma can_end:
  assumes "inv s"
  shows "\<exists>t. step\<^sup>*\<^sup>* s t \<and> final t"
  using assms
proof (induction s rule: measure_induct_rule [of size_of])
  case (less s)
  show ?case
  proof (cases "final s")
    case True
    then show ?thesis by blast
  next
    case False
    then obtain t where t: "step s t" using progress less.prems by blast
    then obtain u where "step\<^sup>*\<^sup>* t u" "final u" using less step_smaller step_inv by blast
    then show ?thesis using t by (meson converse_rtranclp_into_rtranclp)
  qed
qed

lemma no_endless_run:
  assumes "inv (f 0)" "\<And>i. step (f i) (f (Suc i))"
  shows False
proof -
  have inv: "inv (f i)" for i by (induction i) (use assms step_inv in blast)+
  have "size_of (f i) + i \<le> size_of (f 0)" for i
  proof (induction i)
    case (Suc i)
    then show ?case using step_smaller [OF inv assms(2), of i] by linarith
  qed simp
  from this [of "Suc (size_of (f 0))"] show False by simp
qed

end

text \<open>
  Such a system with a start, whose final states are the end: a run from the start that can go no further is in a final state, there
  is one, and none is endless.
\<close>

locale started_system = ending_system +
  fixes start :: 's
  assumes start_inv: "inv start"
    and final_stuck: "inv s \<Longrightarrow> final s \<Longrightarrow> \<not> step s t"
begin

lemma stuck_run: "step\<^sup>*\<^sup>* start s \<Longrightarrow> \<forall>t. \<not> step s t \<Longrightarrow> inv s \<and> final s"
  using reach_inv stuck_is_final start_inv by blast

lemma run_ends: "\<exists>s. step\<^sup>*\<^sup>* start s \<and> (\<forall>t. \<not> step s t) \<and> inv s \<and> final s"
  using can_end [OF start_inv] reach_inv [OF _ start_inv] final_stuck by blast

lemma run_is_finite: "f 0 = start \<Longrightarrow> \<exists>i. \<not> step (f i) (f (Suc i))"
  using no_endless_run start_inv by metis

end

section \<open>Traces\<close>

text \<open>Who wrote what, in order; \<open>by_writer\<close> is what one of them wrote.\<close>

type_synonym 'who trace = "('who \<times> string) list"

definition by_writer :: "'who \<Rightarrow> 'who trace \<Rightarrow> string list" where
  "by_writer a tr = map snd (filter (\<lambda>p. fst p = a) tr)"

definition text_of_trace :: "'who trace \<Rightarrow> string" where
  "text_of_trace tr = concat (map snd tr)"

lemma by_writer_simps [simp]:
  "by_writer a [] = []" "by_writer a (tr @ tr') = by_writer a tr @ by_writer a tr'"
  "by_writer a ((b, s) # tr) = (if a = b then s # by_writer a tr else by_writer a tr)"
  by (auto simp: by_writer_def)

lemma by_writer_all: "by_writer a (map (Pair b) ss) = (if a = b then ss else [])"
  by (induction ss) auto

lemma text_of_trace_simps [simp]:
  "text_of_trace [] = []" "text_of_trace (tr @ tr') = text_of_trace tr @ text_of_trace tr'"
  by (simp_all add: text_of_trace_def)

lemma text_of_trace_map: "text_of_trace (map (Pair a) ss) = concat ss"
  by (simp add: text_of_trace_def comp_def)

lemma by_writer_none: "by_writer a tr = [] \<longleftrightarrow> a \<notin> fst ` set tr"
  by (auto simp: by_writer_def filter_empty_conv)

end
