(* ===== verification/Async_Tasks.thy ===== *)
theory Async_Tasks
  imports Interleaving
begin

text \<open>
  The programs of \<open>arrow/async_task\<close> on futures, thread pools and task groups: a machine of a main thread and a pool whose
  threads interleave at each insertion into a stream, and the programs as lists of operations of the main thread.
  That a pool runs each submitted task once, in order of submission, on at most as many threads as it has, and that \<open>All\<close>,
  \<open>Finish\<close> and \<open>Wait\<close> return when the tasks have ended, is as Arrow documents it.
\<close>

section \<open>A main thread and a pool\<close>

text \<open>
  Operations of the main thread. A task is what it writes, one text for each insertion, and its value; \<open>Report f\<close> waits for all
  tasks and then writes what \<open>f\<close> makes of their values, in the order of submission; \<open>Wait_never\<close> waits for a future that nothing completes.
\<close>

datatype 'v op = Put string | Put_err string | Submit "string list" 'v | Report "'v list \<Rightarrow> string list" | Wait_never | Exit nat

text \<open>Writers are the main thread, \<open>None\<close>, and the tasks by number.\<close>

record 'v machine =
  main_ops :: "'v op list"
  tasks :: "(string list \<times> 'v) list"
  queue :: "nat list"
  running :: "(nat \<times> string list) list"
  ended :: "nat list"
  printed :: "nat option trace"
  errors :: string
  exit_code :: "nat option"

definition started :: "'v op list \<Rightarrow> 'v machine" where
  "started ops = \<lparr>main_ops = ops, tasks = [], queue = [], running = [], ended = [], printed = [], errors = [], exit_code = None\<rparr>"

definition idle :: "'v machine \<Rightarrow> bool" where
  "idle m \<longleftrightarrow> queue m = [] \<and> running m = []"

inductive pool_step :: "nat \<Rightarrow> 'v machine \<Rightarrow> 'v machine \<Rightarrow> bool" for workers where
  put: "main_ops m = Put s # ops \<Longrightarrow> pool_step workers m (m\<lparr>main_ops := ops, printed := printed m @ [(None, s)]\<rparr>)"
| put_err: "main_ops m = Put_err s # ops \<Longrightarrow> pool_step workers m (m\<lparr>main_ops := ops, errors := errors m @ s\<rparr>)"
| submit: "main_ops m = Submit ss v # ops \<Longrightarrow>
    pool_step workers m (m\<lparr>main_ops := ops, tasks := tasks m @ [(ss, v)], queue := queue m @ [length (tasks m)]\<rparr>)"
| report: "main_ops m = Report f # ops \<Longrightarrow> idle m \<Longrightarrow>
    pool_step workers m (m\<lparr>main_ops := ops, printed := printed m @ map (Pair None) (f (map snd (tasks m)))\<rparr>)"
| exit: "main_ops m = Exit n # ops \<Longrightarrow> pool_step workers m (m\<lparr>main_ops := [], exit_code := Some n\<rparr>)"
| start: "queue m = i # q \<Longrightarrow> length (running m) < workers \<Longrightarrow>
    pool_step workers m (m\<lparr>queue := q, running := running m @ [(i, fst (tasks m ! i))]\<rparr>)"
| work: "running m = xs @ (i, s # ss) # ys \<Longrightarrow>
    pool_step workers m (m\<lparr>running := xs @ (i, ss) # ys, printed := printed m @ [(Some i, s)]\<rparr>)"
| finish: "running m = xs @ (i, []) # ys \<Longrightarrow> pool_step workers m (m\<lparr>running := xs @ ys, ended := ended m @ [i]\<rparr>)"

inductive_cases pool_stepE: "pool_step workers m m'"

section \<open>Every run comes to its end\<close>

definition good_ops :: "'v op list \<Rightarrow> bool" where
  "good_ops ops \<longleftrightarrow> Wait_never \<notin> set ops \<and> (\<exists>n. Exit n \<in> set ops)"

text \<open>Each task is waiting, running or ended, once; and it has written what it writes up to where it is.\<close>

definition tasks_inv :: "'v machine \<Rightarrow> bool" where
  "tasks_inv m \<longleftrightarrow>
     distinct (queue m @ map fst (running m) @ ended m) \<and>
     set (queue m @ map fst (running m) @ ended m) = {..<length (tasks m)} \<and>
     (\<forall>i\<in>set (queue m). by_writer (Some i) (printed m) = []) \<and>
     (\<forall>(i, ss)\<in>set (running m). by_writer (Some i) (printed m) @ ss = fst (tasks m ! i)) \<and>
     (\<forall>i\<in>set (ended m). by_writer (Some i) (printed m) = fst (tasks m ! i)) \<and>
     (\<forall>i \<ge> length (tasks m). by_writer (Some i) (printed m) = [])"

definition pool_inv :: "'v machine \<Rightarrow> bool" where
  "pool_inv m \<longleftrightarrow> tasks_inv m \<and> (case exit_code m of None \<Rightarrow> good_ops (main_ops m) | Some n \<Rightarrow> main_ops m = [])"

definition pool_final :: "'v machine \<Rightarrow> bool" where
  "pool_final m \<longleftrightarrow> exit_code m \<noteq> None \<and> idle m"

fun op_size :: "'v op \<Rightarrow> nat" where
  "op_size (Submit ss v) = length ss + 3"
| "op_size op = 1"

definition pool_size :: "'v machine \<Rightarrow> nat" where
  "pool_size m = sum_list (map op_size (main_ops m)) + sum_list (map (\<lambda>i. length (fst (tasks m ! i)) + 2) (queue m)) +
     sum_list (map (\<lambda>p. length (snd p) + 1) (running m))"

lemma queue_size_append:
  "set q \<subseteq> {..<length ts} \<Longrightarrow> map (\<lambda>i. length (fst ((ts @ us) ! i)) + 2) q = map (\<lambda>i. length (fst (ts ! i)) + 2) q"
  by (auto simp: nth_append)

lemma by_writer_report [simp]: "by_writer (Some i) (map (Pair None) ss) = []"
  by (simp add: by_writer_all)

lemma tasks_invD:
  assumes "tasks_inv m"
  shows "distinct (queue m @ map fst (running m) @ ended m)"
    "set (queue m @ map fst (running m) @ ended m) = {..<length (tasks m)}"
    "i \<in> set (queue m) \<Longrightarrow> by_writer (Some i) (printed m) = []"
    "(i, ss) \<in> set (running m) \<Longrightarrow> by_writer (Some i) (printed m) @ ss = fst (tasks m ! i)"
    "i \<in> set (ended m) \<Longrightarrow> by_writer (Some i) (printed m) = fst (tasks m ! i)"
    "length (tasks m) \<le> i \<Longrightarrow> by_writer (Some i) (printed m) = []"
  using assms by (auto simp: tasks_inv_def)

lemma tasks_invI:
  assumes "distinct (queue m @ map fst (running m) @ ended m)"
    "set (queue m @ map fst (running m) @ ended m) = {..<length (tasks m)}"
    "\<And>i. i \<in> set (queue m) \<Longrightarrow> by_writer (Some i) (printed m) = []"
    "\<And>i ss. (i, ss) \<in> set (running m) \<Longrightarrow> by_writer (Some i) (printed m) @ ss = fst (tasks m ! i)"
    "\<And>i. i \<in> set (ended m) \<Longrightarrow> by_writer (Some i) (printed m) = fst (tasks m ! i)"
    "\<And>i. length (tasks m) \<le> i \<Longrightarrow> by_writer (Some i) (printed m) = []"
  shows "tasks_inv m"
  unfolding tasks_inv_def using assms by blast

lemma tasks_inv_main:
  assumes "tasks_inv m" "\<And>i. by_writer (Some i) tr = []"
  shows "tasks_inv (m\<lparr>main_ops := ops, printed := printed m @ tr, errors := e, exit_code := x\<rparr>)"
  by (rule tasks_invI) (use tasks_invD [OF assms(1)] assms(2) in simp_all)

lemma tasks_inv_submit:
  assumes "tasks_inv m"
  shows "tasks_inv (m\<lparr>main_ops := ops, tasks := tasks m @ [(ss, v)], queue := queue m @ [length (tasks m)]\<rparr>)"
proof -
  note D = tasks_invD [OF assms]
  have lt: "i < length (tasks m)" if "i \<in> set (queue m @ map fst (running m) @ ended m)" for i
    using that unfolding D(2) by simp
  have new: "length (tasks m) \<notin> set (queue m @ map fst (running m) @ ended m)" unfolding D(2) by simp
  show ?thesis
  proof (rule tasks_invI, goal_cases)
    case 1
    then show ?case using D(1) new by simp
  next
    case 2
    have "set (queue m @ map fst (running m) @ ended m) \<union> {length (tasks m)} = {..<Suc (length (tasks m))}"
      unfolding D(2) by auto
    then show ?case by auto
  next
    case (3 i)
    then show ?case using D(3,6) by auto
  next
    case (4 i r)
    then have "i \<in> fst ` set (running m)" by force
    then show ?case using 4 D(4) [of i r] lt [of i] by (simp add: nth_append)
  next
    case (5 i)
    then show ?case using D(5) [of i] lt [of i] by (simp add: nth_append)
  next
    case (6 i)
    then show ?case using D(6) [of i] by simp
  qed
qed

lemma tasks_inv_start:
  assumes "tasks_inv m" "queue m = i # q"
  shows "tasks_inv (m\<lparr>queue := q, running := running m @ [(i, fst (tasks m ! i))]\<rparr>)"
proof (rule tasks_invI, goal_cases)
  case 2
  then show ?case using tasks_invD(2) [OF assms(1)] assms(2) by auto
next
  case (4 j r)
  then show ?case using tasks_invD(3,4) [OF assms(1)] assms(2) by auto
qed (use tasks_invD [OF assms(1)] assms(2) in auto)

lemma tasks_inv_work:
  assumes "tasks_inv m" "running m = xs @ (i, s # ss) # ys"
  shows "tasks_inv (m\<lparr>running := xs @ (i, ss) # ys, printed := printed m @ [(Some i, s)]\<rparr>)"
proof -
  note D = tasks_invD [OF assms(1)]
  have i: "i \<notin> set (queue m)" "i \<notin> set (ended m)" "i \<notin> fst ` set xs" "i \<notin> fst ` set ys" "i < length (tasks m)"
    using D(1,2) assms(2) by auto
  show ?thesis
  proof (rule tasks_invI, goal_cases)
    case (4 j r)
    then consider "j = i" "r = ss" | "j \<noteq> i" "(j, r) \<in> set (running m)" using i assms(2) by force
    then show ?case using D(4) [of j r] D(4) [of i "s # ss"] assms(2) by cases auto
  qed (use D i assms(2) in auto)
qed

lemma tasks_inv_finish:
  assumes "tasks_inv m" "running m = xs @ (i, []) # ys"
  shows "tasks_inv (m\<lparr>running := xs @ ys, ended := ended m @ [i]\<rparr>)"
proof -
  note D = tasks_invD [OF assms(1)]
  show ?thesis
  proof (rule tasks_invI, goal_cases)
    case 1
    then show ?case using D(1) assms(2) by auto
  next
    case 2
    then show ?case using D(2) assms(2) by auto
  next
    case (5 j)
    then show ?case using D(4) [of i "[]"] D(5) [of j] assms(2) by auto
  qed (use D assms(2) in auto)
qed

lemma good_ops_Cons: "good_ops (op # ops) \<Longrightarrow> (\<forall>n. op \<noteq> Exit n) \<Longrightarrow> good_ops ops"
  by (auto simp: good_ops_def)

lemma no_trace: "by_writer a [] = []"
  by simp

lemma pool_step_inv:
  assumes "pool_inv m" "pool_step workers m m'"
  shows "pool_inv m'"
proof -
  have T: "tasks_inv m" and M: "case exit_code m of None \<Rightarrow> good_ops (main_ops m) | Some n \<Rightarrow> main_ops m = []"
    using assms(1) by (auto simp: pool_inv_def)
  show ?thesis
    using assms(2)
  proof (cases rule: pool_step.cases)
    case (put s ops)
    then show ?thesis
      using M tasks_inv_main [OF T, where tr = "[(None, s)]" and ops = ops and e = "errors m" and x = "exit_code m"]
      by (auto simp: pool_inv_def dest: good_ops_Cons split: option.splits)
  next
    case (put_err s ops)
    then show ?thesis
      using M tasks_inv_main [OF T, where tr = "[]" and ops = ops and e = "errors m @ s" and x = "exit_code m"]
      by (auto simp: pool_inv_def dest: good_ops_Cons split: option.splits)
  next
    case (submit ss v ops)
    then show ?thesis
      using M tasks_inv_submit [OF T, where ops = ops and ss = ss and v = v] by (auto simp: pool_inv_def dest: good_ops_Cons split: option.splits)
  next
    case (report f ops)
    then show ?thesis
      using M tasks_inv_main [OF T, where tr = "map (Pair None) (f (map snd (tasks m)))" and ops = ops and e = "errors m" and x = "exit_code m"]
      by (auto simp: pool_inv_def dest: good_ops_Cons split: option.splits)
  next
    case (exit n ops)
    then show ?thesis
      using tasks_inv_main [OF T, where tr = "[]" and ops = "[]" and e = "errors m" and x = "Some n"] by (simp add: pool_inv_def)
  next
    case (start i q)
    then show ?thesis using M tasks_inv_start [OF T] by (simp add: pool_inv_def split: option.splits)
  next
    case (work xs i s ss ys)
    then show ?thesis using M tasks_inv_work [OF T] by (simp add: pool_inv_def split: option.splits)
  next
    case (finish xs i ys)
    then show ?thesis using M tasks_inv_finish [OF T] by (simp add: pool_inv_def split: option.splits)
  qed
qed

lemma pool_step_smaller:
  assumes "pool_inv m" "pool_step workers m m'"
  shows "pool_size m' < pool_size m"
  using assms(2)
proof (cases rule: pool_step.cases)
  case (submit ss v ops)
  have "set (queue m) \<subseteq> {..<length (tasks m)}" using assms(1) tasks_invD(2) [of m] by (auto simp: pool_inv_def)
  have "(\<Sum>i\<leftarrow>queue m. length (fst ((tasks m @ [(ss, v)]) ! i)) + 2) = (\<Sum>i\<leftarrow>queue m. length (fst (tasks m ! i)) + 2)"
    by (simp only: queue_size_append [OF \<open>set (queue m) \<subseteq> {..<length (tasks m)}\<close>])
  then show ?thesis using submit by (simp add: pool_size_def)
qed (simp_all add: pool_size_def)

lemma pool_progress:
  assumes "pool_inv m" "\<not> pool_final m"
  shows "\<exists>m'. pool_step (Suc n) m m'"
proof (cases "running m")
  case (Cons p ps)
  obtain i ss where p: "p = (i, ss)" by (cases p)
  show ?thesis
  proof (cases ss)
    case Nil
    then show ?thesis using Cons p pool_step.finish [of m "[]" i ps] by auto
  next
    case (Cons s ss')
    then show ?thesis using \<open>running m = p # ps\<close> p pool_step.work [of m "[]" i s ss' ps] by auto
  qed
next
  case Nil
  note no_running = Nil
  show ?thesis
  proof (cases "queue m")
    case (Cons i q)
    then show ?thesis using no_running pool_step.start [of m i q "Suc n"] by auto
  next
    case Nil
    then have "idle m" using no_running by (simp add: idle_def)
    then have "good_ops (main_ops m)" using assms by (auto simp: pool_inv_def pool_final_def split: option.splits)
    then obtain op ops where ops: "main_ops m = op # ops" "op \<noteq> Wait_never" by (cases "main_ops m") (auto simp: good_ops_def)
    then show ?thesis
      using \<open>idle m\<close> by (cases op) (auto intro: pool_step.intros)
  qed
qed

interpretation pool: ending_system "pool_step (Suc n)" pool_inv pool_size pool_final
  by unfold_locales (fact pool_step_inv pool_step_smaller pool_progress)+

lemma final_is_stuck: "pool_inv m \<Longrightarrow> pool_final m \<Longrightarrow> \<not> pool_step workers m m'"
  by (erule contrapos_pn, erule pool_step.cases) (auto simp: pool_inv_def pool_final_def idle_def split: option.splits)

lemma started_inv: "good_ops ops \<Longrightarrow> pool_inv (started ops)"
  by (simp add: pool_inv_def tasks_inv_def started_def)

section \<open>Submitting tasks and reporting\<close>

definition submitting :: "(string list \<times> 'v) list \<Rightarrow> ('v list \<Rightarrow> string list) \<Rightarrow> 'v op list" where
  "submitting ts f = map (\<lambda>(ss, v). Submit ss v) ts @ [Report f, Exit 0]"

text \<open>The main thread has written nothing until all tasks have ended.\<close>

definition phase :: "(string list \<times> 'v) list \<Rightarrow> ('v list \<Rightarrow> string list) \<Rightarrow> 'v machine \<Rightarrow> bool" where
  "phase ts f m \<longleftrightarrow>
     (\<exists>k \<le> length ts. main_ops m = submitting (drop k ts) f \<and> tasks m = take k ts \<and> by_writer None (printed m) = [] \<and> exit_code m = None) \<or>
     (idle m \<and> tasks m = ts \<and> main_ops m = (if exit_code m = None then [Exit 0] else []) \<and> exit_code m \<in> {None, Some 0} \<and>
      (\<exists>ps. by_writer None ps = [] \<and> printed m = ps @ map (Pair None) (f (map snd ts))))"

lemma submitting_drop:
  "k \<le> length ts \<Longrightarrow> submitting (drop k ts) f =
    (if k < length ts then Submit (fst (ts ! k)) (snd (ts ! k)) # submitting (drop (Suc k) ts) f else [Report f, Exit 0])"
  by (auto simp: submitting_def Cons_nth_drop_Suc [symmetric] split: prod.splits)

lemma phase_step:
  assumes "phase ts f m" "pool_step workers m m'"
  shows "phase ts f m'"
proof (cases "\<exists>k \<le> length ts. main_ops m = submitting (drop k ts) f \<and> tasks m = take k ts \<and> by_writer None (printed m) = [] \<and> exit_code m = None")
  case True
  then obtain k where k: "k \<le> length ts" "main_ops m = submitting (drop k ts) f" "tasks m = take k ts" "by_writer None (printed m) = []"
      "exit_code m = None" by blast
  show ?thesis
    using assms(2)
  proof (cases rule: pool_step.cases)
    case (submit ss v ops)
    then have "k < length ts" "ss = fst (ts ! k)" "v = snd (ts ! k)" "ops = submitting (drop (Suc k) ts) f"
      using k submitting_drop [OF k(1), of f] by (auto split: if_splits)
    then show ?thesis
      using submit k unfolding phase_def by (intro disjI1 exI [of _ "Suc k"]) (simp add: take_Suc_conv_app_nth)
  next
    case (report g ops)
    then have "k = length ts" "g = f" "ops = [Exit 0]" using k submitting_drop [OF k(1), of f] by (auto split: if_splits)
    then show ?thesis using report k unfolding phase_def by (intro disjI2) (auto simp: idle_def)
  next
    case (start i q)
    then show ?thesis using k unfolding phase_def by (intro disjI1 exI [of _ k]) simp
  next
    case (work xs i s ss ys)
    then show ?thesis using k unfolding phase_def by (intro disjI1 exI [of _ k]) simp
  next
    case (finish xs i ys)
    then show ?thesis using k unfolding phase_def by (intro disjI1 exI [of _ k]) simp
  qed (use k submitting_drop [OF k(1), of f] in \<open>auto split: if_splits\<close>)
next
  case False
  then have "idle m \<and> tasks m = ts \<and> main_ops m = (if exit_code m = None then [Exit 0] else []) \<and> exit_code m \<in> {None, Some 0} \<and>
      (\<exists>ps. by_writer None ps = [] \<and> printed m = ps @ map (Pair None) (f (map snd ts)))"
    using assms(1) unfolding phase_def by blast
  then show ?thesis
    using assms(2) by (elim pool_stepE) (auto simp: phase_def idle_def split: if_splits)
qed

lemma phase_reach: "(pool_step workers)\<^sup>*\<^sup>* m m' \<Longrightarrow> phase ts f m \<Longrightarrow> phase ts f m'"
  by (induction rule: rtranclp_induct) (auto dest: phase_step)

lemma phase_started: "phase ts f (started (submitting ts f))"
  by (auto simp: phase_def started_def)

lemma good_submitting: "good_ops (submitting ts f)"
  by (auto simp: good_ops_def submitting_def)

interpretation submitted: started_system "pool_step (Suc n)" pool_inv pool_size pool_final "started (submitting ts f)" for n ts f
  by unfold_locales (fact started_inv [OF good_submitting] final_is_stuck)+

text \<open>What has been written when the program has come to its end.\<close>

lemma submitting_ends:
  assumes reach: "(pool_step (Suc n))\<^sup>*\<^sup>* (started (submitting ts f)) m" and final: "pool_final m"
  shows "exit_code m = Some 0"
    "\<exists>ps. printed m = ps @ map (Pair None) (f (map snd ts)) \<and> by_writer None ps = [] \<and>
      (\<forall>i < length ts. by_writer (Some i) ps = fst (ts ! i)) \<and> fst ` set ps \<subseteq> Some ` {..<length ts}"
proof -
  have ph: "phase ts f m" using phase_reach [OF reach phase_started] .
  then have m: "tasks m = ts" "exit_code m = Some 0" using final by (auto simp: phase_def pool_final_def)
  then show "exit_code m = Some 0" by simp
  obtain ps where ps: "by_writer None ps = []" "printed m = ps @ map (Pair None) (f (map snd ts))"
    using ph m(2) by (auto simp: phase_def)
  have "tasks_inv m" using pool.reach_inv [OF reach submitted.start_inv] by (simp add: pool_inv_def)
  note D = tasks_invD [OF this]
  have "set (ended m) = {..<length ts}" using D(2) final m by (auto simp: pool_final_def idle_def)
  then have e: "by_writer (Some i) ps = fst (ts ! i)" if "i < length ts" for i
    using D(5) [of i] that ps(2) m(1) by auto
  have "by_writer (Some i) ps = []" if "\<not> i < length ts" for i
    using D(6) [of i] that ps(2) m(1) by simp
  then have "fst ` set ps \<subseteq> Some ` {..<length ts}"
    using ps(1) by (auto simp: by_writer_none) (metis (no_types, lifting) image_iff lessThan_iff not_None_eq fst_conv)
  then show "\<exists>ps. printed m = ps @ map (Pair None) (f (map snd ts)) \<and> by_writer None ps = [] \<and>
      (\<forall>i < length ts. by_writer (Some i) ps = fst (ts ! i)) \<and> fst ` set ps \<subseteq> Some ` {..<length ts}"
    using ps e by blast
qed

section \<open>Programs without tasks\<close>

fun only_writes :: "'v op list \<Rightarrow> bool" where
  "only_writes [] \<longleftrightarrow> True"
| "only_writes (Put s # ops) \<longleftrightarrow> only_writes ops"
| "only_writes (Put_err s # ops) \<longleftrightarrow> only_writes ops"
| "only_writes (Exit n # ops) \<longleftrightarrow> only_writes ops"
| "only_writes (op # ops) \<longleftrightarrow> False"

text \<open>Output, error output and exit code of the operations up to the first \<open>Exit\<close>.\<close>

fun written :: "'v op list \<Rightarrow> string \<times> string \<times> nat option" where
  "written (Put s # ops) = (case written ops of (out, err, code) \<Rightarrow> (s @ out, err, code))"
| "written (Put_err s # ops) = (case written ops of (out, err, code) \<Rightarrow> (out, s @ err, code))"
| "written (Exit n # ops) = ([], [], Some n)"
| "written ops = ([], [], None)"

definition writes_inv :: "'v op list \<Rightarrow> 'v machine \<Rightarrow> bool" where
  "writes_inv ops m \<longleftrightarrow> idle m \<and> only_writes (main_ops m) \<and> (exit_code m \<noteq> None \<longrightarrow> main_ops m = []) \<and>
     (case written (main_ops m) of (out, err, code) \<Rightarrow>
        written ops = (text_of_trace (printed m) @ out, errors m @ err, if exit_code m = None then code else exit_code m))"

lemma writes_step: "writes_inv ops m \<Longrightarrow> pool_step workers m m' \<Longrightarrow> writes_inv ops m'"
  by (erule pool_step.cases) (auto simp: writes_inv_def idle_def text_of_trace_def split: prod.splits if_splits)

lemma writes_reach: "(pool_step workers)\<^sup>*\<^sup>* m m' \<Longrightarrow> writes_inv ops m \<Longrightarrow> writes_inv ops m'"
  by (induction rule: rtranclp_induct) (auto dest: writes_step)

lemma only_writes_ends:
  assumes "(pool_step workers)\<^sup>*\<^sup>* (started ops) m" "only_writes ops" "pool_final m"
  shows "written ops = (text_of_trace (printed m), errors m, exit_code m)"
proof -
  have "writes_inv ops (started ops)"
    using assms(2) by (auto simp: writes_inv_def started_def idle_def split: prod.splits)
  from writes_reach [OF assms(1) this] show ?thesis
    using assms(3) by (auto simp: writes_inv_def pool_final_def split: prod.splits)
qed

lemma only_writes_append: "only_writes (ops @ ops') \<longleftrightarrow> only_writes ops \<and> only_writes ops'"
  by (induction ops rule: only_writes.induct) auto

lemma only_writes_puts: "only_writes (map Put ss)"
  by (induction ss) auto

lemma written_puts: "written (map Put ss @ ops) = (case written ops of (out, err, code) \<Rightarrow> (concat ss @ out, err, code))"
  by (induction ss) (auto split: prod.splits)

section \<open>The programs\<close>

subsection \<open>\<open>00_future.cpp\<close>\<close>

text \<open>A callback given to \<open>Then\<close> on a finished future runs at once; what it writes and the value it returns.\<close>

definition first_callback :: "int \<Rightarrow> string list \<times> int" where
  "first_callback value = ([''First callback: '', dec_int value, [CHR 0x0A]], value * 2)"

definition second_callback :: "int \<Rightarrow> string list" where
  "second_callback value = [''Second callback: '', dec_int value, [CHR 0x0A]]"

definition future_ops :: "unit op list" where
  "future_ops = (case first_callback 10 of (out, value) \<Rightarrow> map Put (out @ second_callback value)) @ [Exit 0]"

subsection \<open>\<open>01_threadpool.cpp\<close>\<close>

definition threadpool_tasks :: "(string list \<times> int) list" where
  "threadpool_tasks = [([], 100), ([], 200), ([], 300)]"

definition result_lines :: "int list \<Rightarrow> string list" where
  "result_lines results = concat (map (\<lambda>res. [''result: '', dec_int res, [CHR 0x0A]]) results)"

text \<open>\<open>refuse n\<close> is the status text if the pool does not take the \<open>n\<close>-th task; then \<open>main\<close> prints it and exits with 1.\<close>

fun submit_or_fail :: "(nat \<Rightarrow> string option) \<Rightarrow> nat \<Rightarrow> (string list \<times> 'v) list \<Rightarrow> 'v op list \<Rightarrow> 'v op list" where
  "submit_or_fail refuse n [] ops = ops"
| "submit_or_fail refuse n ((ss, v) # ts) ops =
     (case refuse n of
        Some e \<Rightarrow> [Put_err (e @ [CHR 0x0A]), Exit 1]
      | None \<Rightarrow> Submit ss v # submit_or_fail refuse (Suc n) ts ops)"

definition threadpool_ops :: "string option \<Rightarrow> (nat \<Rightarrow> string option) \<Rightarrow> int op list" where
  "threadpool_ops pool_error refuse =
     (case pool_error of
        Some e \<Rightarrow> [Put_err (e @ [CHR 0x0A]), Exit 1]
      | None \<Rightarrow> submit_or_fail refuse 0 threadpool_tasks [Report result_lines, Exit 0])"

subsection \<open>\<open>02_scheduler.cpp\<close>\<close>

text \<open>
  A simple task with what it writes and the status of the future it returns. The scheduler starts each at once, on the main
  thread; after a failure it calls the abort callback and starts no more.
\<close>

definition simple_tasks :: "(string list \<times> string option) list" where
  "simple_tasks = [([''Subtask 1 executed'', [CHR 0x0A]], None), ([''Subtask 2 executed'', [CHR 0x0A]], None)]"

definition abort_callback :: "string \<Rightarrow> unit op" where
  "abort_callback st = Put_err (''Task failed: '' @ st @ [CHR 0x0A])"

fun scheduled :: "(string list \<times> string option) list \<Rightarrow> unit op list \<times> string option" where
  "scheduled [] = ([], None)"
| "scheduled ((ss, None) # ts) = (case scheduled ts of (ops, status) \<Rightarrow> (map Put ss @ ops, status))"
| "scheduled ((ss, Some e) # ts) = (map Put ss @ [abort_callback e], Some e)"

definition scheduler_ops :: "(string list \<times> string option) list \<Rightarrow> unit op list" where
  "scheduler_ops ts =
     (case scheduled ts of (ops, status) \<Rightarrow>
        map Put [''Initial task started'', [CHR 0x0A]] @ ops @
        (case status of
           None \<Rightarrow> map Put [''Scheduler completed successfully'', [CHR 0x0A]]
         | Some e \<Rightarrow> [Put_err (''Scheduler failed: '' @ e @ [CHR 0x0A])]) @ [Exit 0])"

subsection \<open>\<open>04_taskgroup.cpp\<close>\<close>

definition Task :: "nat \<Rightarrow> string list" where
  "Task n = [''Task '', dec_nat n, '' completed'', [CHR 0x0A]]"

definition group_tasks :: "(string list \<times> unit) list" where
  "group_tasks = map (\<lambda>i. (Task i, ())) [0..<10]"

definition taskgroup_ops :: "unit op list" where
  "taskgroup_ops = submitting group_tasks (\<lambda>_. [''All tasks completed'', [CHR 0x0A]])"

subsection \<open>\<open>06_asyncscheduler.cpp\<close>\<close>

definition asyncscheduler_ops :: "unit op list" where
  "asyncscheduler_ops = submitting [([''Task finished'' @ [CHR 0x0A]], ())] (\<lambda>_. [])"

text \<open>The task of the class that is commented out: its future is never completed.\<close>

definition MyTask_name :: string where "MyTask_name = ''MyTask''"

definition MyTask_ops :: "unit op list" where
  "MyTask_ops = [Put ''Task submitted: '', Put MyTask_name, Put [CHR 0x0A], Wait_never, Exit 0]"

section \<open>What they write\<close>

text \<open>The chain of two callbacks writes the value and its double.\<close>

lemma future_chain_output:
  assumes "(pool_step workers)\<^sup>*\<^sup>* (started future_ops) m" "pool_final m"
  shows "text_of_trace (printed m) = ''First callback: 10'' @ [CHR 0x0A] @ ''Second callback: 20'' @ [CHR 0x0A]"
    "exit_code m = Some 0"
proof -
  have "only_writes future_ops" by (simp add: future_ops_def first_callback_def second_callback_def)
  from only_writes_ends [OF assms(1) this assms(2)]
  have "written future_ops = (text_of_trace (printed m), errors m, exit_code m)" .
  moreover have "dec_int 10 = ''10''" "dec_int 20 = ''20''" by (simp_all add: dec_int_def dec_nat.simps)
  ultimately show "text_of_trace (printed m) = ''First callback: 10'' @ [CHR 0x0A] @ ''Second callback: 20'' @ [CHR 0x0A]"
    "exit_code m = Some 0"
    by (auto simp: future_ops_def first_callback_def second_callback_def)
qed

lemma scheduled_status: "snd (scheduled ts) = find (\<lambda>_. True) (concat (map (\<lambda>t. case snd t of None \<Rightarrow> [] | Some e \<Rightarrow> [e]) ts))"
  by (induction ts rule: scheduled.induct) (auto split: prod.splits)

lemma scheduled_writes: "only_writes (fst (scheduled ts)) \<and> (\<forall>n. Exit n \<notin> set (fst (scheduled ts)))"
  by (induction ts rule: scheduled.induct)
    (auto simp: only_writes_append only_writes_puts abort_callback_def split: prod.splits)

lemma written_append_exit:
  "only_writes ops \<Longrightarrow> \<forall>n. Exit n \<notin> set ops \<Longrightarrow> written (ops @ [Exit n]) = (fst (written ops), fst (snd (written ops)), Some n)"
  by (induction ops rule: written.induct) (auto split: prod.splits)

text \<open>Whatever fails in the scheduler, the program exits with 0.\<close>

lemma scheduler_exit_code:
  assumes "(pool_step workers)\<^sup>*\<^sup>* (started (scheduler_ops ts)) m" "pool_final m"
  shows "exit_code m = Some 0"
proof -
  obtain ops status where s: "scheduled ts = (ops, status)" by (cases "scheduled ts")
  let ?tail = "case status of None \<Rightarrow> map Put [''Scheduler completed successfully'', [CHR 0x0A]]
         | Some e \<Rightarrow> [Put_err (''Scheduler failed: '' @ e @ [CHR 0x0A])]"
  let ?pre = "map Put [''Initial task started'', [CHR 0x0A]] @ ops @ ?tail"
  have pre: "only_writes ?pre" "\<forall>n. Exit n \<notin> set ?pre"
    using scheduled_writes [of ts] s by (cases status; simp add: only_writes_append)+
  have ops: "scheduler_ops ts = ?pre @ [Exit 0]" by (simp add: scheduler_ops_def s)
  have "only_writes (scheduler_ops ts)" using pre(1) unfolding ops only_writes_append by simp
  from only_writes_ends [OF assms(1) this assms(2)] show ?thesis
    unfolding ops written_append_exit [OF pre] by simp
qed

lemma submitting_stuck:
  assumes "(pool_step (Suc n))\<^sup>*\<^sup>* (started (submitting ts f)) m" "\<forall>m'. \<not> pool_step (Suc n) m m'"
  shows "pool_final m"
  using submitted.stuck_run [OF assms] by blast

lemma submitting_can_end: "\<exists>m. (pool_step (Suc n))\<^sup>*\<^sup>* (started (submitting ts f)) m \<and> (\<forall>m'. \<not> pool_step (Suc n) m m')"
  using submitted.run_ends by blast

lemma threadpool_submitting: "threadpool_ops None (\<lambda>n. None) = submitting threadpool_tasks result_lines"
  by (simp add: threadpool_ops_def submitting_def threadpool_tasks_def)

lemma text_of_silent:
  assumes "by_writer None ps = []" "\<forall>i < length ts. by_writer (Some i) ps = []" "fst ` set ps \<subseteq> Some ` {..<length ts}"
  shows "ps = []"
proof (cases ps)
  case (Cons p qs)
  then obtain i where "i < length ts" "fst p = Some i" using assms(3) by auto
  then show ?thesis using assms(2) Cons by (cases p) (auto dest: spec [of _ i])
qed simp

text \<open>
  On a pool with any positive number of threads, however they interleave, a run of the thread pool program that can go no
  further has printed the three results in the order of submission, and exits with 0.
\<close>

theorem results_in_order_of_submission:
  assumes "(pool_step (Suc n))\<^sup>*\<^sup>* (started (threadpool_ops None (\<lambda>n. None))) m" "\<forall>m'. \<not> pool_step (Suc n) m m'"
  shows "text_of_trace (printed m) = ''result: 100'' @ [CHR 0x0A] @ ''result: 200'' @ [CHR 0x0A] @ ''result: 300'' @ [CHR 0x0A] \<and>
    exit_code m = Some 0"
proof -
  note reach = assms(1) [unfolded threadpool_submitting] and final = submitting_stuck [OF assms [unfolded threadpool_submitting]]
  obtain ps where ps: "printed m = ps @ map (Pair None) (result_lines (map snd threadpool_tasks))" "by_writer None ps = []"
      "\<forall>i < length threadpool_tasks. by_writer (Some i) ps = fst (threadpool_tasks ! i)"
      "fst ` set ps \<subseteq> Some ` {..<length threadpool_tasks}"
    using submitting_ends(2) [OF reach final] by blast
  have "\<forall>i < length threadpool_tasks. by_writer (Some i) ps = []"
    using ps(3) by (auto simp: threadpool_tasks_def less_Suc_eq)
  with ps have "ps = []" by (intro text_of_silent [of ps threadpool_tasks]) simp_all
  moreover have "dec_int 100 = ''100''" "dec_int 200 = ''200''" "dec_int 300 = ''300''" by (simp_all add: dec_int_def dec_nat.simps)
  ultimately show ?thesis
    using ps(1) submitting_ends(1) [OF reach final] by (simp add: text_of_trace_def result_lines_def threadpool_tasks_def)
qed

theorem results_in_order_of_submission_witness:
  "\<exists>m. (pool_step 4)\<^sup>*\<^sup>* (started (threadpool_ops None (\<lambda>n. None))) m \<and>
    text_of_trace (printed m) = ''result: 100'' @ [CHR 0x0A] @ ''result: 200'' @ [CHR 0x0A] @ ''result: 300'' @ [CHR 0x0A]"
proof -
  obtain m where m: "(pool_step (Suc 3))\<^sup>*\<^sup>* (started (threadpool_ops None (\<lambda>n. None))) m" "\<forall>m'. \<not> pool_step (Suc 3) m m'"
    using submitting_can_end unfolding threadpool_submitting by blast
  show ?thesis using results_in_order_of_submission [OF m] m by (intro exI [of _ m]) (simp add: eval_nat_numeral)
qed

lemma pool_fails_exit_code:
  assumes "(pool_step workers)\<^sup>*\<^sup>* (started (threadpool_ops (Some e) refuse)) m" "pool_final m"
  shows "exit_code m = Some 1" "errors m = e @ [CHR 0x0A]"
proof -
  have "written (threadpool_ops (Some e) refuse) = (text_of_trace (printed m), errors m, exit_code m)"
    by (rule only_writes_ends [OF assms(1) _ assms(2)]) (simp add: threadpool_ops_def)
  then show "exit_code m = Some 1" "errors m = e @ [CHR 0x0A]" by (simp_all add: threadpool_ops_def)
qed

text \<open>
  C35: however the threads interleave, a run of the task group that can go no further has written the line of each task once, then
  the last line, and exits with 0; lines of different tasks may be mixed.
\<close>

theorem task_group_waits_for_all:
  assumes "(pool_step (Suc n))\<^sup>*\<^sup>* (started taskgroup_ops) m" "\<forall>m'. \<not> pool_step (Suc n) m m'"
  shows "exit_code m = Some 0 \<and>
    (\<exists>ps. printed m = ps @ [(None, ''All tasks completed''), (None, [CHR 0x0A])] \<and> by_writer None ps = [] \<and>
      (\<forall>i < 10. concat (by_writer (Some i) ps) = ''Task '' @ dec_nat i @ '' completed'' @ [CHR 0x0A]) \<and>
      fst ` set ps \<subseteq> Some ` {..<10})"
proof -
  note reach = assms(1) [unfolded taskgroup_ops_def] and final = submitting_stuck [OF assms [unfolded taskgroup_ops_def]]
  have ts: "length group_tasks = 10" "\<And>i. i < 10 \<Longrightarrow> fst (group_tasks ! i) = Task i" by (simp_all add: group_tasks_def)
  show ?thesis
    using submitting_ends [OF reach final] unfolding ts(1) by (auto simp: ts(2) Task_def)
qed

theorem task_group_waits_for_all_witness:
  "\<exists>m. (pool_step 10)\<^sup>*\<^sup>* (started taskgroup_ops) m \<and> exit_code m = Some 0 \<and>
    (\<exists>ps. printed m = ps @ [(None, ''All tasks completed''), (None, [CHR 0x0A])])"
proof -
  obtain m where m: "(pool_step (Suc 9))\<^sup>*\<^sup>* (started taskgroup_ops) m" "\<forall>m'. \<not> pool_step (Suc 9) m m'"
    using submitting_can_end unfolding taskgroup_ops_def by blast
  show ?thesis using task_group_waits_for_all [OF m] m by (intro exI [of _ m]) (auto simp: eval_nat_numeral)
qed

text \<open>The program of the asynchronous scheduler returns after its task has written its line.\<close>

lemma async_scheduler_output:
  assumes "(pool_step (Suc n))\<^sup>*\<^sup>* (started asyncscheduler_ops) m" "\<forall>m'. \<not> pool_step (Suc n) m m'"
  shows "text_of_trace (printed m) = ''Task finished'' @ [CHR 0x0A]" "exit_code m = Some 0"
proof -
  note reach = assms(1) [unfolded asyncscheduler_ops_def] and final = submitting_stuck [OF assms [unfolded asyncscheduler_ops_def]]
  obtain ps where ps: "printed m = ps" "by_writer None ps = []" "by_writer (Some 0) ps = [''Task finished'' @ [CHR 0x0A]]"
      "fst ` set ps \<subseteq> {Some 0}"
    using submitting_ends(2) [OF reach final] by auto
  have "fst p = Some 0" if "p \<in> set ps" for p using ps(4) that by auto
  then have "filter (\<lambda>p. fst p = Some 0) ps = ps" by simp
  then have "map snd ps = [''Task finished'' @ [CHR 0x0A]]" using ps(3) by (simp add: by_writer_def)
  then show "text_of_trace (printed m) = ''Task finished'' @ [CHR 0x0A]" using ps(1) by (simp add: text_of_trace_def)
  show "exit_code m = Some 0" by (rule submitting_ends(1) [OF reach final])
qed

text \<open>
  No run of these programs goes on for ever. With the task of the class that is commented out in the last program, it would
  never return.
\<close>

theorem task_programs_end:
  assumes "ops \<in> {taskgroup_ops, asyncscheduler_ops}" "run 0 = started ops"
  shows "\<exists>i. \<not> pool_step (Suc n) (run i) (run (Suc i))"
proof (rule ccontr)
  assume "\<not> (\<exists>i. \<not> pool_step (Suc n) (run i) (run (Suc i)))"
  then have "pool_step (Suc n) (run i) (run (Suc i))" for i by blast
  moreover have "pool_inv (run 0)"
    using assms started_inv good_submitting by (auto simp: taskgroup_ops_def asyncscheduler_ops_def)
  ultimately show False using pool.no_endless_run [of run n] by blast
qed

theorem task_programs_end_witness: "\<exists>i. \<not> pool_step (Suc 9) (started taskgroup_ops) (started taskgroup_ops)"
  using task_programs_end [of taskgroup_ops "\<lambda>i. started taskgroup_ops" 9] by simp

lemma MyTask_never_returns:
  assumes "(pool_step workers)\<^sup>*\<^sup>* (started MyTask_ops) m"
  shows "exit_code m = None"
proof -
  have "exit_code m = None \<and> idle m \<and> (\<exists>k < 4. main_ops m = drop k MyTask_ops)"
    using assms
  proof (induction rule: rtranclp_induct)
    case base
    then show ?case by (auto simp: started_def idle_def intro!: exI [of _ 0])
  next
    case (step m m')
    then obtain k where k: "k < 4" "main_ops m = drop k MyTask_ops" by blast
    then consider "k = 0" | "k = 1" | "k = 2" | "k = 3" by linarith
    then show ?case
      using step.hyps(2) step.IH k(2)
      by cases (erule pool_step.cases; auto simp: MyTask_ops_def idle_def numeral_2_eq_2 numeral_3_eq_3
          intro: exI [of _ 1] exI [of _ 2] exI [of _ 3])+
  qed
  then show ?thesis ..
qed

text \<open>A run of the task group in which the first two lines are mixed.\<close>

lemma lines_may_mix:
  "\<exists>m. (pool_step 10)\<^sup>*\<^sup>* (started taskgroup_ops) m \<and> text_of_trace (printed m) = ''Task Task 01''"
proof -
  obtain ops where ops: "taskgroup_ops = Submit (Task 0) () # Submit (Task 1) () # ops"
    by (auto simp: taskgroup_ops_def submitting_def group_tasks_def upt_rec)
  let ?m0 = "started taskgroup_ops"
  let ?m1 = "?m0\<lparr>main_ops := Submit (Task 1) () # ops, tasks := [(Task 0, ())], queue := [0]\<rparr>"
  let ?m2 = "?m1\<lparr>main_ops := ops, tasks := [(Task 0, ()), (Task 1, ())], queue := [0, 1]\<rparr>"
  let ?m3 = "?m2\<lparr>queue := [1], running := [(0, Task 0)]\<rparr>"
  let ?m4 = "?m2\<lparr>queue := [], running := [(0, Task 0), (1, Task 1)]\<rparr>"
  let ?m5 = "?m4\<lparr>running := [(0, tl (Task 0)), (1, Task 1)], printed := [(Some 0, ''Task '')]\<rparr>"
  let ?m6 = "?m4\<lparr>running := [(0, tl (Task 0)), (1, tl (Task 1))], printed := [(Some 0, ''Task ''), (Some 1, ''Task '')]\<rparr>"
  let ?m7 = "?m4\<lparr>running := [(0, tl (tl (Task 0))), (1, tl (Task 1))], printed := [(Some 0, ''Task ''), (Some 1, ''Task ''), (Some 0, ''0'')]\<rparr>"
  let ?m8 = "?m4\<lparr>running := [(0, tl (tl (Task 0))), (1, tl (tl (Task 1)))],
    printed := [(Some 0, ''Task ''), (Some 1, ''Task ''), (Some 0, ''0''), (Some 1, ''1'')]\<rparr>"
  have d: "dec_nat 0 = ''0''" "dec_nat (Suc 0) = ''1''" by (simp_all add: dec_nat.simps)
  have "pool_step 10 ?m0 ?m1"
    using pool_step.submit [of ?m0 "Task 0" "()" "Submit (Task 1) () # ops" 10] by (simp add: ops started_def)
  moreover have "pool_step 10 ?m1 ?m2" using pool_step.submit [of ?m1 "Task 1" "()" ops 10] by (simp add: started_def)
  moreover have "pool_step 10 ?m2 ?m3" using pool_step.start [of ?m2 0 "[1]" 10] by (simp add: started_def)
  moreover have "pool_step 10 ?m3 ?m4" using pool_step.start [of ?m3 1 "[]" 10] by (simp add: started_def)
  moreover have "pool_step 10 ?m4 ?m5"
    using pool_step.work [of ?m4 "[]" 0 "''Task ''" "tl (Task 0)" "[(1, Task 1)]" 10] by (simp add: started_def Task_def)
  moreover have "pool_step 10 ?m5 ?m6"
    using pool_step.work [of ?m5 "[(0, tl (Task 0))]" 1 "''Task ''" "tl (Task 1)" "[]" 10] by (simp add: started_def Task_def)
  moreover have "pool_step 10 ?m6 ?m7"
    using pool_step.work [of ?m6 "[]" 0 "''0''" "tl (tl (Task 0))" "[(1, tl (Task 1))]" 10] by (simp add: started_def Task_def d)
  moreover have "pool_step 10 ?m7 ?m8"
    using pool_step.work [of ?m7 "[(0, tl (tl (Task 0)))]" 1 "''1''" "tl (tl (Task 1))" "[]" 10] by (simp add: started_def Task_def d)
  ultimately have "(pool_step 10)\<^sup>*\<^sup>* ?m0 ?m8" by (meson converse_rtranclp_into_rtranclp rtranclp.rtrancl_refl)
  then show ?thesis by (intro exI [of _ ?m8]) (simp add: text_of_trace_def)
qed

end
