(* ===== verification/Stdexec_Senders.thy ===== *)
theory Stdexec_Senders
  imports Interleaving
begin

text \<open>
  \<open>src/stdexec\<close>: chains of senders waited for by the main thread, and a run loop driven by a thread that is told to stop when
  \<open>main\<close> returns. The library of senders and its run loop are parameters; threads, stop tokens and stop callbacks are those of
  the C++ standard library.
\<close>

section \<open>Chains of senders\<close>

text \<open>The values the programs send; \<open>None\<close> in a result is a sender that was stopped.\<close>

datatype sent = Unit_sent | Int_sent int | Ints_sent "int list"

record ('sender, 'w) sender_api =
  just :: "sent \<Rightarrow> 'sender"
  schedule_on_pool :: "nat \<Rightarrow> 'sender"
  after_that :: "'sender \<Rightarrow> (sent \<Rightarrow> 'w \<Rightarrow> sent \<times> 'w) \<Rightarrow> 'sender"
  let_value :: "'sender \<Rightarrow> (sent \<Rightarrow> 'sender) \<Rightarrow> 'sender"
  sync_wait :: "'sender \<Rightarrow> 'w \<Rightarrow> sent option \<times> 'w"

text \<open>What the library documents. A pool may be stopped; then nothing is sent, and nothing later in the chain runs.\<close>

definition sender_laws :: "('sender, 'w) sender_api \<Rightarrow> bool" where
  "sender_laws S \<longleftrightarrow>
     (\<forall>v w. sync_wait S (just S v) w = (Some v, w)) \<and>
     (\<forall>n w. sync_wait S (schedule_on_pool S n) w \<in> {(Some Unit_sent, w), (None, w)}) \<and>
     (\<forall>s f w. sync_wait S (after_that S s f) w =
        (case sync_wait S s w of (None, w) \<Rightarrow> (None, w) | (Some v, w) \<Rightarrow> (case f v w of (u, w) \<Rightarrow> (Some u, w)))) \<and>
     (\<forall>s f w. sync_wait S (let_value S s f) w =
        (case sync_wait S s w of (None, w) \<Rightarrow> (None, w) | (Some v, w) \<Rightarrow> sync_wait S (f v) w))"

lemma sender_lawsD:
  assumes "sender_laws S"
  shows "sync_wait S (just S v) w = (Some v, w)"
    "sync_wait S (schedule_on_pool S n) w \<in> {(Some Unit_sent, w), (None, w)}"
    "sync_wait S (after_that S s f) w =
        (case sync_wait S s w of (None, w) \<Rightarrow> (None, w) | (Some v, w) \<Rightarrow> (case f v w of (u, w) \<Rightarrow> (Some u, w)))"
    "sync_wait S (let_value S s g) w =
        (case sync_wait S s w of (None, w) \<Rightarrow> (None, w) | (Some v, w) \<Rightarrow> sync_wait S (g v) w)"
  using assms by (simp_all add: sender_laws_def)

text \<open>The state is the text on \<open>cout\<close>.\<close>

definition say_hi :: "sent \<Rightarrow> string \<Rightarrow> sent \<times> string" where
  "say_hi v out = (Int_sent 13, out @ ''Hello world! Have an int.'')"

fun add_42 :: "sent \<Rightarrow> string \<Rightarrow> sent \<times> string" where
  "add_42 (Int_sent arg) out = (Int_sent (arg + 42), out)"
| "add_42 v out = (v, out)"

definition main_hello :: "('sender, string) sender_api \<Rightarrow> string \<Rightarrow> nat \<times> string" where
  "main_hello S out =
     (let start_sender = schedule_on_pool S 3; hi = after_that S start_sender say_hi; add_42_sender = after_that S hi add_42 in
      case sync_wait S add_42_sender out of
        (Some (Int_sent i), out) \<Rightarrow> (0, out @ dec_int i @ [CHR 0x0A])
      | (_, out) \<Rightarrow> (0, out))"

text \<open>The first element of an empty vector would be undefined; the vector here has three.\<close>

fun set_total :: "('sender, string) sender_api \<Rightarrow> sent \<Rightarrow> 'sender" where
  "set_total S (Ints_sent totals) = just S (Ints_sent (totals[0 := 100]))"
| "set_total S v = just S v"

definition main_let_value :: "('sender, string) sender_api \<Rightarrow> string \<Rightarrow> nat \<times> string" where
  "main_let_value S out =
     (case sync_wait S (let_value S (just S (Ints_sent [1, 2, 3])) (set_total S)) out of
        (Some (Ints_sent value), out) \<Rightarrow>
          (0, out @ dec_int (value ! 0) @ [CHR 0x0A] @ dec_int (value ! 1) @ [CHR 0x0A] @ dec_int (value ! 2) @ [CHR 0x0A])
      | (_, out) \<Rightarrow> (0, out))"

text \<open>The change of the first element is printed; and the chain on the pool prints greeting and sum, or nothing at all.\<close>

theorem sender_chains_print:
  assumes "sender_laws S"
  shows "main_let_value S out = (0, out @ ''100'' @ [CHR 0x0A] @ ''2'' @ [CHR 0x0A] @ ''3'' @ [CHR 0x0A]) \<and>
    main_hello S out \<in> {(0, out @ ''Hello world! Have an int.55'' @ [CHR 0x0A]), (0, out)}"
proof -
  note L = sender_lawsD [OF assms]
  have d: "dec_int 100 = ''100''" "dec_int 2 = ''2''" "dec_int 3 = ''3''" "dec_int 55 = ''55''"
    by (simp_all add: dec_int_def dec_nat.simps)
  have "main_hello S out \<in> {(0, out @ ''Hello world! Have an int.55'' @ [CHR 0x0A]), (0, out)}"
    using L(2) [of 3 out] by (auto simp: main_hello_def Let_def L(3) say_hi_def d)
  moreover have "main_let_value S out = (0, out @ ''100'' @ [CHR 0x0A] @ ''2'' @ [CHR 0x0A] @ ''3'' @ [CHR 0x0A])"
    by (simp add: main_let_value_def L(4) L(1) d)
  ultimately show ?thesis by blast
qed

text \<open>Senders as functions of the state.\<close>

definition sample_senders :: "(string \<Rightarrow> sent option \<times> string, string) sender_api" where
  "sample_senders = \<lparr>just = (\<lambda>v w. (Some v, w)), schedule_on_pool = (\<lambda>n w. (Some Unit_sent, w)),
     after_that = (\<lambda>s f w. case s w of (None, w) \<Rightarrow> (None, w) | (Some v, w) \<Rightarrow> (case f v w of (u, w) \<Rightarrow> (Some u, w))),
     let_value = (\<lambda>s f w. case s w of (None, w) \<Rightarrow> (None, w) | (Some v, w) \<Rightarrow> f v w), sync_wait = (\<lambda>s w. s w)\<rparr>"

theorem sender_chains_print_witness:
  "main_let_value sample_senders [] = (0, ''100'' @ [CHR 0x0A] @ ''2'' @ [CHR 0x0A] @ ''3'' @ [CHR 0x0A])"
proof -
  have "sender_laws sample_senders" by (auto simp: sender_laws_def sample_senders_def split: prod.splits option.splits)
  from sender_chains_print [OF this, of "[]"] show ?thesis by simp
qed

section \<open>A thread that runs a loop\<close>

text \<open>
  \<open>stdexec::run_loop\<close> is not in the repository: its constructor, the start of an operation on its scheduler, \<open>finish\<close>, and
  what \<open>run\<close> finds when it looks for work are parameters. The laws are those of its documentation: \<open>run\<close> takes an operation if
  there is one, returns if there is none and \<open>finish\<close> has been called, and waits otherwise.
\<close>

datatype found = Operation | Finished | Nothing_yet

record 'l run_loop_api =
  new_loop :: "'l"
  start_operation :: "'l \<Rightarrow> 'l"
  finish :: "'l \<Rightarrow> 'l"
  look_for_work :: "'l \<Rightarrow> found \<times> 'l"

definition run_loop_laws :: "'l run_loop_api \<Rightarrow> ('l \<Rightarrow> nat) \<Rightarrow> ('l \<Rightarrow> bool) \<Rightarrow> bool" where
  "run_loop_laws L waiting finishing \<longleftrightarrow>
     waiting (new_loop L) = 0 \<and> \<not> finishing (new_loop L) \<and>
     (\<forall>l. waiting (start_operation L l) = Suc (waiting l) \<and> finishing (start_operation L l) = finishing l) \<and>
     (\<forall>l. waiting (finish L l) = waiting l \<and> finishing (finish L l)) \<and>
     (\<forall>l. case look_for_work L l of
        (Operation, l') \<Rightarrow> waiting l = Suc (waiting l') \<and> finishing l' = finishing l
      | (Finished, l') \<Rightarrow> waiting l = 0 \<and> finishing l
      | (Nothing_yet, l') \<Rightarrow> waiting l = 0 \<and> \<not> finishing l)"

lemma run_loop_lawsD:
  assumes "run_loop_laws L waiting finishing"
  shows "waiting (new_loop L) = 0" "\<not> finishing (new_loop L)"
    "waiting (start_operation L l) = Suc (waiting l)" "finishing (start_operation L l) = finishing l"
    "waiting (finish L l) = waiting l" "finishing (finish L l)"
    "look_for_work L l = (Operation, l') \<Longrightarrow> waiting l = Suc (waiting l') \<and> finishing l' = finishing l"
    "look_for_work L l = (Finished, l') \<Longrightarrow> waiting l = 0 \<and> finishing l"
    "look_for_work L l = (Nothing_yet, l') \<Longrightarrow> waiting l = 0 \<and> \<not> finishing l"
  using assms unfolding run_loop_laws_def by (auto dest!: spec [of _ l] split: prod.splits)

lemma finds_work:
  assumes "run_loop_laws L waiting finishing"
  shows "0 < waiting l \<Longrightarrow> \<exists>l'. look_for_work L l = (Operation, l')"
    "waiting l = 0 \<Longrightarrow> finishing l \<Longrightarrow> \<exists>l'. look_for_work L l = (Finished, l')"
  using run_loop_lawsD(7-9) [OF assms, of l] by (cases "look_for_work L l"; cases "fst (look_for_work L l)"; fastforce)+

datatype main_at = Submitting | Waiting | Leaving nat | Joining nat | Exited nat

datatype worker_at = Starting | Looping | Stopped

text \<open>
  \<open>sent_result\<close> is what the work has completed with, for \<open>sync_wait\<close>; \<open>callback_set\<close>: the worker has constructed the callback.
\<close>

record 'l loop_state =
  main_thread :: main_at
  worker :: worker_at
  the_loop :: 'l
  sent_result :: "int option"
  stop_requested :: bool
  callback_set :: bool
  loop_output :: "bool trace"

definition loop_started :: "'l run_loop_api \<Rightarrow> 'l loop_state" where
  "loop_started L = \<lparr>main_thread = Submitting, worker = Starting, the_loop = new_loop L, sent_result = None,
     stop_requested = False, callback_set = False, loop_output = []\<rparr>"

text \<open>What \<open>print\<close> does with the text: \<open>puts\<close>, which adds the newline, and the value it returns.\<close>

definition print_work :: "string \<Rightarrow> string \<times> int" where
  "print_work msg = (msg @ [CHR 0x0A], 0)"

text \<open>
  The main thread starts the work on the loop, waits for its result, and then leaves its block: the destructor of the thread
  requests the stop, which calls the callback if it has been set, and joins. The worker sets the callback, which is called at
  once if the stop has been requested, and then runs the loop until that returns, and with it destroys the callback.
  Writers are True for the worker.
\<close>

inductive loop_step :: "'l run_loop_api \<Rightarrow> 'l loop_state \<Rightarrow> 'l loop_state \<Rightarrow> bool" for L where
  submit: "main_thread s = Submitting \<Longrightarrow> loop_step L s (s\<lparr>main_thread := Waiting, the_loop := start_operation L (the_loop s)\<rparr>)"
| got: "main_thread s = Waiting \<Longrightarrow> sent_result s = Some r \<Longrightarrow> loop_step L s (s\<lparr>main_thread := Leaving (nat r)\<rparr>)"
| stop: "main_thread s = Leaving r \<Longrightarrow> loop_step L s (s\<lparr>main_thread := Joining r, stop_requested := True,
      the_loop := if callback_set s then finish L (the_loop s) else the_loop s\<rparr>)"
| join: "main_thread s = Joining r \<Longrightarrow> worker s = Stopped \<Longrightarrow> loop_step L s (s\<lparr>main_thread := Exited r\<rparr>)"
| set_callback: "worker s = Starting \<Longrightarrow> loop_step L s (s\<lparr>worker := Looping, callback_set := True,
      the_loop := if stop_requested s then finish L (the_loop s) else the_loop s\<rparr>)"
| execute: "worker s = Looping \<Longrightarrow> look_for_work L (the_loop s) = (Operation, l) \<Longrightarrow> print_work ''hello world'' = (text_of, r) \<Longrightarrow>
    loop_step L s (s\<lparr>the_loop := l, sent_result := Some r, loop_output := loop_output s @ [(True, text_of)]\<rparr>)"
| end_loop: "worker s = Looping \<Longrightarrow> look_for_work L (the_loop s) = (Finished, l) \<Longrightarrow>
    loop_step L s (s\<lparr>worker := Stopped, callback_set := False, the_loop := l\<rparr>)"

definition has_exited :: "'l loop_state \<Rightarrow> bool" where
  "has_exited s \<longleftrightarrow> (\<exists>r. main_thread s = Exited r)"

definition greeting :: "bool trace" where
  "greeting = [(True, ''hello world'' @ [CHR 0x0A])]"

text \<open>Where the two threads can be at the same time.\<close>

definition loop_inv :: "('l \<Rightarrow> nat) \<Rightarrow> ('l \<Rightarrow> bool) \<Rightarrow> 'l loop_state \<Rightarrow> bool" where
  "loop_inv waiting finishing s \<longleftrightarrow>
     (case main_thread s of
        Submitting \<Rightarrow> waiting (the_loop s) = 0 \<and> sent_result s = None \<and> loop_output s = [] \<and> \<not> stop_requested s \<and>
          \<not> finishing (the_loop s) \<and> worker s \<noteq> Stopped
      | Waiting \<Rightarrow> \<not> stop_requested s \<and> \<not> finishing (the_loop s) \<and> worker s \<noteq> Stopped \<and>
          (waiting (the_loop s) = 1 \<and> sent_result s = None \<and> loop_output s = [] \<or>
           waiting (the_loop s) = 0 \<and> sent_result s = Some 0 \<and> loop_output s = greeting \<and> worker s = Looping)
      | Leaving r \<Rightarrow> r = 0 \<and> waiting (the_loop s) = 0 \<and> loop_output s = greeting \<and> worker s = Looping \<and> \<not> stop_requested s \<and>
          \<not> finishing (the_loop s)
      | Joining r \<Rightarrow> r = 0 \<and> loop_output s = greeting \<and> worker s \<noteq> Starting \<and>
          (worker s = Looping \<longrightarrow> waiting (the_loop s) = 0 \<and> finishing (the_loop s))
      | Exited r \<Rightarrow> r = 0 \<and> loop_output s = greeting \<and> worker s = Stopped) \<and>
     (callback_set s \<longleftrightarrow> worker s = Looping)"

definition loop_size :: "('l \<Rightarrow> nat) \<Rightarrow> 'l loop_state \<Rightarrow> nat" where
  "loop_size waiting s =
     (case main_thread s of Submitting \<Rightarrow> 6 | Waiting \<Rightarrow> 4 | Leaving r \<Rightarrow> 3 | Joining r \<Rightarrow> 1 | Exited r \<Rightarrow> 0) +
     (case worker s of Starting \<Rightarrow> 2 + waiting (the_loop s) | Looping \<Rightarrow> 1 + waiting (the_loop s) | Stopped \<Rightarrow> 0)"

lemma loop_step_inv:
  assumes L: "run_loop_laws L waiting finishing" and inv: "loop_inv waiting finishing s" and step: "loop_step L s t"
  shows "loop_inv waiting finishing t"
proof -
  note D = run_loop_lawsD [OF L]
  show ?thesis
    using step
  proof (cases rule: loop_step.cases)
    case (execute l text_of r)
    then show ?thesis using inv D(7) [OF execute(3)] by (auto simp: loop_inv_def print_work_def greeting_def split: main_at.splits)
  next
    case (end_loop l)
    then show ?thesis using inv D(8) [OF end_loop(3)] by (auto simp: loop_inv_def split: main_at.splits)
  qed (use inv in \<open>auto simp: loop_inv_def D split: main_at.splits\<close>)
qed

lemma loop_step_smaller:
  assumes L: "run_loop_laws L waiting finishing" and inv: "loop_inv waiting finishing s" and step: "loop_step L s t"
  shows "loop_size waiting t < loop_size waiting s"
proof -
  note D = run_loop_lawsD [OF L]
  show ?thesis
    using step
  proof (cases rule: loop_step.cases)
    case (execute l text_of r)
    then show ?thesis using D(7) [OF execute(3)] by (simp add: loop_size_def)
  qed (use inv in \<open>auto simp: loop_size_def loop_inv_def D split: worker_at.splits\<close>)
qed

lemma loop_progress:
  assumes L: "run_loop_laws L waiting finishing" and "loop_inv waiting finishing s" "\<not> has_exited s"
  shows "\<exists>t. loop_step L s t"
proof (cases "worker s")
  case Starting
  then show ?thesis using loop_step.set_callback by blast
next
  case Looping
  show ?thesis
  proof (cases "0 < waiting (the_loop s)")
    case True
    then show ?thesis using finds_work(1) [OF L True] Looping loop_step.execute [of s L] by (fastforce simp: print_work_def)
  next
    case False
    then show ?thesis
      using assms Looping finds_work(2) [OF L, of "the_loop s"]
      by (cases "main_thread s") (auto simp: loop_inv_def has_exited_def intro: loop_step.intros)
  qed
next
  case Stopped
  then show ?thesis
    using assms by (cases "main_thread s") (auto simp: loop_inv_def has_exited_def intro: loop_step.intros)
qed

lemma exited_is_stuck: "loop_inv waiting finishing s \<Longrightarrow> has_exited s \<Longrightarrow> \<not> loop_step L s t"
  by (auto simp: has_exited_def loop_inv_def elim!: loop_step.cases)

text \<open>For every loop with these laws the program is a system that comes to an end.\<close>

lemma run_loop_system:
  assumes L: "run_loop_laws L waiting finishing"
  shows "started_system (loop_step L) (loop_inv waiting finishing) (loop_size waiting) has_exited (loop_started L)"
proof unfold_locales
  show "loop_inv waiting finishing (loop_started L)"
    using run_loop_lawsD(1,2) [OF L] by (simp add: loop_inv_def loop_started_def)
qed (fact loop_step_inv [OF L] loop_step_smaller [OF L] loop_progress [OF L] exited_is_stuck)+

text \<open>
  C38: with a loop that keeps its laws and however the two threads interleave, no run goes on for ever, and one that can go no
  further has printed the greeting once, from the worker, has joined the worker and returned 0; no stop is lost.
\<close>

theorem run_loop_program_ends:
  assumes "run_loop_laws L waiting finishing"
  shows "\<not> (\<exists>run. run 0 = loop_started L \<and> (\<forall>i. loop_step L (run i) (run (Suc i)))) \<and>
    (\<forall>s. (loop_step L)\<^sup>*\<^sup>* (loop_started L) s \<and> (\<nexists>t. loop_step L s t) \<longrightarrow>
       main_thread s = Exited 0 \<and> worker s = Stopped \<and> loop_output s = [(True, ''hello world'' @ [CHR 0x0A])])"
proof -
  note system = run_loop_system [OF assms]
  show ?thesis
    using started_system.run_is_finite [OF system] started_system.stuck_run [OF system]
    by (fastforce simp: has_exited_def loop_inv_def greeting_def)
qed

text \<open>A loop that counts its operations.\<close>

definition counting_loop :: "(nat \<times> bool) run_loop_api" where
  "counting_loop = \<lparr>new_loop = (0, False), start_operation = (\<lambda>(n, e). (Suc n, e)), finish = (\<lambda>(n, e). (n, True)),
     look_for_work = (\<lambda>(n, e). case n of Suc m \<Rightarrow> (Operation, m, e) | 0 \<Rightarrow> (if e then Finished else Nothing_yet, n, e))\<rparr>"

lemma counting_loop_laws: "run_loop_laws counting_loop fst snd"
  by (auto simp: run_loop_laws_def counting_loop_def split: nat.splits)

theorem run_loop_program_ends_witness:
  "\<exists>s. (loop_step counting_loop)\<^sup>*\<^sup>* (loop_started counting_loop) s \<and> main_thread s = Exited 0 \<and>
     loop_output s = [(True, ''hello world'' @ [CHR 0x0A])]"
proof -
  obtain s where "(loop_step counting_loop)\<^sup>*\<^sup>* (loop_started counting_loop) s" "\<forall>t. \<not> loop_step counting_loop s t"
    using started_system.run_ends [OF run_loop_system [OF counting_loop_laws]] by blast
  with run_loop_program_ends [OF counting_loop_laws] show ?thesis by blast
qed

end
