(* ===== verification/Oatpp_App.thy ===== *)
theory Oatpp_App
  imports Prelude
begin

text \<open>
  \<open>src/oatpp\<close>: HTTP servers made with oatpp, from a server without routes to one assembled from components. oatpp is a parameter:
  how a connection handler answers a request from the routes of its router, and how its mapper writes an object as JSON.
\<close>

section \<open>Requests, responses and messages\<close>

record request =
  request_method :: string
  request_path :: string

record response =
  status_code :: nat
  response_body :: string

type_synonym endpoint = "request \<Rightarrow> response"



section \<open>The objects of a server\<close>

text \<open>
  Routers are shared: the objects that refer to one refer to its place in the list, and routes added later are seen by
  all of them. A component is registered under its type.
\<close>

record route =
  route_method :: string
  route_path :: string
  route_endpoint :: endpoint

datatype component = ConnectionProvider string nat | Router nat | ConnectionHandler nat | ObjectMapper

datatype component_type = Provider_type | Router_type | Handler_type | Mapper_type


record server =
  server_host :: string
  server_port :: nat
  server_router :: nat

record app =
  routers :: "route list list"
  components :: "component list"
  log :: string

text \<open>Failing is the exception of \<open>OATPP_COMPONENT\<close> when no component of the type has been registered.\<close>

type_synonym 'x app_action = "(app, component_type, 'x) action"

definition new_router :: "nat app_action" where
  "new_router a = (Inr (length (routers a)), a\<lparr>routers := routers a @ [[]]\<rparr>)"




definition OATPP_LOGI :: "string \<Rightarrow> string \<Rightarrow> unit app_action" where
  "OATPP_LOGI tag s = modify (\<lambda>a. a\<lparr>log := log a @ tag @ '': '' @ s @ [CHR 0x0A]\<rparr>)"

section \<open>The first three servers\<close>

definition run_start :: "server app_action" where
  "run_start =
     seq new_router (\<lambda>router.
     seq (OATPP_LOGI ''MyAPP'' (''server running on port '' @ dec_nat 8000)) (\<lambda>_.
     ret \<lparr>server_host = ''localhost'', server_port = 8000, server_router = router\<rparr>))"






section \<open>The server made of components\<close>












section \<open>What the servers answer\<close>



definition started :: "server app_action \<Rightarrow> (server \<times> app) option" where
  "started run =
     (case run \<lparr>routers = [], components = [], log = []\<rparr> of (Inl ty, a) \<Rightarrow> None | (Inr s, a) \<Rightarrow> Some (s, a))"

definition served :: "(route list \<Rightarrow> request \<Rightarrow> response) \<Rightarrow> server app_action \<Rightarrow> request \<Rightarrow> response option" where
  "served answer run q = map_option (\<lambda>(s, a). answer (routers a ! server_router s) q) (started run)"





lemma served_start: "served answer run_start q = Some (answer [] q)"
  by (simp add: served_def started_def run_start_def seq_def new_router_def OATPP_LOGI_def)







section \<open>A library to evaluate on\<close>








end
