(* ===== verification/Thrift_Calc.thy ===== *)
theory Thrift_Calc
  imports Prelude
begin

text \<open>
  \<open>src/thrift\<close>: a calculator service and a client of it. The generated code, transports and protocols of Thrift are
  parameters.
\<close>

section \<open>The service\<close>

text \<open>\<open>CalcServiceImpl::add\<close>: the overflow of a signed addition is undefined behaviour, \<open>None\<close>.\<close>

definition add :: "32 word \<Rightarrow> 32 word \<Rightarrow> 32 word option" where
  "add num1 num2 =
     (let s = sint num1 + sint num2 in if - (2 ^ 31) \<le> s \<and> s < 2 ^ 31 then Some (num1 + num2) else None)"

lemma add_exact: "add num1 num2 = Some r \<Longrightarrow> sint r = sint num1 + sint num2"
  by (auto simp: add_def Let_def signed_take_bit_int_eq_self sint_word_ariths split: if_splits)

lemma add_defined: "(\<exists>r. add num1 num2 = Some r) \<longleftrightarrow> - (2 ^ 31) \<le> sint num1 + sint num2 \<and> sint num1 + sint num2 < 2 ^ 31"
  by (simp add: add_def Let_def)

text \<open>
  What a client of the interface relies on: an addition that does not overflow has the exact sum as its result.
\<close>

locale calculator =
  fixes calc :: "32 word \<Rightarrow> 32 word \<Rightarrow> 32 word option"
  assumes exact: "- (2 ^ 31) \<le> sint a + sint b \<Longrightarrow> sint a + sint b < 2 ^ 31 \<Longrightarrow> \<exists>r. calc a b = Some r \<and> sint r = sint a + sint b"
begin

lemma value_of_sum:
  assumes "calc a b = Some r" "sint a + sint b = s" "- (2 ^ 31) \<le> s" "s < 2 ^ 31"
  shows "sint r = s"
  using exact [of a b] assms by auto

lemma commutes: "- (2 ^ 31) \<le> sint a + sint b \<Longrightarrow> sint a + sint b < 2 ^ 31 \<Longrightarrow> calc a b = calc b a"
  using exact [of a b] exact [of b a] by (auto simp: add.commute) (metis signed_word_eqI)

end

interpretation calc_service: calculator add
  by unfold_locales (use add_defined add_exact in blast)

text \<open>\<open>main\<close> of the server: \<open>serve port handler\<close> is \<open>TSimpleServer::serve\<close>, \<open>None\<close> if it does not return.\<close>

definition main_thrift_server ::
  "(nat \<Rightarrow> (32 word \<Rightarrow> 32 word \<Rightarrow> 32 word option) \<Rightarrow> 'w \<Rightarrow> 'w option) \<Rightarrow> 'w \<Rightarrow> (nat \<times> 'w) option" where
  "main_thrift_server serve w = (case serve 9090 add w of None \<Rightarrow> None | Some w \<Rightarrow> Some (0, w))"

section \<open>The client\<close>

text \<open>The transport, with the text of the \<open>TException\<close> if a call throws.\<close>

record 'w thrift_api =
  open_transport :: "string \<Rightarrow> nat \<Rightarrow> 'w \<Rightarrow> (string + unit) \<times> 'w"
  call_add :: "32 word \<Rightarrow> 32 word \<Rightarrow> 'w \<Rightarrow> (string + 32 word) \<times> 'w"
  close_transport :: "'w \<Rightarrow> (string + unit) \<times> 'w"

record 'w client_state =
  network :: 'w
  screen :: string

definition on_network :: "('w \<Rightarrow> (string + 'x) \<times> 'w) \<Rightarrow> ('w client_state, string, 'x) action" where
  "on_network f c = (case f (network c) of (r, w) \<Rightarrow> (r, c\<lparr>network := w\<rparr>))"

definition show_text :: "string \<Rightarrow> ('w client_state, string, unit) action" where
  "show_text s = modify (\<lambda>c. c\<lparr>screen := screen c @ s\<rparr>)"

definition try_block :: "'w thrift_api \<Rightarrow> ('w client_state, string, unit) action" where
  "try_block T =
     seq (on_network (open_transport T ''127.0.0.1'' 9090)) (\<lambda>_.
     seq (on_network (call_add T 3 4)) (\<lambda>result.
     seq (show_text (''Result: '' @ dec_int (sint result) @ [CHR 0x0A])) (\<lambda>_.
     on_network (close_transport T))))"

definition main_thrift_client :: "'w thrift_api \<Rightarrow> 'w client_state \<Rightarrow> nat \<times> 'w client_state" where
  "main_thrift_client T c =
     (case try_block T c of
        (Inr _, c) \<Rightarrow> (0, c)
      | (Inl tx, c) \<Rightarrow> (0, c\<lparr>screen := screen c @ ''ERROR: '' @ tx @ [CHR 0x0A]\<rparr>))"

text \<open>A call that returns has the result the service computes.\<close>

definition calls_service :: "'w thrift_api \<Rightarrow> (32 word \<Rightarrow> 32 word \<Rightarrow> 32 word option) \<Rightarrow> bool" where
  "calls_service T calc \<longleftrightarrow> (\<forall>a b w r w'. call_add T a b w = (Inr r, w') \<longrightarrow> calc a b = Some r)"

text \<open>
  The client always returns 0. What it has shown is the sum 7, or the error of the call that failed, or both, when only
  closing the connection failed.
\<close>

theorem client_shows_sum_or_error:
  assumes "calls_service T add" "main_thrift_client T c = (code, c')"
  shows "code = 0 \<and>
    (\<exists>tx. screen c' = screen c @ ''Result: 7'' @ [CHR 0x0A] \<or> screen c' = screen c @ ''ERROR: '' @ tx @ [CHR 0x0A] \<or>
      screen c' = screen c @ ''Result: 7'' @ [CHR 0x0A] @ ''ERROR: '' @ tx @ [CHR 0x0A])"
proof -
  have seven: "sint r = 7" if "call_add T 3 4 w = (Inr r, w')" for r w w'
  proof -
    have "add 3 4 = Some r" using assms(1) that unfolding calls_service_def by blast
    then show ?thesis using calc_service.value_of_sum [of 3 4 r 7] by simp
  qed
  have d: "dec_int 7 = ''7''" by (simp add: dec_int_def dec_nat.simps)
  show ?thesis
  proof (cases "open_transport T ''127.0.0.1'' 9090 (network c)")
    case o: (Pair r1 w1)
    show ?thesis
    proof (cases r1)
      case (Inl tx)
      then show ?thesis using assms(2) o by (auto simp: main_thrift_client_def try_block_def on_network_def)
    next
      case i1: (Inr u)
      show ?thesis
      proof (cases "call_add T 3 4 w1")
        case a: (Pair r2 w2)
        show ?thesis
        proof (cases r2)
          case (Inl tx)
          then show ?thesis using assms(2) o i1 a by (auto simp: main_thrift_client_def try_block_def on_network_def)
        next
          case i2: (Inr r)
          have s: "sint r = 7" using seven [of w1 r w2] a i2 by simp
          show ?thesis
            using assms(2) o i1 a i2 s d
            by (cases "close_transport T w2"; cases "fst (close_transport T w2)")
              (auto simp: main_thrift_client_def try_block_def on_network_def show_text_def)
        qed
      qed
    qed
  qed
qed

definition sample_thrift :: "bool thrift_api" where
  "sample_thrift = \<lparr>open_transport = (\<lambda>a p w. (Inr (), True)),
     call_add = (\<lambda>a b w. (case add a b of None \<Rightarrow> Inl ''overflow'' | Some r \<Rightarrow> Inr r, w)),
     close_transport = (\<lambda>w. (Inr (), False))\<rparr>"

theorem client_shows_sum_or_error_witness:
  "fst (main_thrift_client sample_thrift \<lparr>network = False, screen = []\<rparr>) = 0"
proof -
  have "calls_service sample_thrift add"
    by (auto simp: calls_service_def sample_thrift_def split: option.splits)
  from client_shows_sum_or_error [OF this] show ?thesis
    by (cases "main_thrift_client sample_thrift \<lparr>network = False, screen = []\<rparr>") auto
qed

end
