(* ===== verification/Brpc_Echo.thy ===== *)
theory Brpc_Echo
  imports Prelude "HOL-Library.Multiset" "HOL-Library.Signed_Division"
begin

text \<open>
  The echo programs of \<open>src/brpc/echo\<close>: the server, the server with coroutines and the client.
  brpc is a parameter: a call in progress is a record \<open>rpc\<close>, and running its closure \<open>done\<close> sends
  the response as it then is. The messages are those of \<open>echo.proto\<close>, one text each.
\<close>

section \<open>Calls\<close>

text \<open>
  \<open>sent\<close> lists the responses sent, one for each time \<open>done\<close> has run; \<open>after_rpc\<close> is the callback
  set with \<open>set_after_rpc_resp_fn\<close>, which brpc calls once the response is sent.
\<close>

record rpc =
  log_id :: "64 word"
  remote_side :: string
  local_side :: string
  request :: string
  response_message :: string
  sent :: "string list"
  after_rpc :: "(string \<Rightarrow> string \<Rightarrow> string) option"
  info_log :: "string list"

definition log_info :: "string \<Rightarrow> rpc \<Rightarrow> rpc" where
  "log_info msg c = c\<lparr>info_log := info_log c @ [msg]\<rparr>"

definition set_message :: "string \<Rightarrow> rpc \<Rightarrow> rpc" where
  "set_message msg c = c\<lparr>response_message := msg\<rparr>"

definition run_done :: "rpc \<Rightarrow> rpc" where
  "run_done c =
     (let c1 = c\<lparr>sent := sent c @ [response_message c]\<rparr>
      in case after_rpc c of None \<Rightarrow> c1 | Some f \<Rightarrow> log_info (f (request c) (response_message c)) c1)"

text \<open>A \<open>ClosureGuard\<close> runs \<open>done\<close> when the function it is in ends.\<close>

definition with_guard :: "(rpc \<Rightarrow> rpc) \<Rightarrow> rpc \<Rightarrow> rpc" where
  "with_guard body c = run_done (body c)"

definition new_call :: "64 word \<Rightarrow> string \<Rightarrow> string \<Rightarrow> string \<Rightarrow> rpc" where
  "new_call i remote local msg = \<lparr>log_id = i, remote_side = remote, local_side = local, request = msg,
     response_message = [], sent = [], after_rpc = None, info_log = []\<rparr>"

section \<open>The server\<close>

text \<open>\<open>ProtoMessageToJson\<close> works on the generated messages and is an argument.\<close>

definition CallAfterRpc :: "(string \<Rightarrow> string) \<Rightarrow> string \<Rightarrow> string \<Rightarrow> string" where
  "CallAfterRpc to_json req res = ''req:'' @ to_json req @ '' resq:'' @ to_json res"

definition Echo :: "(string \<Rightarrow> string) \<Rightarrow> rpc \<Rightarrow> rpc" where
  "Echo to_json = with_guard (\<lambda>c.
     let c = c\<lparr>after_rpc := Some (CallAfterRpc to_json)\<rparr>;
         c = log_info (''Received request[log_id='' @ dec_nat (unat (log_id c)) @ ''] from '' @ remote_side c @ '' to '' @
               local_side c @ '': '' @ request c) c
     in set_message (request c) c)"

text \<open>
  What the programs ask of a \<open>brpc::Server\<close>. An endpoint is one parsed from a text or any address with
  a port; \<open>run_until_asked\<close> is \<open>RunUntilAskedToQuit\<close>.
\<close>

datatype 'p endpoint = Parsed 'p | Ip_any int

record ('w, 'p) server_api =
  add_service :: "'w \<Rightarrow> int \<times> 'w"
  str2endpoint :: "string \<Rightarrow> 'p option"
  start_server :: "'p endpoint \<Rightarrow> int \<Rightarrow> 'w \<Rightarrow> int \<times> 'w"
  run_until_asked :: "'w \<Rightarrow> 'w"

text \<open>\<open>main\<close> with the values of its flags: the code it returns, the errors it logs, and the world.\<close>

definition main_server ::
  "('w, 'p) server_api \<Rightarrow> int \<Rightarrow> string \<Rightarrow> int \<Rightarrow> 'w \<Rightarrow> int \<times> string list \<times> 'w" where
  "main_server B port listen_addr idle_timeout_s w =
     (case add_service B w of (r, w) \<Rightarrow>
      if r \<noteq> 0 then (- 1, [''Fail to add service''], w)
      else
       (case (if listen_addr \<noteq> [] then map_option Parsed (str2endpoint B listen_addr) else Some (Ip_any port)) of
          None \<Rightarrow> (- 1, [''Invalid listen address:'' @ listen_addr], w)
        | Some endpoint \<Rightarrow>
           (case start_server B endpoint idle_timeout_s w of (r, w) \<Rightarrow>
            if r \<noteq> 0 then (- 1, [''Fail to start EchoServer''], w)
            else (0, [], run_until_asked B w))))"

section \<open>The server with coroutines\<close>

text \<open>The timeout of the channel to itself: signed division truncates, and a result that is no
  \<open>int\<close> is undefined behaviour.\<close>

definition int32 :: "int \<Rightarrow> bool" where
  "int32 x \<longleftrightarrow> - (2 ^ 31) \<le> x \<and> x < 2 ^ 31"

definition channel_timeout :: "int \<Rightarrow> int option" where
  "channel_timeout sleep_us =
     (let doubled = (sleep_us sdiv 1000) * 2 in
      if int32 doubled \<and> int32 (doubled + 100) then Some (doubled + 100) else None)"

text \<open>
  \<open>EchoAsync\<close>, up to its sleep and from it on; the guard is in its frame. \<open>Echo\<close> hands the call to the
  coroutine and returns, or sleeps itself.
\<close>

datatype handled = Sleeping rpc | Finished rpc

definition EchoAsync_start :: "rpc \<Rightarrow> handled" where
  "EchoAsync_start c = Sleeping c"

definition EchoAsync_resume :: "rpc \<Rightarrow> rpc" where
  "EchoAsync_resume = with_guard (\<lambda>c. set_message (request c) c)"

definition Echo_co :: "bool \<Rightarrow> rpc \<Rightarrow> handled" where
  "Echo_co enable_coroutine c =
     (if enable_coroutine then EchoAsync_start c
      else Finished (with_guard (\<lambda>c. set_message (request c) c) c))"

text \<open>The server over time: calls come in, and sleeping ones wake in any order.\<close>

datatype co_event = Arrive rpc | Wake nat

fun co_step :: "bool \<Rightarrow> co_event \<Rightarrow> rpc list \<times> rpc list \<Rightarrow> rpc list \<times> rpc list" where
  "co_step enable (Arrive c) (sleeping, finished) =
     (case Echo_co enable c of Sleeping c' \<Rightarrow> (sleeping @ [c'], finished) | Finished c' \<Rightarrow> (sleeping, finished @ [c']))"
| "co_step enable (Wake i) (sleeping, finished) =
     (if i < length sleeping
      then (take i sleeping @ drop (Suc i) sleeping, finished @ [EchoAsync_resume (sleeping ! i)])
      else (sleeping, finished))"

definition co_serve :: "bool \<Rightarrow> co_event list \<Rightarrow> rpc list \<times> rpc list" where
  "co_serve enable evs = fold (co_step enable) evs ([], [])"

text \<open>\<open>main\<close> of the server with coroutines. \<open>channel_init\<close> has the port, the timeout and the number of
  retries, \<open>start_with_threads\<close> the port and the number of threads; the constructor of the service checks that its channel can
  be made, and aborts otherwise.\<close>

record ('w, 'p) co_api = "('w, 'p) server_api" +
  min_concurrency :: int
  set_concurrency :: "int \<Rightarrow> 'w \<Rightarrow> 'w"
  usercode_in_coroutine :: "'w \<Rightarrow> 'w"
  channel_init :: "int \<Rightarrow> int \<Rightarrow> int \<Rightarrow> 'w \<Rightarrow> int \<times> 'w"
  start_with_threads :: "int \<Rightarrow> int \<Rightarrow> 'w \<Rightarrow> int \<times> 'w"

datatype co_end = Exited int "string list" | Check_failed | Overflow

definition EchoServiceImpl :: "('w, 'p) co_api \<Rightarrow> int \<Rightarrow> int \<Rightarrow> 'w \<Rightarrow> (co_end + unit) \<times> 'w" where
  "EchoServiceImpl B port sleep_us w =
     (case channel_timeout sleep_us of
        None \<Rightarrow> (Inl Overflow, w)
      | Some timeout \<Rightarrow>
         (case channel_init B port timeout 0 w of (r, w) \<Rightarrow> (if r = 0 then Inr () else Inl Check_failed, w)))"

definition main_co_server ::
  "('w, 'p) co_api \<Rightarrow> int \<Rightarrow> int \<Rightarrow> bool \<Rightarrow> 'w \<Rightarrow> co_end \<times> 'w" where
  "main_co_server B port sleep_us enable_coroutine w =
     (let w = set_concurrency B (min_concurrency B) w;
          w = (if enable_coroutine then usercode_in_coroutine B w else w)
      in case EchoServiceImpl B port sleep_us w of
           (Inl e, w) \<Rightarrow> (e, w)
         | (Inr _, w) \<Rightarrow>
            (case add_service B w of (r, w) \<Rightarrow>
             if r \<noteq> 0 then (Exited (- 1) [''Fail to add service''], w)
             else
              (case start_with_threads B port (min_concurrency B) w of (r, w) \<Rightarrow>
               if r \<noteq> 0 then (Exited (- 1) [''Fail to start EchoServer''], w)
               else (Exited 0 [], run_until_asked B w))))"

section \<open>The client\<close>

text \<open>The flags of the client, and their values when the command line does not set them.\<close>

record client_flags =
  protocol :: string
  connection_type :: string
  server_address :: string
  load_balancer :: string
  timeout_ms :: int
  max_retry :: int
  interval_ms :: int

definition default_flags :: client_flags where
  "default_flags = \<lparr>protocol = ''h2:grpc'', connection_type = [], server_address = ''0.0.0.0:8000'',
     load_balancer = [], timeout_ms = 100, max_retry = 3, interval_ms = 1000\<rparr>"

text \<open>
  A call is answered with an error text, or with the sides of the connection, the message and the
  latency. \<open>usleep\<close> takes an unsigned 32-bit number of microseconds.
\<close>

record 'w client_api =
  init_channel :: "client_flags \<Rightarrow> 'w \<Rightarrow> int \<times> 'w"
  is_asked_to_quit :: "'w \<Rightarrow> bool"
  stub_echo :: "64 word \<Rightarrow> string \<Rightarrow> 'w \<Rightarrow> (string + string \<times> string \<times> string \<times> int) \<times> 'w"
  usleep :: "32 word \<Rightarrow> 'w \<Rightarrow> 'w"

datatype client_line = Info string | Warning string | Error string

datatype client_end = Quit | Counter_overflow

fun echo_line :: "string + string \<times> string \<times> string \<times> int \<Rightarrow> client_line" where
  "echo_line (Inl error_text) = Warning error_text"
| "echo_line (Inr (remote, local, message, latency_us)) =
     Info (''Received response from '' @ remote @ '' to '' @ local @ '': '' @ message @ '' latency='' @ dec_int latency_us @ ''us'')"

text \<open>The nap is computed in 64 bits and passed in 32.\<close>

definition nap :: "int \<Rightarrow> 32 word" where
  "nap interval = ucast (word_of_int (interval * 1000) :: 64 word)"

text \<open>The loop, with the counter, the log and the world; incrementing the largest \<open>int\<close> is undefined.\<close>

partial_function (option) client_loop ::
  "'w client_api \<Rightarrow> int \<Rightarrow> nat \<Rightarrow> client_line list \<Rightarrow> 'w \<Rightarrow> (client_end \<times> client_line list \<times> 'w) option" where
  "client_loop B interval counter lines w =
     (if is_asked_to_quit B w then Some (Quit, lines, w)
      else if counter = 2 ^ 31 - 1 then Some (Counter_overflow, lines, w)
      else
       (case stub_echo B (of_nat counter) ''hello world'' w of (r, w1) \<Rightarrow>
          client_loop B interval (Suc counter) (lines @ [echo_line r]) (usleep B (nap interval) w1)))"

definition main_client ::
  "'w client_api \<Rightarrow> client_flags \<Rightarrow> 'w \<Rightarrow> ((int option) \<times> client_line list \<times> 'w) option" where
  "main_client B flags w =
     (case init_channel B flags w of (r, w) \<Rightarrow>
      if r \<noteq> 0 then Some (Some (- 1), [Error ''Fail to initialize channel''], w)
      else
       map_option (\<lambda>(e, lines, w).
           (case e of Quit \<Rightarrow> (Some 0, lines @ [Info ''EchoClient is going to quit''], w)
            | Counter_overflow \<Rightarrow> (None, lines, w)))
         (client_loop B (interval_ms flags) 0 [] w))"

section \<open>Every call is answered once, with its message\<close>

text \<open>What a client relies on: a call is answered once, with the message it had.\<close>

locale echo_service =
  fixes handler :: "rpc \<Rightarrow> rpc"
  assumes answers: "sent (handler c) = sent c @ [request c]"
begin

text \<open>A client's calls reach the service, or fail: a message that comes back is one the service sent.\<close>

definition served_by :: "'w client_api \<Rightarrow> bool" where
  "served_by B \<longleftrightarrow>
     (\<forall>i msg w remote local m latency w'. stub_echo B i msg w = (Inr (remote, local, m, latency), w') \<longrightarrow>
        (\<exists>c. log_id c = i \<and> request c = msg \<and> sent c = [] \<and> [m] = sent (handler c)))"

lemma message_comes_back:
  "served_by B \<Longrightarrow> stub_echo B i msg w = (Inr (remote, local, m, latency), w') \<Longrightarrow> m = msg"
  unfolding served_by_def using answers by fastforce

end

lemma sent_run_done: "sent (run_done c) = sent c @ [response_message c]"
  by (simp add: run_done_def Let_def log_info_def split: option.splits)

interpretation plain: echo_service "Echo to_json" for to_json
  by unfold_locales (simp add: Echo_def with_guard_def sent_run_done Let_def set_message_def log_info_def)

interpretation async: echo_service EchoAsync_resume
  by unfold_locales (simp add: EchoAsync_resume_def with_guard_def sent_run_done set_message_def)

text \<open>The calls that arrive in a sequence of events.\<close>

fun arrivals :: "co_event list \<Rightarrow> rpc list" where
  "arrivals [] = []"
| "arrivals (Arrive c # evs) = c # arrivals evs"
| "arrivals (Wake i # evs) = arrivals evs"

definition co_inv :: "bool \<Rightarrow> rpc list \<Rightarrow> rpc list \<times> rpc list \<Rightarrow> bool" where
  "co_inv enable calls s \<longleftrightarrow>
     mset (map EchoAsync_resume (fst s)) + mset (snd s) = mset (map EchoAsync_resume calls) \<and>
     set (fst s) \<subseteq> set calls \<and> (\<not> enable \<longrightarrow> fst s = [])"

lemma co_step_inv:
  assumes "co_inv enable calls s"
  shows "co_inv enable (case ev of Arrive c \<Rightarrow> calls @ [c] | Wake i \<Rightarrow> calls) (co_step enable ev s)"
proof (cases ev)
  case (Arrive c)
  then show ?thesis
    using assms by (cases s) (auto simp: co_inv_def Echo_co_def EchoAsync_start_def EchoAsync_resume_def)
next
  case (Wake i)
  obtain sl fin where s: "s = (sl, fin)" by (cases s)
  show ?thesis
  proof (cases "i < length sl")
    case True
    have e: "sl = take i sl @ sl ! i # drop (Suc i) sl" using id_take_nth_drop [OF True] .
    have "mset (map EchoAsync_resume sl) =
        mset (map EchoAsync_resume (take i sl @ drop (Suc i) sl)) + {#EchoAsync_resume (sl ! i)#}"
      by (subst e) simp
    then show ?thesis
      using assms Wake s True set_take_subset [of i sl] set_drop_subset [of "Suc i" sl]
      by (auto simp: co_inv_def)
  qed (use assms Wake s in simp)
qed

lemma co_fold_inv:
  "co_inv enable calls s \<Longrightarrow> co_inv enable (calls @ arrivals evs) (fold (co_step enable) evs s)"
proof (induction evs arbitrary: calls s)
  case (Cons ev evs)
  from Cons.IH [OF co_step_inv [OF Cons.prems, of ev]] show ?case by (cases ev) simp_all
qed simp

lemma co_serve_inv: "co_inv enable (arrivals evs) (co_serve enable evs)"
  using co_fold_inv [of enable "[]" "([], [])" evs] by (simp add: co_serve_def co_inv_def)

lemma request_resume [simp]: "request (EchoAsync_resume c) = request c"
  by (simp add: EchoAsync_resume_def with_guard_def run_done_def set_message_def log_info_def Let_def split: option.splits)

text \<open>
  C29: however calls and wake-ups interleave, every call that has come in is either asleep and unanswered
  or has been answered once, with its own message; without coroutines none is left asleep.
\<close>

theorem coroutine_server_answers_once:
  assumes "\<forall>c\<in>set (arrivals evs). sent c = []" "co_serve enable evs = (sleeping, finished)"
  shows "mset (map request (sleeping @ finished)) = mset (map request (arrivals evs)) \<and>
    (\<forall>c\<in>set sleeping. sent c = []) \<and> (\<forall>c\<in>set finished. sent c = [request c]) \<and>
    (\<not> enable \<longrightarrow> sleeping = [])"
proof -
  have i: "mset (map EchoAsync_resume sleeping) + mset finished = mset (map EchoAsync_resume (arrivals evs))"
    "set sleeping \<subseteq> set (arrivals evs)" "\<not> enable \<longrightarrow> sleeping = []"
    using co_serve_inv [of enable evs] assms(2) by (simp_all add: co_inv_def)
  have "mset (map request (map EchoAsync_resume sleeping @ finished)) =
      image_mset request (mset (map EchoAsync_resume sleeping) + mset finished)" by (simp add: multiset.map_comp)
  also have "\<dots> = mset (map request (arrivals evs))"
    unfolding i(1) by (simp add: multiset.map_comp comp_def)
  finally have r: "mset (map request (sleeping @ finished)) = mset (map request (arrivals evs))"
    by (simp add: comp_def)
  have "set finished \<subseteq> EchoAsync_resume ` set (arrivals evs)"
    using i(1) by (metis mset_append set_append set_map set_mset_mset sup_ge2)
  then have "\<forall>c\<in>set finished. sent c = [request c]"
    using assms(1) async.answers by auto
  then show ?thesis using r i(2,3) assms(1) by blast
qed

text \<open>With and without coroutines, the server gives the same answers to the same calls, once all have woken.\<close>

theorem coroutines_change_no_answer:
  assumes "co_serve True evs = ([], finished)"
  shows "mset finished = mset (snd (co_serve False evs))"
proof -
  have "fst (co_serve False evs) = []" using co_serve_inv [of False evs] by (simp add: co_inv_def)
  then show ?thesis using co_serve_inv [of True evs] co_serve_inv [of False evs] assms by (simp add: co_inv_def)
qed

section \<open>Bounds of the integers\<close>

text \<open>
  The timeout never overflows, and is longer than the sleep.
\<close>

theorem channel_outlasts_sleep:
  assumes "int32 sleep_us"
  shows "\<exists>timeout. channel_timeout sleep_us = Some timeout \<and> (0 \<le> sleep_us \<longrightarrow> sleep_us < timeout * 1000)"
proof -
  let ?q = "sleep_us sdiv 1000"
  have "?q = (if 0 \<le> sleep_us then sleep_us div 1000 else - (- sleep_us div 1000))"
    by (auto simp: signed_divide_int_def sgn_if)
  moreover have "- (2 ^ 31) \<le> sleep_us" "sleep_us < 2 ^ 31" using assms by (simp_all add: int32_def)
  ultimately have "int32 (?q * 2)" "int32 (?q * 2 + 100)" "0 \<le> sleep_us \<longrightarrow> sleep_us < (?q * 2 + 100) * 1000"
    unfolding int32_def by (auto split: if_splits)
  then show ?thesis by (simp add: channel_timeout_def Let_def)
qed

text \<open>
  C30: the client naps for the interval it was given exactly if that is at least 0 and at most 4294967
  milliseconds; otherwise the microseconds are cut to 32 bits.
\<close>

theorem nap_lasts_the_interval:
  assumes "int32 interval"
  shows "uint (nap interval) = interval * 1000 \<longleftrightarrow> 0 \<le> interval \<and> interval \<le> 4294967"
proof -
  have cut: "uint (ucast (word_of_int x :: 64 word) :: 32 word) = x mod 2 ^ 32" for x
    by (simp add: unsigned_ucast_eq uint_word_of_int take_bit_eq_mod mod_mod_cancel)
  have n: "uint (nap interval) = interval * 1000 mod 2 ^ 32" unfolding nap_def by (rule cut)
  show ?thesis
  proof
    assume "uint (nap interval) = interval * 1000"
    then have "interval * 1000 mod 2 ^ 32 = interval * 1000" using n by simp
    then have "0 \<le> interval * 1000" "interval * 1000 < 2 ^ 32"
      by (metis pos_mod_sign pos_mod_bound zero_less_numeral zero_less_power)+
    then show "0 \<le> interval \<and> interval \<le> 4294967" by simp
  next
    assume "0 \<le> interval \<and> interval \<le> 4294967"
    then show "uint (nap interval) = interval * 1000" unfolding n by (simp add: mod_pos_pos_trivial)
  qed
qed

section \<open>A session of the client\<close>

text \<open>The world before the \<open>k\<close>-th question whether to quit, when the ones before were answered no.\<close>

fun client_world :: "'w client_api \<Rightarrow> int \<Rightarrow> 'w \<Rightarrow> nat \<Rightarrow> 'w" where
  "client_world B i w 0 = w"
| "client_world B i w (Suc k) =
     usleep B (nap i) (snd (stub_echo B (of_nat k) ''hello world'' (client_world B i w k)))"

definition echo_result :: "'w client_api \<Rightarrow> int \<Rightarrow> 'w \<Rightarrow> nat \<Rightarrow> string + string \<times> string \<times> string \<times> int" where
  "echo_result B i w k = fst (stub_echo B (of_nat k) ''hello world'' (client_world B i w k))"

lemma client_loop_rounds:
  assumes "k \<le> 2 ^ 31 - 1" "\<forall>j<k. \<not> is_asked_to_quit B (client_world B i w j)"
  shows "client_loop B i 0 [] w =
    client_loop B i k (map (\<lambda>j. echo_line (echo_result B i w j)) [0..<k]) (client_world B i w k)"
  using assms
proof (induction k)
  case (Suc k)
  then have "client_loop B i 0 [] w =
      client_loop B i k (map (\<lambda>j. echo_line (echo_result B i w j)) [0..<k]) (client_world B i w k)" by simp
  also have "\<dots> = client_loop B i (Suc k) (map (\<lambda>j. echo_line (echo_result B i w j)) [0..<Suc k]) (client_world B i w (Suc k))"
    using Suc.prems by (subst client_loop.simps) (simp add: echo_result_def split: prod.splits)
  finally show ?case .
qed simp

text \<open>
  C14: asked to quit before the n-th call, the client has made n calls with the numbers from 0, logged one
  line for each, and returns 0; and each answer it got is its own greeting.
\<close>

theorem client_session:
  assumes "init_channel B flags w0 = (0, w)" "plain.served_by to_json B"
    and "\<forall>k<n. \<not> is_asked_to_quit B (client_world B (interval_ms flags) w k)" "is_asked_to_quit B (client_world B (interval_ms flags) w n)" "n < 2 ^ 31"
  shows "\<exists>results. length results = n \<and>
    main_client B flags w0 = Some (Some 0, map echo_line results @ [Info ''EchoClient is going to quit''], client_world B (interval_ms flags) w n) \<and>
    (\<forall>r\<in>set results. case r of Inl e \<Rightarrow> True | Inr (remote, local, message, latency) \<Rightarrow> message = ''hello world'')"
proof -
  let ?rs = "map (echo_result B (interval_ms flags) w) [0..<n]"
  have "client_loop B (interval_ms flags) 0 [] w = Some (Quit, map echo_line ?rs, client_world B (interval_ms flags) w n)"
    using client_loop_rounds [of n B "interval_ms flags" w] assms(3-5) by (simp add: client_loop.simps comp_def)
  moreover have "case r of Inl e \<Rightarrow> True | Inr (remote, local, message, latency) \<Rightarrow> message = ''hello world''"
    if r: "r \<in> set ?rs" for r
  proof (cases r)
    case (Inr x)
    obtain k where k: "r = echo_result B (interval_ms flags) w k" using r by auto
    obtain remote local message latency where x: "x = (remote, local, message, latency)" by (cases x)
    have "stub_echo B (of_nat k) ''hello world'' (client_world B (interval_ms flags) w k) =
        (Inr (remote, local, message, latency), snd (stub_echo B (of_nat k) ''hello world'' (client_world B (interval_ms flags) w k)))"
      using k Inr x by (simp add: echo_result_def prod_eq_iff)
    then show ?thesis using plain.message_comes_back [OF assms(2)] Inr x by simp
  qed simp
  ultimately show ?thesis using assms(1) by (intro exI [of _ ?rs]) (simp add: main_client_def)
qed

text \<open>Never asked to quit, it runs until its counter overflows.\<close>

lemma client_counter_overflows:
  assumes "init_channel B flags w0 = (0, w)" "\<forall>k<2 ^ 31. \<not> is_asked_to_quit B (client_world B (interval_ms flags) w k)"
  shows "\<exists>lines w'. main_client B flags w0 = Some (None, lines, w')"
proof -
  have "client_loop B (interval_ms flags) 0 [] w = client_loop B (interval_ms flags) (2 ^ 31 - 1)
      (map (\<lambda>j. echo_line (echo_result B (interval_ms flags) w j)) [0..<2 ^ 31 - 1]) (client_world B (interval_ms flags) w (2 ^ 31 - 1))"
    using assms(2) by (intro client_loop_rounds) auto
  also have "\<dots> = Some (Counter_overflow, map (\<lambda>j. echo_line (echo_result B (interval_ms flags) w j)) [0..<2 ^ 31 - 1], client_world B (interval_ms flags) w (2 ^ 31 - 1))"
    using assms(2) by (subst client_loop.simps) simp
  finally show ?thesis using assms(1) by (simp add: main_client_def)
qed

section \<open>The properties at samples\<close>

text \<open>A network that is asked to quit after the outcomes in its list: calls that reach a server, or fail.\<close>

definition sample_client :: "bool list client_api" where
  "sample_client = \<lparr>init_channel = (\<lambda>f w. (0, w)), is_asked_to_quit = (\<lambda>w. w = []),
     stub_echo = (\<lambda>i msg w.
       (if w \<noteq> [] \<and> hd w
        then Inr (''127.0.0.1:8000'', ''127.0.0.1:40000'',
               last (sent (Echo id (new_call i ''127.0.0.1:40000'' ''127.0.0.1:8000'' msg))), 250)
        else Inl ''[E1008]Reached timeout=100ms'', tl w)),
     usleep = (\<lambda>t w. w)\<rparr>"

lemma sample_served_by: "plain.served_by id sample_client"
proof -
  have "\<exists>c. log_id c = i \<and> request c = msg \<and> sent c = [] \<and> [last (sent (Echo id (new_call i a b msg)))] = sent (Echo id c)"
    for i msg a b
    by (intro exI [of _ "new_call i a b msg"]) (simp add: plain.answers, simp add: new_call_def)
  then show ?thesis
    by (auto simp: plain.served_by_def sample_client_def split: if_splits)
qed

theorem client_session_witness:
  "\<exists>results. length results = 2 \<and> main_client sample_client default_flags [True, False] =
     Some (Some 0, map echo_line results @ [Info ''EchoClient is going to quit''], [])"
proof -
  have w: "client_world sample_client 1000 [True, False] 0 = [True, False]"
    "client_world sample_client 1000 [True, False] (Suc 0) = [False]"
    "client_world sample_client 1000 [True, False] 2 = []"
    by (simp_all add: numeral_2_eq_2) (simp_all add: sample_client_def)
  have q: "\<forall>k<2. \<not> is_asked_to_quit sample_client (client_world sample_client 1000 [True, False] k)"
  proof (intro allI impI)
    fix k :: nat assume "k < 2"
    then have "k = 0 \<or> k = Suc 0" by auto
    then show "\<not> is_asked_to_quit sample_client (client_world sample_client 1000 [True, False] k)"
      using w by (auto simp: sample_client_def)
  qed
  have i: "init_channel sample_client default_flags [True, False] = (0, [True, False])"
    "interval_ms default_flags = 1000" "is_asked_to_quit sample_client []"
    by (simp_all add: sample_client_def default_flags_def)
  show ?thesis
    using client_session [OF i(1) sample_served_by, of 2] unfolding i(2) w(3) using q i(3) by fastforce
qed

definition sample_calls :: "co_event list" where
  "sample_calls = [Arrive (new_call 0 ''a'' ''s'' ''one''), Arrive (new_call 1 ''b'' ''s'' ''two''), Wake 1, Wake 0]"

theorem coroutine_server_answers_once_witness:
  "mset (map request (fst (co_serve True sample_calls) @ snd (co_serve True sample_calls))) = {#''one'', ''two''#}"
proof -
  have a: "arrivals sample_calls = [new_call 0 ''a'' ''s'' ''one'', new_call 1 ''b'' ''s'' ''two'']"
    by (simp add: sample_calls_def)
  have fresh: "\<forall>c\<in>set (arrivals sample_calls). sent c = []"
    unfolding a by (simp add: new_call_def)
  have "mset (map request (arrivals sample_calls)) = {#''one'', ''two''#}"
    unfolding a by (simp add: new_call_def)
  then show ?thesis
    using coroutine_server_answers_once [OF fresh surjective_pairing [of "co_serve True sample_calls"]] by metis
qed

theorem coroutines_change_no_answer_witness:
  "mset (snd (co_serve True sample_calls)) = mset (snd (co_serve False sample_calls))"
proof -
  have "co_serve True sample_calls = ([], snd (co_serve True sample_calls))"
    by (simp add: co_serve_def sample_calls_def Echo_co_def EchoAsync_start_def)
  then show ?thesis by (rule coroutines_change_no_answer)
qed

theorem channel_outlasts_sleep_witness:
  "\<exists>t. channel_timeout 1000000 = Some t \<and> 1000000 < t * 1000"
  using channel_outlasts_sleep [of 1000000] by (simp add: int32_def)

theorem nap_lasts_the_interval_witness:
  "uint (nap 1000) = 1000000"
  using nap_lasts_the_interval [of 1000] by (simp add: int32_def)

end
