(* ===== verification/Brpc_Http.thy ===== *)
theory Brpc_Http
  imports Brpc_Echo
begin

text \<open>
  The HTTP programs of \<open>src/brpc/http\<close>: the echo service and the client. The messages of
  \<open>http.proto\<close> are empty, so the request is the query and the body of the HTTP request. brpc is a parameter, as in
  theory \<open>Brpc_Echo\<close>.
\<close>

section \<open>The server\<close>

text \<open>\<open>http_sent\<close> lists the replies sent, one for each run of \<open>done\<close>: content type and body.\<close>

record http_call =
  queries :: "(string \<times> string) list"
  request_body :: string
  content_type :: string
  response_body :: string
  http_sent :: "(string \<times> string) list"
  http_after :: "string option"
  http_log :: "string list"

definition http_done :: "http_call \<Rightarrow> http_call" where
  "http_done c =
     (let c1 = c\<lparr>http_sent := http_sent c @ [(content_type c, response_body c)]\<rparr>
      in case http_after c of None \<Rightarrow> c1 | Some line \<Rightarrow> c1\<lparr>http_log := http_log c @ [line]\<rparr>)"

definition query_text :: "(string \<times> string) list \<Rightarrow> string" where
  "query_text qs = concat (map (\<lambda>(k, v). '' '' @ k @ ''='' @ v) qs)"

text \<open>The callback logs the two empty messages, as \<open>ProtoMessageToJson\<close>, an argument, writes them.\<close>

definition http_CallAfterRpc :: "string \<Rightarrow> string \<Rightarrow> string" where
  "http_CallAfterRpc req res = ''req:'' @ req @ '' res:'' @ res"

definition http_Echo :: "string \<Rightarrow> http_call \<Rightarrow> http_call" where
  "http_Echo empty_json c =
     (let c = c\<lparr>http_after := Some (http_CallAfterRpc empty_json empty_json)\<rparr>;
          c = c\<lparr>content_type := ''text/plain''\<rparr>;
          os = ''queries:'' @ query_text (queries c) @ [CHR 0x0A] @ ''body: '' @ request_body c @ [CHR 0x0A]
      in http_done (c\<lparr>response_body := os\<rparr>))"

definition main_http_server ::
  "('w, 'p) server_api \<Rightarrow> int \<Rightarrow> int \<Rightarrow> 'w \<Rightarrow> int \<times> string list \<times> 'w" where
  "main_http_server B port idle_timeout_s w =
     (case add_service B w of (r, w) \<Rightarrow>
      if r \<noteq> 0 then (- 1, [''Fail to add http_svc''], w)
      else
       (case start_server B (Ip_any port) idle_timeout_s w of (r, w) \<Rightarrow>
        if r \<noteq> 0 then (- 1, [''Fail to start HttpServer''], w)
        else (0, [], run_until_asked B w)))"

section \<open>The client\<close>

text \<open>The flags of the client, and their values when the command line does not set them.\<close>

record http_flags =
  flag_d :: string
  http_load_balancer :: string
  http_timeout_ms :: int
  http_max_retry :: int
  http_protocol :: string

definition default_http_flags :: http_flags where
  "default_http_flags = \<lparr>flag_d = [], http_load_balancer = [], http_timeout_ms = 2000, http_max_retry = 3,
     http_protocol = ''http''\<rparr>"

text \<open>A request: the address, the method, the data; a reply is an error text or a body.\<close>

datatype http_method = GET | POST

record 'w http_api =
  init_http_channel :: "http_flags \<Rightarrow> string \<Rightarrow> 'w \<Rightarrow> int \<times> 'w"
  call_http :: "string \<Rightarrow> http_method \<Rightarrow> string \<Rightarrow> 'w \<Rightarrow> (string + string) \<times> 'w"

text \<open>What \<open>main\<close> returns, what it logs and what it writes to \<open>stderr\<close> and \<open>stdout\<close>.\<close>

record http_output =
  exit_code :: int
  logged :: "string list"
  err_text :: string
  out_text :: string

definition main_http_client ::
  "'w http_api \<Rightarrow> http_flags \<Rightarrow> bool \<Rightarrow> string list \<Rightarrow> 'w \<Rightarrow> http_output \<times> 'w" where
  "main_http_client B flags http_verbose argv w =
     (let failed = \<lparr>exit_code = - 1, logged = [], err_text = [], out_text = []\<rparr> in
      if length argv \<noteq> 2 then (failed\<lparr>logged := [''Usage: ./http_client \"http(s)://www.foo.com\"'']\<rparr>, w)
      else
       (let url = argv ! 1 in
        case init_http_channel B flags url w of (r, w) \<Rightarrow>
        if r \<noteq> 0 then (failed\<lparr>logged := [''Fail to initialize channel'']\<rparr>, w)
        else
         (case call_http B url (if flag_d flags \<noteq> [] then POST else GET) (flag_d flags) w of
            (Inl error_text, w) \<Rightarrow> (failed\<lparr>err_text := error_text @ [CHR 0x0A]\<rparr>, w)
          | (Inr body, w) \<Rightarrow>
             (failed\<lparr>exit_code := 0, out_text := (if http_verbose then [] else body @ [CHR 0x0A])\<rparr>, w))))"

section \<open>Reading a reply\<close>

text \<open>A reader of the replies: queries up to the end of the line, each a name and a value, then the
  body up to the last end of line.\<close>

definition not_in :: "string \<Rightarrow> char \<Rightarrow> bool" where
  "not_in cs c \<longleftrightarrow> c \<notin> set cs"

function read_queries :: "string \<Rightarrow> ((string \<times> string) list \<times> string) option" where
  "read_queries s =
     (if s \<noteq> [] \<and> hd s = CHR '' '' then
       (let k = takeWhile (not_in ''='') (tl s); r = dropWhile (not_in ''='') (tl s);
            v = takeWhile (not_in [CHR '' '', CHR 0x0A]) (tl r); r2 = dropWhile (not_in [CHR '' '', CHR 0x0A]) (tl r)
        in case read_queries r2 of None \<Rightarrow> None | Some (qs, rest) \<Rightarrow> Some ((k, v) # qs, rest))
      else Some ([], s))"
  by pat_completeness auto
termination
proof (relation "measure length")
  fix s k r v r2
  assume s: "s \<noteq> [] \<and> hd s = CHR '' ''" and r: "r = dropWhile (not_in ''='') (tl s)"
    and r2: "r2 = dropWhile (not_in [CHR '' '', CHR 0x0A]) (tl r)"
  have "length r2 \<le> length (tl s)"
    unfolding r2 r by (metis length_dropWhile_le length_tl diff_le_self le_trans)
  then show "(r2, s) \<in> measure length" using s by (cases s) auto
qed simp

declare read_queries.simps [simp del]

definition read_reply :: "string \<Rightarrow> ((string \<times> string) list \<times> string) option" where
  "read_reply s =
     (if prefix ''queries:'' s then
       (case read_queries (drop 8 s) of
          None \<Rightarrow> None
        | Some (qs, r) \<Rightarrow>
            if prefix (CHR 0x0A # ''body: '') r then Some (qs, butlast (drop 7 r)) else None)
      else None)"

text \<open>Names and values that a URI can have unescaped: no blank, no end of line, and no \<open>=\<close> in names.\<close>

definition readable_query :: "string \<times> string \<Rightarrow> bool" where
  "readable_query q \<longleftrightarrow> (case q of (k, v) \<Rightarrow> set k \<inter> {CHR ''=''} = {} \<and> set v \<inter> {CHR '' '', CHR 0x0A} = {})"

lemma span_stop:
  assumes "set xs \<inter> set cs = {}" "c \<in> set cs"
  shows "takeWhile (not_in cs) (xs @ c # r) = xs" "dropWhile (not_in cs) (xs @ c # r) = c # r"
  using assms by (induction xs) (auto simp: not_in_def)

lemma read_queries_text:
  assumes "\<forall>q\<in>set qs. readable_query q"
  shows "read_queries (query_text qs @ CHR 0x0A # r) = Some (qs, CHR 0x0A # r)"
  using assms
proof (induction qs)
  case Nil
  then show ?case by (subst read_queries.simps) (simp add: query_text_def)
next
  case (Cons q qs)
  obtain k v where q: "q = (k, v)" by (cases q)
  have kv: "set k \<inter> set ''='' = {}" "set v \<inter> set [CHR '' '', CHR 0x0A] = {}"
    using Cons.prems q by (auto simp: readable_query_def)
  let ?rest = "query_text qs @ CHR 0x0A # r"
  have t: "query_text (q # qs) @ CHR 0x0A # r = CHR '' '' # k @ CHR ''='' # v @ ?rest"
    by (simp add: query_text_def q)
  have v: "takeWhile (not_in [CHR '' '', CHR 0x0A]) (v @ ?rest) = v" "dropWhile (not_in [CHR '' '', CHR 0x0A]) (v @ ?rest) = ?rest"
    using span_stop [OF kv(2), of "CHR 0x0A" r] span_stop [OF kv(2), of "CHR '' ''"]
    by (cases qs; auto simp: query_text_def split: prod.splits)+
  show ?case
    unfolding t using Cons span_stop [OF kv(1), of "CHR ''=''"] v q
    by (subst read_queries.simps) (simp add: Let_def)
qed

lemma http_Echo_reply:
  assumes "\<forall>q\<in>set (queries c). readable_query q"
  shows "\<exists>reply. http_sent (http_Echo empty_json c) = http_sent c @ [(''text/plain'', reply)] \<and>
    read_reply reply = Some (queries c, request_body c)"
proof -
  let ?reply = "''queries:'' @ query_text (queries c) @ CHR 0x0A # ''body: '' @ request_body c @ [CHR 0x0A]"
  have "http_sent (http_Echo empty_json c) = http_sent c @ [(''text/plain'', ?reply)]"
    by (simp add: http_Echo_def http_done_def Let_def)
  moreover have "read_reply ?reply = Some (queries c, request_body c)"
    using read_queries_text [OF assms, of "''body: '' @ request_body c @ [CHR 0x0A]"]
    by (simp add: read_reply_def butlast_append)
  ultimately show ?thesis by blast
qed

text \<open>
  The service replies once to every call, with a plain text from which the queries and the body of the
  request can be read back, whatever the body.
\<close>

theorem http_reply_reads_back:
  assumes "\<forall>q\<in>set (queries c). readable_query q"
  shows "\<exists>reply. http_sent (http_Echo empty_json c) = http_sent c @ [(''text/plain'', reply)] \<and>
    read_reply reply = Some (queries c, request_body c)"
  using assms by (rule http_Echo_reply)

section \<open>The client and the server\<close>

text \<open>The calls of the client reach the echo service, with the data as their body, or fail.\<close>

definition echoed_by :: "string \<Rightarrow> 'w http_api \<Rightarrow> bool" where
  "echoed_by empty_json B \<longleftrightarrow>
     (\<forall>url m d w body w'. call_http B url m d w = (Inr body, w') \<longrightarrow>
        (\<exists>c. request_body c = d \<and> (\<forall>q\<in>set (queries c). readable_query q) \<and>
           body = snd (last (http_sent (http_Echo empty_json c)))))"

text \<open>
  C31: asked for the echo service, a client that returns 0 has printed a reply from which the data it was
  given can be read back, unless it is verbose and prints nothing itself; every other run returns -1 and prints nothing to \<open>stdout\<close>.
\<close>

theorem client_prints_its_data_back:
  assumes "echoed_by empty_json B" "main_http_client B flags http_verbose argv w = (r, w')"
  shows "if exit_code r = 0
    then http_verbose \<and> out_text r = [] \<or>
      \<not> http_verbose \<and> (\<exists>reply qs. out_text r = reply @ [CHR 0x0A] \<and> read_reply reply = Some (qs, flag_d flags))
    else exit_code r = - 1 \<and> out_text r = [] \<and> (logged r \<noteq> [] \<or> err_text r \<noteq> [])"
proof -
  have reply: "\<exists>qs. read_reply body = Some (qs, data)" if "call_http B url m data v = (Inr body, v')" for url m data v body v'
  proof -
    obtain c where c: "request_body c = data" "\<forall>q\<in>set (queries c). readable_query q"
        "body = snd (last (http_sent (http_Echo empty_json c)))"
      using assms(1) \<open>call_http B url m data v = (Inr body, v')\<close> unfolding echoed_by_def by blast
    show ?thesis using http_Echo_reply [OF c(2), of empty_json] c(1,3) by auto
  qed
  show ?thesis
    using assms(2) by (auto simp: main_http_client_def Let_def dest: reply split: if_splits prod.splits sum.splits)
qed

section \<open>The properties at samples\<close>

definition sample_http_call :: "string \<Rightarrow> http_call" where
  "sample_http_call d = \<lparr>queries = [(''user'', ''arrow''), (''debug'', ''1'')], request_body = d, content_type = [],
     response_body = [], http_sent = [], http_after = None, http_log = []\<rparr>"

lemma sample_queries: "\<forall>q\<in>set (queries (sample_http_call d)). readable_query q"
  by (simp add: sample_http_call_def readable_query_def)

theorem http_reply_reads_back_witness:
  "\<exists>reply. http_sent (http_Echo ''{}'' (sample_http_call ''hello'')) = [(''text/plain'', reply)] \<and>
    read_reply reply = Some ([(''user'', ''arrow''), (''debug'', ''1'')], ''hello'')"
  using http_reply_reads_back [OF sample_queries, of "''{}''" "''hello''"] by (simp add: sample_http_call_def)

definition sample_http_api :: "unit http_api" where
  "sample_http_api = \<lparr>init_http_channel = (\<lambda>f url w. (0, w)),
     call_http = (\<lambda>url m d w. (Inr (snd (last (http_sent (http_Echo ''{}'' (sample_http_call d))))), w))\<rparr>"

lemma sample_echoed: "echoed_by ''{}'' sample_http_api"
proof -
  have "\<exists>c. request_body c = d \<and> (\<forall>q\<in>set (queries c). readable_query q) \<and>
      snd (last (http_sent (http_Echo ''{}'' (sample_http_call d)))) = snd (last (http_sent (http_Echo ''{}'' c)))" for d
    using sample_queries by (intro exI [of _ "sample_http_call d"]) (simp add: sample_http_call_def)
  then show ?thesis by (simp add: echoed_by_def sample_http_api_def)
qed

theorem client_prints_its_data_back_witness:
  "\<exists>r reply qs. main_http_client sample_http_api (default_http_flags\<lparr>flag_d := ''hello''\<rparr>) False [''http_client'', ''localhost:8010/HttpService/Echo''] () = (r, ()) \<and>
    exit_code r = 0 \<and> out_text r = reply @ [CHR 0x0A] \<and> read_reply reply = Some (qs, ''hello'')"
proof -
  obtain r where r: "main_http_client sample_http_api (default_http_flags\<lparr>flag_d := ''hello''\<rparr>) False [''http_client'', ''localhost:8010/HttpService/Echo''] () = (r, ())"
      "exit_code r = 0"
    by (simp add: main_http_client_def sample_http_api_def)
  show ?thesis using client_prints_its_data_back [OF sample_echoed r(1)] r by auto
qed

end
