(* ===== verification/Asio_Timers.thy ===== *)
theory Asio_Timers
  imports Interleaving
begin

text \<open>
  The timer programs of \<open>asio/tests\<close>: \<open>test_timer\<close>, \<open>test_async_timer\<close>, \<open>test_binding_arguments\<close>, \<open>test_member_function\<close> and
  \<open>test_multithread\<close>. As asio documents it, a handler given to \<open>async_wait\<close> runs in \<open>io_context::run\<close> after the expiry, and \<open>run\<close>
  returns when no handler is left. Messages are what is given to \<open>LOG_INFO\<close>; times are seconds after the start.
\<close>

section \<open>One timer\<close>

text \<open>Messages and the time at the end. \<open>ec\<close> is the text of the error code a handler is called with.\<close>

definition main_timer :: "string list \<times> nat" where
  "main_timer = ([''before wait()'', ''after wait()''], 5)"

definition async_timer_callback :: "string \<Rightarrow> string list" where
  "async_timer_callback ec = [''callback called, ec='' @ ec]"

definition main_async_timer :: "string \<Rightarrow> string list \<times> nat" where
  "main_async_timer ec = ([''before async_wait()'', ''after async_wait()''] @ async_timer_callback ec, 5)"

section \<open>A timer that sets itself again\<close>

text \<open>\<open>print\<close>: the messages, the new count, and the new expiry if the handler waits again.\<close>

definition print_handler :: "string \<Rightarrow> nat \<Rightarrow> int \<Rightarrow> string list \<times> int \<times> nat option" where
  "print_handler ec expiry count =
     (if count < 5 then ([''callback called, ec='' @ ec, ''count='' @ dec_int count], count + 1, Some (expiry + 1))
      else ([''callback called, ec='' @ ec], count, None))"

text \<open>\<open>printer::print\<close> does not look at the error code.\<close>

definition printer_print :: "nat \<Rightarrow> int \<Rightarrow> string list \<times> int \<times> nat option" where
  "printer_print expiry count =
     (if count < 5 then ([''count='' @ dec_int count], count + 1, Some (expiry + 1)) else ([], count, None))"

text \<open>\<open>run\<close> of a context with one timer: handlers run one after another, until one does not wait again.\<close>

partial_function (option) run_timer ::
  "(nat \<Rightarrow> int \<Rightarrow> string list \<times> int \<times> nat option) \<Rightarrow> nat \<Rightarrow> int \<Rightarrow> string list \<Rightarrow> (string list \<times> int \<times> nat) option"
where
  "run_timer handler expiry count ms =
     (case handler expiry count of
        (new, count', None) \<Rightarrow> Some (ms @ new, count', expiry)
      | (new, count', Some expiry') \<Rightarrow> run_timer handler expiry' count' (ms @ new))"

definition final_count :: "int \<Rightarrow> string" where
  "final_count count = ''Final count is '' @ dec_int count"

definition main_binding :: "(nat \<Rightarrow> string) \<Rightarrow> (string list \<times> nat) option" where
  "main_binding ec =
     map_option (\<lambda>(ms, count, t). (ms @ [final_count count], t)) (run_timer (\<lambda>expiry. print_handler (ec expiry) expiry) 1 0 [])"

definition main_member :: "(string list \<times> nat) option" where
  "main_member = map_option (\<lambda>(ms, count, t). (ms @ [final_count count], t)) (run_timer printer_print 1 0 [])"

lemma run_timer_counts:
  assumes stop: "\<And>expiry count. 5 \<le> count \<Longrightarrow> handler expiry count = (extra expiry, count, None)"
    and go: "\<And>expiry count. count < 5 \<Longrightarrow> handler expiry count = (extra expiry @ [''count='' @ dec_int count], count + 1, Some (expiry + 1))"
    and c: "0 \<le> c" "c \<le> 5"
  shows "run_timer handler t c ms =
    Some (ms @ concat (map (\<lambda>i. extra (t + i) @ [''count='' @ dec_int (c + int i)]) [0..<nat (5 - c)]) @ extra (t + nat (5 - c)), 5, t + nat (5 - c))"
  using c
proof (induction "nat (5 - c)" arbitrary: t c ms)
  case 0
  then show ?case by (subst run_timer.simps) (simp add: stop)
next
  case (Suc k)
  then have c: "c < 5" "0 \<le> c" "nat (5 - (c + 1)) = k" by auto
  have upt: "[0..<Suc k] = 0 # map Suc [0..<k]" by (simp add: upt_conv_Cons map_Suc_upt del: upt_Suc)
  have "run_timer handler t c ms = run_timer handler (t + 1) (c + 1) (ms @ extra t @ [''count='' @ dec_int c])"
    using c by (subst run_timer.simps) (simp add: go)
  also have "\<dots> = Some ((ms @ extra t @ [''count='' @ dec_int c]) @
      concat (map (\<lambda>i. extra (t + 1 + i) @ [''count='' @ dec_int (c + 1 + int i)]) [0..<k]) @ extra (t + 1 + k), 5, t + 1 + k)"
    using Suc.hyps(1) [of "c + 1" "t + 1" "ms @ extra t @ [''count='' @ dec_int c]"] c by simp
  finally show ?case
    unfolding Suc.hyps(2) [symmetric] upt by (simp add: comp_def algebra_simps)
qed

text \<open>
  Both programs return, six seconds after the start, after five counted callbacks and one more; the messages of the second
  are those of the first without the lines about the callbacks.
\<close>

theorem timers_count_to_five:
  "main_binding ec = Some (concat (map (\<lambda>i. [''callback called, ec='' @ ec (1 + i), ''count='' @ dec_nat i]) [0..<5]) @
      [''callback called, ec='' @ ec 6, ''Final count is 5''], 6) \<and>
   main_member = Some ([''count=0'', ''count=1'', ''count=2'', ''count=3'', ''count=4'', ''Final count is 5''], 6)"
proof -
  have d: "dec_nat 0 = ''0''" "dec_nat (Suc 0) = ''1''" "dec_nat 2 = ''2''" "dec_nat 3 = ''3''" "dec_nat 4 = ''4''" "dec_nat 5 = ''5''"
    by (simp_all add: dec_nat.simps)
  have i: "dec_int (int n) = dec_nat n" for n by (simp add: dec_int_def)
  have f: "final_count 5 = ''Final count is 5''" using i [of 5] d by (simp add: final_count_def)
  have u: "[0..<5] = [0, Suc 0, 2, 3, 4]" by (simp add: upt_rec numeral_2_eq_2 numeral_3_eq_3 eval_nat_numeral)
  have b: "run_timer (\<lambda>expiry. print_handler (ec expiry) expiry) 1 0 [] =
      Some (concat (map (\<lambda>i. [''callback called, ec='' @ ec (1 + i), ''count='' @ dec_nat i]) [0..<5]) @
        [''callback called, ec='' @ ec 6], 5, 6)"
    using run_timer_counts [of "\<lambda>expiry. print_handler (ec expiry) expiry" "\<lambda>t. [''callback called, ec='' @ ec t]" 0 1 "[]"]
    by (simp add: print_handler_def i)
  have m: "run_timer printer_print 1 0 [] = Some (map (\<lambda>i. ''count='' @ dec_nat i) [0..<5], 5, 6)"
    using run_timer_counts [of printer_print "\<lambda>t. []" 0 1 "[]"] by (simp add: printer_print_def i)
  show ?thesis
    unfolding main_binding_def main_member_def b m by (simp add: f u d)
qed

section \<open>Two timers on two threads\<close>

text \<open>
  \<open>print1\<close> and \<open>print2\<close> of the printer with two timers, access by access: the check of the count, the message, the load and the
  store of the increment, and the new wait. The two handlers share the count. Timer 1 is True.
\<close>

datatype at_point = Armed | Checked | Logged | Loaded int | Stored | Idle

record printer =
  counter :: int
  point :: "bool \<Rightarrow> at_point"
  logged :: "(bool \<times> int) list"

definition new_printer :: printer where
  "new_printer = \<lparr>counter = 0, point = (\<lambda>i. Armed), logged = []\<rparr>"

text \<open>
  With two threads in \<open>run\<close> the handlers may run at the same time; \<open>strand\<close> says whether they exclude each other, as handlers
  that are dispatched through one strand do. The program makes a strand, but gives no handler to it.
\<close>

inductive printer_step :: "bool \<Rightarrow> printer \<Rightarrow> printer \<Rightarrow> bool" for strand where
  fire: "point p i = Armed \<Longrightarrow> (strand \<Longrightarrow> point p (\<not> i) \<in> {Armed, Idle}) \<Longrightarrow>
    printer_step strand p (p\<lparr>point := (point p)(i := if counter p < 10 then Checked else Idle)\<rparr>)"
| message: "point p i = Checked \<Longrightarrow>
    printer_step strand p (p\<lparr>point := (point p)(i := Logged), logged := logged p @ [(i, counter p)]\<rparr>)"
| load: "point p i = Logged \<Longrightarrow> printer_step strand p (p\<lparr>point := (point p)(i := Loaded (counter p))\<rparr>)"
| store: "point p i = Loaded v \<Longrightarrow> printer_step strand p (p\<lparr>point := (point p)(i := Stored), counter := v + 1\<rparr>)"
| rearm: "point p i = Stored \<Longrightarrow> printer_step strand p (p\<lparr>point := (point p)(i := Armed)\<rparr>)"

definition both_idle :: "printer \<Rightarrow> bool" where
  "both_idle p \<longleftrightarrow> (\<forall>i. point p i = Idle)"

text \<open>The destructor of the printer.\<close>

definition printer_destroyed :: "printer \<Rightarrow> string" where
  "printer_destroyed p = final_count (counter p)"

definition at_rest :: "at_point \<Rightarrow> bool" where
  "at_rest x \<longleftrightarrow> x = Armed \<or> x = Idle"

definition half_way :: "printer \<Rightarrow> bool" where
  "half_way p \<longleftrightarrow> (\<exists>i. point p i = Logged \<or> point p i = Loaded (counter p))"

definition printer_inv :: "printer \<Rightarrow> bool" where
  "printer_inv p \<longleftrightarrow>
     0 \<le> counter p \<and> counter p \<le> 10 \<and> (\<exists>i. at_rest (point p i)) \<and>
     (\<forall>i v. point p i = Loaded v \<longrightarrow> v = counter p) \<and>
     (\<forall>i. point p i = Checked \<or> point p i = Logged \<or> point p i = Loaded (counter p) \<longrightarrow> counter p < 10) \<and>
     (\<forall>i. point p i = Idle \<longrightarrow> counter p = 10) \<and>
     map snd (logged p) = map int [0..<nat (counter p)] @ (if half_way p then [counter p] else [])"

fun point_size :: "at_point \<Rightarrow> nat" where
  "point_size Armed = 5"
| "point_size Checked = 4"
| "point_size Logged = 3"
| "point_size (Loaded v) = 2"
| "point_size Stored = 6"
| "point_size Idle = 0"

definition printer_size :: "printer \<Rightarrow> nat" where
  "printer_size p = 6 * nat (10 - counter p) + point_size (point p True) + point_size (point p False)"

lemma other_at_rest: "printer_inv p \<Longrightarrow> \<not> at_rest (point p i) \<Longrightarrow> at_rest (point p (\<not> i))"
  unfolding printer_inv_def by (cases i) (metis (full_types))+

lemma upt_nat_Suc: "0 \<le> n \<Longrightarrow> map int [0..<nat (n + 1)] = map int [0..<nat n] @ [n]"
  by (simp add: nat_add_distrib)

lemma half_way_alone: "at_rest (point p (\<not> i)) \<Longrightarrow> half_way p \<longleftrightarrow> point p i = Logged \<or> point p i = Loaded (counter p)"
  by (cases i) (auto simp: half_way_def at_rest_def ex_bool_eq)

lemma half_way_iff:
  "printer_inv p \<Longrightarrow> \<not> at_rest (point p i) \<Longrightarrow> half_way p \<longleftrightarrow> point p i = Logged \<or> point p i = Loaded (counter p)"
  by (rule half_way_alone) (rule other_at_rest)

lemma printer_invI:
  assumes "0 \<le> counter p" "counter p \<le> 10" "at_rest (point p (\<not> i))"
    "\<And>v. point p i = Loaded v \<Longrightarrow> v = counter p"
    "point p i = Checked \<or> point p i = Logged \<or> point p i = Loaded (counter p) \<Longrightarrow> counter p < 10"
    "point p i = Idle \<or> point p (\<not> i) = Idle \<Longrightarrow> counter p = 10"
    "map snd (logged p) = map int [0..<nat (counter p)] @
       (if point p i = Logged \<or> point p i = Loaded (counter p) then [counter p] else [])"
  shows "printer_inv p"
proof -
  have j: "j = i \<or> j = (\<not> i)" for j by auto
  have "v = counter p" if "point p j = Loaded v" for j v
    using assms(3,4) j [of j] that by (auto simp: at_rest_def)
  moreover have "counter p < 10" if "point p j = Checked \<or> point p j = Logged \<or> point p j = Loaded (counter p)" for j
    using assms(3,5) j [of j] that by (auto simp: at_rest_def)
  moreover have "counter p = 10" if "point p j = Idle" for j
    using assms(6) j [of j] that by auto
  ultimately show ?thesis
    unfolding printer_inv_def half_way_alone [OF assms(3)] using assms(1-3,7) by blast
qed

lemma printer_invD:
  assumes "printer_inv p"
  shows "0 \<le> counter p" "counter p \<le> 10" "point p i = Loaded v \<Longrightarrow> v = counter p"
    "point p i = Checked \<or> point p i = Logged \<or> point p i = Loaded (counter p) \<Longrightarrow> counter p < 10"
    "point p i = Idle \<Longrightarrow> counter p = 10"
  using assms unfolding printer_inv_def by blast+

lemma printer_inv_logged:
  "printer_inv p \<Longrightarrow> at_rest (point p (\<not> i)) \<Longrightarrow> map snd (logged p) = map int [0..<nat (counter p)] @
     (if point p i = Logged \<or> point p i = Loaded (counter p) then [counter p] else [])"
  unfolding half_way_alone [symmetric] by (simp add: printer_inv_def)

lemma printer_step_inv:
  assumes inv: "printer_inv p" and step: "printer_step True p q"
  shows "printer_inv q"
proof -
  note D = printer_invD [OF inv]
  show ?thesis
    using step
  proof (cases rule: printer_step.cases)
    case (fire i)
    then have r: "at_rest (point p (\<not> i))" by (auto simp: at_rest_def)
    show ?thesis by (rule printer_invI [of q i]) (use D(1,2) D(5) printer_inv_logged [OF inv r] fire r in \<open>auto split: if_splits\<close>)
  next
    case (message i)
    then have r: "at_rest (point p (\<not> i))" using other_at_rest [OF inv, of i] by (simp add: at_rest_def)
    show ?thesis by (rule printer_invI [of q i]) (use D(1,2) D(4) [of i] D(5) printer_inv_logged [OF inv r] message r in auto)
  next
    case (load i)
    then have r: "at_rest (point p (\<not> i))" using other_at_rest [OF inv, of i] by (simp add: at_rest_def)
    show ?thesis by (rule printer_invI [of q i]) (use D(1,2) D(4) [of i] D(5) printer_inv_logged [OF inv r] load r in auto)
  next
    case (store i v)
    then have r: "at_rest (point p (\<not> i))" using other_at_rest [OF inv, of i] by (simp add: at_rest_def)
    have v: "v = counter p" using D(3) [of i v] store by simp
    have n: "counter p < 10" using D(4) [of i] store v by simp
    show ?thesis
      by (rule printer_invI [of q i]) (use D(1) D(5) [of "\<not> i"] printer_inv_logged [OF inv r] store r v n upt_nat_Suc [OF D(1)] in auto)
  next
    case (rearm i)
    then have r: "at_rest (point p (\<not> i))" using other_at_rest [OF inv, of i] by (simp add: at_rest_def)
    show ?thesis by (rule printer_invI [of q i]) (use D(1,2) D(5) [of "\<not> i"] printer_inv_logged [OF inv r] rearm r in auto)
  qed
qed

lemma printer_step_smaller:
  assumes "printer_inv p" "printer_step True p q"
  shows "printer_size q < printer_size p"
  using assms(2)
proof (cases rule: printer_step.cases)
  case (store i v)
  then have "v = counter p" "counter p < 10" using assms(1) by (auto simp: printer_inv_def)
  then have "nat (10 - counter p) = Suc (nat (10 - counter q))" using store by simp
  then show ?thesis using store by (cases i) (auto simp: printer_size_def)
qed (cases "i :: bool"; auto simp: printer_size_def)+

lemma printer_progress:
  assumes "printer_inv p" "\<not> both_idle p"
  shows "\<exists>q. printer_step True p q"
proof (cases "\<exists>i. \<not> at_rest (point p i)")
  case True
  then obtain i where "\<not> at_rest (point p i)" by blast
  then show ?thesis by (cases "point p i") (auto simp: at_rest_def intro: printer_step.intros)
next
  case False
  then obtain i where "point p i = Armed" using assms(2) by (auto simp: at_rest_def both_idle_def)
  then show ?thesis using False printer_step.fire [of p i True] by (auto simp: at_rest_def)
qed

lemma new_printer_inv: "printer_inv new_printer"
  by (auto simp: printer_inv_def new_printer_def at_rest_def half_way_def)

lemma both_idle_stuck: "both_idle p \<Longrightarrow> \<not> printer_step s p q"
proof
  assume "printer_step s p q" "both_idle p"
  then show False by (cases rule: printer_step.cases) (simp_all add: both_idle_def)
qed

interpretation printers: started_system "printer_step True" printer_inv printer_size both_idle new_printer
  by unfold_locales (fact printer_step_inv printer_step_smaller printer_progress new_printer_inv | erule both_idle_stuck)+

text \<open>
  If the handlers excluded each other, as the strand is meant to make them, every run would end, with the counts from 0 to 9
  logged once each, in order, and the final count 10.
\<close>

lemma ten_numbers: "map int [0..<10] = [0, 1, 2, 3, 4, 5, 6, 7, 8, 9]"
  by (simp add: upt_conv_Cons)

theorem strand_counts_to_ten:
  assumes "(printer_step True)\<^sup>*\<^sup>* new_printer p" "\<forall>q. \<not> printer_step True p q"
  shows "both_idle p \<and> map snd (logged p) = [0, 1, 2, 3, 4, 5, 6, 7, 8, 9] \<and> printer_destroyed p = ''Final count is 10''"
proof -
  have inv: "printer_inv p" and idle: "both_idle p" using printers.stuck_run [OF assms] by simp_all
  then have c: "counter p = 10" using printer_invD(5) [OF inv, of True] by (simp add: both_idle_def)
  have "map snd (logged p) = map int [0..<nat (counter p)]"
    using printer_inv_logged [OF inv, of True] idle by (simp add: both_idle_def at_rest_def)
  also have "map int [0..<nat (counter p)] = [0, 1, 2, 3, 4, 5, 6, 7, 8, 9]" using c by (simp add: ten_numbers)
  finally have l: "map snd (logged p) = [0, 1, 2, 3, 4, 5, 6, 7, 8, 9]" .
  have "dec_int 10 = ''10''" by (simp add: dec_int_def dec_nat.simps)
  then show ?thesis using idle l c by (simp add: printer_destroyed_def final_count_def)
qed

theorem strand_counts_to_ten_witness:
  "\<exists>p. (printer_step True)\<^sup>*\<^sup>* new_printer p \<and> map snd (logged p) = [0, 1, 2, 3, 4, 5, 6, 7, 8, 9]"
proof -
  obtain p where p: "(printer_step True)\<^sup>*\<^sup>* new_printer p" "\<forall>q. \<not> printer_step True p q" using printers.run_ends by blast
  from conjunct1 [OF conjunct2 [OF strand_counts_to_ten [OF p]]] show ?thesis
    by (intro exI [of _ p] conjI p(1))
qed

lemma one_round:
  assumes "counter p < 10" "point p = (\<lambda>i. Armed)"
  shows "\<exists>q. (printer_step False)\<^sup>*\<^sup>* p q \<and> counter q = counter p + 1 \<and> point q = (\<lambda>i. Armed)"
proof -
  let ?p1 = "p\<lparr>point := (\<lambda>i. Armed)(True := Checked)\<rparr>"
  let ?p2 = "p\<lparr>point := (\<lambda>i. Armed)(True := Logged), logged := logged p @ [(True, counter p)]\<rparr>"
  let ?p3 = "?p2\<lparr>point := (\<lambda>i. Armed)(True := Loaded (counter p))\<rparr>"
  let ?p4 = "?p2\<lparr>point := (\<lambda>i. Armed)(True := Stored), counter := counter p + 1\<rparr>"
  let ?p5 = "?p4\<lparr>point := (\<lambda>i. Armed)\<rparr>"
  have "printer_step False p ?p1" using printer_step.fire [of p True False] assms by simp
  moreover have "printer_step False ?p1 ?p2" using printer_step.message [of ?p1 True False] by simp
  moreover have "printer_step False ?p2 ?p3" using printer_step.load [of ?p2 True False] by simp
  moreover have "printer_step False ?p3 ?p4" using printer_step.store [of ?p3 True "counter p" False] by simp
  moreover have "printer_step False ?p4 ?p5" using printer_step.rearm [of ?p4 True False] by (simp add: fun_upd_idem)
  ultimately have "(printer_step False)\<^sup>*\<^sup>* p ?p5" by (meson converse_rtranclp_into_rtranclp rtranclp.rtrancl_refl)
  then show ?thesis by (intro exI [of _ ?p5]) simp
qed

lemma many_rounds:
  "n \<le> 9 \<Longrightarrow> \<exists>q. (printer_step False)\<^sup>*\<^sup>* new_printer q \<and> counter q = int n \<and> point q = (\<lambda>i. Armed)"
proof (induction n)
  case 0
  then show ?case by (intro exI [of _ new_printer]) (simp add: new_printer_def)
next
  case (Suc n)
  then obtain q where q: "(printer_step False)\<^sup>*\<^sup>* new_printer q" "counter q = int n" "point q = (\<lambda>i. Armed)" by auto
  then obtain r where "(printer_step False)\<^sup>*\<^sup>* q r" "counter r = counter q + 1" "point r = (\<lambda>i. Armed)"
    using one_round [of q] Suc.prems by auto
  then show ?case using q by (intro exI [of _ r]) auto
qed

text \<open>
  As the program is, without a handler on the strand, both handlers can pass the check before either counts: a run can end with
  the count 11.
\<close>

theorem handlers_race:
  "\<exists>p. (printer_step False)\<^sup>*\<^sup>* new_printer p \<and> both_idle p \<and> printer_destroyed p = ''Final count is 11''"
proof -
  obtain p where p: "(printer_step False)\<^sup>*\<^sup>* new_printer p" "counter p = 9" "point p = (\<lambda>i. Armed)"
    using many_rounds [of 9] by auto
  let ?at = "\<lambda>x y. (\<lambda>i. if i then x else y)"
  let ?q = "\<lambda>x y c ms. \<lparr>counter = c, point = ?at x y, logged = logged p @ ms\<rparr>"
  have arm: "point p = ?at Armed Armed" using p(3) by auto
  have upd: "(?at x y)(True := z) = ?at z y" "(?at x y)(False := z) = ?at x z"
    "(\<lambda>i. x)(True := z) = ?at z x" "(\<lambda>i. x)(False := z) = ?at x z" for x y z :: at_point by auto
  have p0: "p = ?q Armed Armed 9 []" using p(2) arm by (cases p) simp
  have s1: "printer_step False (?q Armed Armed 9 []) (?q Checked Armed 9 [])"
    using printer_step.fire [of "?q Armed Armed 9 []" True False] by (simp add: upd)
  have s2: "printer_step False (?q Checked Armed 9 []) (?q Checked Checked 9 [])"
    using printer_step.fire [of "?q Checked Armed 9 []" False False] by (simp add: upd)
  have s3: "printer_step False (?q Checked Checked 9 []) (?q Logged Checked 9 [(True, 9)])"
    using printer_step.message [of "?q Checked Checked 9 []" True False] by (simp add: upd)
  have s4: "printer_step False (?q Logged Checked 9 [(True, 9)]) (?q Logged Logged 9 [(True, 9), (False, 9)])"
    using printer_step.message [of "?q Logged Checked 9 [(True, 9)]" False False] by (simp add: upd)
  let ?ms = "[(True, 9), (False, 9)]"
  have s5: "printer_step False (?q Logged Logged 9 ?ms) (?q (Loaded 9) Logged 9 ?ms)"
    using printer_step.load [of "?q Logged Logged 9 ?ms" True False] by (simp add: upd)
  have s6: "printer_step False (?q (Loaded 9) Logged 9 ?ms) (?q Stored Logged 10 ?ms)"
    using printer_step.store [of "?q (Loaded 9) Logged 9 ?ms" True 9 False] by (simp add: upd)
  have s7: "printer_step False (?q Stored Logged 10 ?ms) (?q Stored (Loaded 10) 10 ?ms)"
    using printer_step.load [of "?q Stored Logged 10 ?ms" False False] by (simp add: upd)
  have s8: "printer_step False (?q Stored (Loaded 10) 10 ?ms) (?q Stored Stored 11 ?ms)"
    using printer_step.store [of "?q Stored (Loaded 10) 10 ?ms" False 10 False] by (simp add: upd)
  have s9: "printer_step False (?q Stored Stored 11 ?ms) (?q Armed Stored 11 ?ms)"
    using printer_step.rearm [of "?q Stored Stored 11 ?ms" True False] by (simp add: upd)
  have s10: "printer_step False (?q Armed Stored 11 ?ms) (?q Armed Armed 11 ?ms)"
    using printer_step.rearm [of "?q Armed Stored 11 ?ms" False False] by (simp add: upd)
  have s11: "printer_step False (?q Armed Armed 11 ?ms) (?q Idle Armed 11 ?ms)"
    using printer_step.fire [of "?q Armed Armed 11 ?ms" True False] by (simp add: upd)
  have s12: "printer_step False (?q Idle Armed 11 ?ms) (?q Idle Idle 11 ?ms)"
    using printer_step.fire [of "?q Idle Armed 11 ?ms" False False] by (simp add: upd)
  have "(printer_step False)\<^sup>*\<^sup>* (?q Armed Armed 9 []) (?q Idle Idle 11 ?ms)"
    using s1 s2 s3 s4 s5 s6 s7 s8 s9 s10 s11 s12 by (meson converse_rtranclp_into_rtranclp rtranclp.rtrancl_refl)
  with p(1) p0 have "(printer_step False)\<^sup>*\<^sup>* new_printer (?q Idle Idle 11 ?ms)" by (metis rtranclp_trans)
  then show ?thesis
    by (intro exI [of _ "?q Idle Idle 11 ?ms"]) (simp add: both_idle_def printer_destroyed_def final_count_def dec_int_def dec_nat.simps)
qed

end
