(* ===== verification/Asio_Echo.thy ===== *)
theory Asio_Echo
  imports Bench_St
begin

text \<open>
  \<open>asio/tests/test_cpp20_coroutine.cpp\<close>: the server of theory \<open>Bench_St\<close> as an echo server that logs what it does. The file
  does not define \<open>NDEBUG\<close>, so the messages are part of the model: what is given to \<open>LOG_INFO\<close> and \<open>LOG_ERROR\<close>.
\<close>

section \<open>The coroutines\<close>

text \<open>\<open>echo\<close>: its messages and its next suspension. \<open>chunk\<close> is what the first \<open>nread\<close> bytes of its array hold.\<close>

definition echo_loop :: "nat \<Rightarrow> suspension" where
  "echo_loop socket = Await (ReadSome socket)"

definition echo_read :: "nat \<Rightarrow> string option \<Rightarrow> string \<Rightarrow> string list \<times> suspension" where
  "echo_read socket ec chunk =
     (case ec of
        Some message \<Rightarrow> ([message], Co_return)
      | None \<Rightarrow> ([''read '' @ dec_nat (length chunk) @ '' bytes''], Await (Write socket chunk)))"

definition echo_written :: "nat \<Rightarrow> string option \<Rightarrow> suspension" where
  "echo_written socket ec = (case ec of Some message \<Rightarrow> Thrown | None \<Rightarrow> echo_loop socket)"

definition echo_accepted ::
  "string option \<Rightarrow> (string \<times> nat) option \<Rightarrow> st_server \<Rightarrow> string list \<times> suspension \<times> st_server" where
  "echo_accepted ec remote w =
     (case ec of
        Some message \<Rightarrow> ([], Thrown, w)
      | None \<Rightarrow>
         (let socket = sockets_made w; w = w\<lparr>sockets_made := Suc socket\<rparr> in
          case remote of
            None \<Rightarrow> ([], Thrown, close_st socket w)
          | Some (address, port) \<Rightarrow>
              ([''new connection: '' @ address @ '':'' @ dec_nat port], listen_loop_st (co_spawn (Processing socket) w))))"

section \<open>The event loop\<close>

text \<open>
  What a coroutine is resumed with: nothing at its start, the result of an accept, what has been read, or the result of a write.
\<close>

datatype echo_result = Started | Connection "string option" "(string \<times> nat) option" | Chunk "string option" string | Done "string option" nat

fun echo_resume :: "awaited \<Rightarrow> echo_result \<Rightarrow> st_server \<Rightarrow> string list \<times> suspension \<times> st_server" where
  "echo_resume (Begin Listening) v w = ([], listen_loop_st w)"
| "echo_resume (Begin (Processing s)) v w = ([], echo_loop s, w)"
| "echo_resume (Operation c (Accept s)) v w =
     (case v of Connection ec remote \<Rightarrow> echo_accepted ec remote w | _ \<Rightarrow> ([], Thrown, w))"
| "echo_resume (Operation c (ReadSome s)) v w =
     (case v of Chunk ec chunk \<Rightarrow> (fst (echo_read s ec chunk), snd (echo_read s ec chunk), w) | _ \<Rightarrow> ([], Thrown, w))"
| "echo_resume (Operation c (Write s b)) v w =
     (case v of Done ec n \<Rightarrow> ([], echo_written s ec, w) | _ \<Rightarrow> ([], Thrown, w))"

definition echo_deliver :: "nat \<Rightarrow> echo_result \<Rightarrow> st_server \<times> string list \<Rightarrow> st_server \<times> string list" where
  "echo_deliver i v r =
     (let w = fst r; a = awaiting w ! i; x = echo_resume a v (w\<lparr>awaiting := others i (awaiting w)\<rparr>) in
      (await_st (owner a) (snd x), snd r @ fst x))"

text \<open>The server made by \<open>main\<close>, or what the acceptor's constructor throws.\<close>

definition main_echo :: "string option \<Rightarrow> string + st_server \<times> string list" where
  "main_echo bound =
     (case bound of
        Some what \<Rightarrow> Inl what
      | None \<Rightarrow> Inr (co_spawn Listening \<lparr>awaiting = [], sockets_made = 0, sockets_closed = []\<rparr>,
          [''Listening on 0.0.0.0:'' @ dec_nat 8000 @ '' ...'']))"

text \<open>What asio may give; an array of 1024 bytes is read into.\<close>

fun echo_gives :: "awaited \<Rightarrow> echo_result \<Rightarrow> bool" where
  "echo_gives (Begin c) v \<longleftrightarrow> v = Started"
| "echo_gives (Operation c (Accept s)) v \<longleftrightarrow> (\<exists>ec remote. v = Connection ec remote)"
| "echo_gives (Operation c (ReadSome s)) v \<longleftrightarrow> (\<exists>ec chunk. v = Chunk ec chunk \<and> length chunk \<le> 1024)"
| "echo_gives (Operation c (Write s b)) v \<longleftrightarrow> (\<exists>ec n. v = Done ec n)"

inductive echo_reach :: "st_server \<times> string list \<Rightarrow> bool" where
  echo_start: "main_echo bound = Inr r \<Longrightarrow> echo_reach r"
| echo_event: "echo_reach r \<Longrightarrow> i < length (awaiting (fst r)) \<Longrightarrow> echo_gives (awaiting (fst r) ! i) v \<Longrightarrow> echo_reach (echo_deliver i v r)"

section \<open>The echo server is the benchmark server\<close>

text \<open>\<open>forget\<close> puts the benchmark's response in the place of what is echoed.\<close>

fun forget_awaited :: "awaited \<Rightarrow> awaited" where
  "forget_awaited (Operation c (Write s b)) = Operation c (Write s response)"
| "forget_awaited a = a"

definition forget :: "st_server \<Rightarrow> st_server" where
  "forget w = w\<lparr>awaiting := map forget_awaited (awaiting w)\<rparr>"

fun forget_result :: "echo_result \<Rightarrow> server_result" where
  "forget_result Started = Void"
| "forget_result (Connection ec remote) = Accepted ec remote"
| "forget_result (Chunk ec chunk) = Transferred ec (length chunk)"
| "forget_result (Done ec n) = Transferred ec n"

lemma owner_forget [simp]: "owner (forget_awaited a) = owner a"
  by (cases a rule: forget_awaited.cases) simp_all

lemma map_others: "map f (others i xs) = others i (map f xs)"
  by (simp add: others_def take_map drop_map)

lemma forget_simps [simp]:
  "awaiting (forget w) = map forget_awaited (awaiting w)" "sockets_made (forget w) = sockets_made w"
  "sockets_closed (forget w) = sockets_closed w"
  "forget (w\<lparr>sockets_made := n\<rparr>) = (forget w)\<lparr>sockets_made := n\<rparr>"
  "forget (close_st s w) = close_st s (forget w)" "forget (co_spawn c w) = co_spawn c (forget w)"
  by (simp_all add: forget_def close_st_def co_spawn_def)

fun forget_suspension :: "suspension \<Rightarrow> suspension" where
  "forget_suspension (Await (Write s b)) = Await (Write s response)"
| "forget_suspension x = x"

lemma forget_await: "forget (await_st c (x, w)) = await_st c (forget_suspension x, forget w)"
proof (cases x rule: forget_suspension.cases)
  case (1 s b)
  then show ?thesis by (simp add: await_st_def forget_def)
qed (cases c; simp add: await_st_def forget_def close_st_def)+

lemma forget_resume:
  assumes "echo_gives a v"
  shows "resume_st (forget_awaited a) (forget_result v) (forget w) =
    (forget_suspension (fst (snd (echo_resume a v w))), forget (snd (snd (echo_resume a v w))))"
  using assms
  by (cases "(a, v, w)" rule: echo_resume.cases)
    (auto simp: echo_accepted_def echo_read_def echo_written_def echo_loop_def listen_accepted_st_def process_read_st_def
      process_write_st_def process_loop_st_def listen_loop_st_def co_spawn_def Let_def split: option.splits)

lemma forget_deliver:
  assumes "i < length (awaiting w)" "echo_gives (awaiting w ! i) v"
  shows "forget (fst (echo_deliver i v (w, ms))) = deliver i (forget_result v) (forget w)"
proof -
  let ?w = "w\<lparr>awaiting := others i (awaiting w)\<rparr>"
  have w: "(forget w)\<lparr>awaiting := others i (awaiting (forget w))\<rparr> = forget ?w" by (simp add: forget_def map_others)
  show ?thesis
    unfolding deliver_def Let_def w using assms
    by (simp add: echo_deliver_def Let_def forget_resume forget_await [symmetric])
qed

lemma forget_gives: "echo_gives a v \<Longrightarrow> may_give (forget_awaited a) (forget_result v)"
  by (cases "(a, v)" rule: echo_gives.cases) (auto simp: accepted_def transferred_def)

lemma forget_main: "main_echo bound = Inr r \<Longrightarrow> tcp_server_st bound = Inr (forget (fst r))"
  by (auto simp: main_echo_def forget_def tcp_server_st_def listening_st_def co_spawn_def split: option.splits)

lemma echo_simulation:
  assumes "echo_reach r"
  shows "st_reach listening_st (forget (fst r))"
  using assms
proof (induction rule: echo_reach.induct)
  case (echo_start bound r)
  then show ?case using tcp_server_st_InrD [OF forget_main [OF echo_start]] by (simp add: st_here)
next
  case (echo_event r i v)
  obtain w ms where r: "r = (w, ms)" by (cases r)
  have "st_reach listening_st (deliver i (forget_result v) (forget w))"
    using echo_event by (intro st_event) (simp_all add: r forget_gives)
  then show ?case using echo_event.hyps by (simp add: r forget_deliver)
qed

text \<open>
  C39: up to the data it sends, every run of the echo server is a run of the benchmark's single-threaded server, so that all that
  is shown of the sockets and of the listener in theory \<open>Bench_St\<close> holds of it.
\<close>

theorem echo_refines_benchmark:
  assumes "echo_reach r"
  shows "\<exists>w0. tcp_server_st None = Inr w0 \<and> st_reach w0 (forget (fst r))"
  using echo_simulation [OF assms] by (simp add: tcp_server_st_def)

section \<open>What a connection gets back\<close>

text \<open>What a connection asks of asio when it waits as number \<open>i\<close> and gets one result after the other.\<close>

fun echo_trace :: "nat \<Rightarrow> echo_result list \<Rightarrow> st_server \<times> string list \<Rightarrow> server_op list" where
  "echo_trace i [] r = [the (operation_of (awaiting (fst r) ! i))]"
| "echo_trace i (v # vs) r = the (operation_of (awaiting (fst r) ! i)) #
     (let r' = echo_deliver i v r in
      if length (awaiting (fst r')) < length (awaiting (fst r)) then []
      else echo_trace (length (awaiting (fst r')) - 1) vs r')"

lemmas echo_defs = echo_deliver_def echo_read_def echo_written_def echo_loop_def await_st_def Let_def

lemma echo_chunk_step:
  assumes "i < length (awaiting w)" "awaiting w ! i = Operation (Processing s) (ReadSome s)"
  shows "echo_trace i (Chunk None d # Done None n # vs) (w, ms) =
    ReadSome s # Write s d # echo_trace (length (awaiting w) - 1) vs
      (w\<lparr>awaiting := others i (awaiting w) @ [Operation (Processing s) (ReadSome s)]\<rparr>, ms @ [''read '' @ dec_nat (length d) @ '' bytes''])"
  using assms length_others [OF assms(1)] by (simp add: echo_defs nth_append) (simp add: others_def)

text \<open>
  While the writes succeed, a connection gets exactly what it sent, chunk by chunk, and the next read follows; a failed write
  or read ends the connection.
\<close>

theorem echo_returns_chunks:
  assumes "i < length (awaiting w)" "awaiting w ! i = Operation (Processing s) (ReadSome s)"
  shows "echo_trace i (concat (map (\<lambda>d. [Chunk None d, Done None (length d)]) ds)) (w, ms) =
      concat (map (\<lambda>d. [ReadSome s, Write s d]) ds) @ [ReadSome s] \<and>
    awaiting (fst (echo_deliver i (Chunk (Some e) d) (w, ms))) = others i (awaiting w)"
proof
  show "echo_trace i (concat (map (\<lambda>d. [Chunk None d, Done None (length d)]) ds)) (w, ms) =
      concat (map (\<lambda>d. [ReadSome s, Write s d]) ds) @ [ReadSome s]"
    using assms
  proof (induction ds arbitrary: i w ms)
    case Nil
    then show ?case by simp
  next
    case (Cons d ds)
    let ?w = "w\<lparr>awaiting := others i (awaiting w) @ [Operation (Processing s) (ReadSome s)]\<rparr>"
    have l: "Suc (length (others i (awaiting w))) = length (awaiting w)" using length_others [OF Cons.prems(1)] Cons.prems(1) by simp
    then have "awaiting ?w ! (length (awaiting w) - 1) = Operation (Processing s) (ReadSome s)" "length (awaiting w) - 1 < length (awaiting ?w)"
      unfolding l [symmetric] by simp_all
    from Cons.IH [OF this(2,1)] show ?case using echo_chunk_step [OF Cons.prems] by simp
  qed
  show "awaiting (fst (echo_deliver i (Chunk (Some e) d) (w, ms))) = others i (awaiting w)"
    using assms(2) by (simp add: echo_defs close_st_def)
qed

lemma sample_echo:
  "main_echo None = Inr r \<Longrightarrow> echo_reach (echo_deliver 0 (Connection None (Some (''10.0.0.7'', 4000))) (echo_deliver 0 Started r))"
  by (intro echo_event echo_start [where bound = None]) (auto simp: main_echo_def co_spawn_def echo_defs listen_loop_st_def others_def)

theorem echo_refines_benchmark_witness:
  "\<exists>w0. tcp_server_st None = Inr w0 \<and>
    st_reach w0 \<lparr>awaiting = [Begin (Processing 0), Operation Listening (Accept 1)], sockets_made = 1, sockets_closed = []\<rparr>"
proof -
  obtain r where r: "main_echo None = Inr r" by (simp add: main_echo_def)
  then have "forget (fst (echo_deliver 0 (Connection None (Some (''10.0.0.7'', 4000))) (echo_deliver 0 Started r))) =
      \<lparr>awaiting = [Begin (Processing 0), Operation Listening (Accept 1)], sockets_made = 1, sockets_closed = []\<rparr>"
    by (auto simp: main_echo_def co_spawn_def echo_defs listen_loop_st_def others_def echo_accepted_def forget_def)
  then show ?thesis using echo_refines_benchmark [OF sample_echo [OF r]] by simp
qed

theorem echo_returns_chunks_witness:
  "echo_trace 1 [Chunk None ''hello'', Done None 5] (sample_st, []) = [ReadSome 0, Write 0 ''hello'', ReadSome 0]"
proof -
  have "1 < length (awaiting sample_st)" "awaiting sample_st ! 1 = Operation (Processing 0) (ReadSome 0)"
    by (simp_all add: sample_st_def)
  note conjunct1 [OF echo_returns_chunks [OF this, of "[''hello'']" "[]"]]
  moreover have "length ''hello'' = 5" by simp
  ultimately show ?thesis by (simp only: list.map concat.simps append.simps)
qed

end
