(* ===== verification/Asio_Daytime.thy ===== *)
theory Asio_Daytime
  imports Prelude "HOL-Library.Multiset"
begin

text \<open>
  The daytime programs of \<open>asio/tests\<close>: the asynchronous servers (\<open>test_async_tcp_server\<close>, \<open>test_async_udp_server\<close> and both
  in one program, \<open>test_async_tcp_udp_server\<close>), the blocking ones (\<open>test_tcp_server\<close>, \<open>test_udp_server\<close>) and the two clients.
  What asio promises is in the model: a handler runs in \<open>io_context::run\<close>, after the function that started its operation has
  returned, and is destroyed after it has run; a socket that is destroyed cancels what has not been transferred; the
  functions without an \<open>error_code\<close> argument throw. Error codes are their messages, None for success.
\<close>

definition removed :: "nat \<Rightarrow> 'a list \<Rightarrow> 'a list" where
  "removed i xs = take i xs @ drop (Suc i) xs"


lemma list_all_removed: "list_all P xs \<Longrightarrow> list_all P (removed i xs)"
  by (auto simp: list_all_iff removed_def dest: in_set_takeD in_set_dropD)

definition ec_message :: "string option \<Rightarrow> string" where
  "ec_message ec = (case ec of None \<Rightarrow> ''Success'' | Some message \<Rightarrow> message)"

section \<open>The asynchronous TCP server\<close>

text \<open>
  Connections are numbered as they are created and live as long as a \<open>shared_ptr\<close> shares them. The accept that is pending has a
  handler with a share of its connection. A write has the raw \<open>this\<close> of a connection; \<open>taken\<close> is how much of the text
  the kernel has, and \<open>cut\<close> says that the socket was closed before it had all. \<open>undefined_use\<close> is set when a destroyed socket
  and a text that is gone are used: from then on nothing is said.
\<close>

record pending_write =
  of_connection :: nat
  daytime_text :: string
  taken :: nat
  cut :: bool

record tcp_server =
  connections :: nat
  shares :: "nat \<Rightarrow> nat"
  accept_for :: "nat option"
  writes :: "pending_write list"
  tcp_log :: "string list"
  undefined_use :: bool

definition share :: "nat \<Rightarrow> tcp_server \<Rightarrow> tcp_server" where
  "share c w = w\<lparr>shares := (shares w)(c := Suc (shares w c))\<rparr>"

definition unfinished :: "pending_write \<Rightarrow> bool" where
  "unfinished x \<longleftrightarrow> taken x < length (daytime_text x)"

definition destroy_connection :: "nat \<Rightarrow> tcp_server \<Rightarrow> tcp_server" where
  "destroy_connection c w =
     w\<lparr>writes := map (\<lambda>x. if of_connection x = c \<and> unfinished x then x\<lparr>cut := True\<rparr> else x) (writes w)\<rparr>"

definition unshare :: "nat \<Rightarrow> tcp_server \<Rightarrow> tcp_server" where
  "unshare c w =
     (let w = w\<lparr>shares := (shares w)(c := shares w c - 1)\<rparr> in if shares w c = 0 then destroy_connection c w else w)"

definition create_connection :: "tcp_server \<Rightarrow> nat \<times> tcp_server" where
  "create_connection w = (connections w, share (connections w) (w\<lparr>connections := Suc (connections w)\<rparr>))"

text \<open>
  \<open>start\<close> starts the write with \<open>this\<close>, not with a share. The text is a temporary that is gone when \<open>start\<close> returns: \<open>k\<close> bytes of
  it are taken before.
\<close>

definition start_write :: "string \<Rightarrow> nat \<Rightarrow> nat \<Rightarrow> tcp_server \<Rightarrow> tcp_server" where
  "start_write text k c w =
     w\<lparr>writes := writes w @ [\<lparr>of_connection = c, daytime_text = text, taken = min k (length text), cut = False\<rparr>]\<rparr>"

text \<open>The local \<open>new_connection\<close> shares the connection until \<open>start_accept\<close> returns.\<close>

definition start_accept :: "tcp_server \<Rightarrow> tcp_server" where
  "start_accept w =
     (let (c, w) = create_connection w; w = (share c w)\<lparr>accept_for := Some c\<rparr> in unshare c w)"

definition handle_accept :: "string \<Rightarrow> nat \<Rightarrow> nat \<Rightarrow> string option \<Rightarrow> tcp_server \<Rightarrow> tcp_server" where
  "handle_accept text k c ec w = start_accept (if ec = None then start_write text k c w else w)"

definition handle_write :: "string \<Rightarrow> string option \<Rightarrow> nat \<Rightarrow> tcp_server \<Rightarrow> tcp_server" where
  "handle_write tag ec n w =
     w\<lparr>tcp_log := tcp_log w @ [tag @ ''error_code='' @ ec_message ec @ '' written '' @ dec_nat n @ '' bytes'']\<rparr>"

definition listening_tcp :: tcp_server where
  "listening_tcp = start_accept
     \<lparr>connections = 0, shares = (\<lambda>c. 0), accept_for = None, writes = [], tcp_log = [], undefined_use = False\<rparr>"

text \<open>The constructor; \<open>bound\<close> is what that of the acceptor throws when it cannot have port 13.\<close>

definition new_tcp_server :: "string option \<Rightarrow> string + tcp_server" where
  "new_tcp_server bound = (case bound of Some what \<Rightarrow> Inl what | None \<Rightarrow> Inr listening_tcp)"

text \<open>
  The event loop: an accept completes; the kernel takes more of a text while the socket is open; a write that has all its text, or was
  cancelled before any of it was taken, completes. A write of which a part was taken goes on when the loop comes to
  it: if the socket is closed by then, it uses an object that has been destroyed. The lambda of an accept has a share of the
  connection until it is destroyed.
\<close>

inductive tcp_step :: "string \<Rightarrow> tcp_server \<Rightarrow> tcp_server \<Rightarrow> bool" for tag where
  accept_done: "\<not> undefined_use w \<Longrightarrow> accept_for w = Some c \<Longrightarrow>
    w' = unshare c (handle_accept daytime k c ec (w\<lparr>accept_for := None\<rparr>)) \<Longrightarrow> tcp_step tag w w'"
| more_taken: "\<not> undefined_use w \<Longrightarrow> i < length (writes w) \<Longrightarrow> \<not> cut (writes w ! i) \<Longrightarrow> taken (writes w ! i) < k \<Longrightarrow>
    k \<le> length (daytime_text (writes w ! i)) \<Longrightarrow>
    w' = w\<lparr>writes := (writes w)[i := (writes w ! i)\<lparr>taken := k\<rparr>]\<rparr> \<Longrightarrow> tcp_step tag w w'"
| write_done: "\<not> undefined_use w \<Longrightarrow> i < length (writes w) \<Longrightarrow>
    \<not> unfinished (writes w ! i) \<or> cut (writes w ! i) \<and> taken (writes w ! i) = 0 \<Longrightarrow>
    w' = handle_write tag ec (taken (writes w ! i)) (w\<lparr>writes := removed i (writes w)\<rparr>) \<Longrightarrow> tcp_step tag w w'"
| write_goes_on: "\<not> undefined_use w \<Longrightarrow> i < length (writes w) \<Longrightarrow> unfinished (writes w ! i) \<Longrightarrow> cut (writes w ! i) \<Longrightarrow>
    0 < taken (writes w ! i) \<Longrightarrow> w' = w\<lparr>undefined_use := True\<rparr> \<Longrightarrow> tcp_step tag w w'"

definition tcp_inv :: "tcp_server \<Rightarrow> bool" where
  "tcp_inv w \<longleftrightarrow> accept_for w = Some (connections w - 1) \<and> 0 < connections w \<and>
     shares w = (\<lambda>c. if c = connections w - 1 then 1 else 0) \<and>
     list_all (\<lambda>x. of_connection x < connections w - 1 \<and> (cut x \<longleftrightarrow> unfinished x)) (writes w)"

lemmas tcp_defs = share_def unshare_def create_connection_def start_accept_def handle_accept_def start_write_def
  destroy_connection_def handle_write_def Let_def

lemma listening_tcp_inv: "tcp_inv listening_tcp"
  by (auto simp: tcp_inv_def listening_tcp_def tcp_defs fun_eq_iff)

lemma new_tcp_server_InrD: "new_tcp_server bound = Inr w \<Longrightarrow> w = listening_tcp"
  by (simp add: new_tcp_server_def split: option.splits)

lemma start_accept_eq:
  "shares w (connections w) = 0 \<Longrightarrow> start_accept w =
    w\<lparr>connections := Suc (connections w), shares := (shares w)(connections w := 1), accept_for := Some (connections w)\<rparr>"
  by (simp add: tcp_defs)

lemma tcp_step_inv:
  assumes "tcp_step tag w w'" "tcp_inv w"
  shows "tcp_inv w'"
  using assms(1)
proof (cases rule: tcp_step.cases)
  case (accept_done c daytime k ec)
  then have c: "c = connections w - 1" "0 < connections w" using assms(2) by (simp_all add: tcp_inv_def)
  have "shares w (connections w) = 0" using assms(2) c by (simp add: tcp_inv_def)
  then show ?thesis
    using assms(2) c accept_done
    by (cases ec) (auto simp: tcp_inv_def handle_accept_def start_accept_eq start_write_def unshare_def destroy_connection_def
        Let_def list_all_iff unfinished_def fun_eq_iff)
next
  case (more_taken i k)
  then show ?thesis using assms(2) by (auto simp: tcp_inv_def list_all_length unfinished_def)
next
  case (write_done i ec)
  then show ?thesis using assms(2) by (simp add: tcp_inv_def handle_write_def list_all_removed)
next
  case (write_goes_on i)
  then show ?thesis using assms(2) by (simp add: tcp_inv_def)
qed

lemma tcp_reach_inv: "(tcp_step tag)\<^sup>*\<^sup>* listening_tcp w \<Longrightarrow> tcp_inv w"
  by (induction rule: rtranclp_induct) (simp_all add: listening_tcp_inv tcp_step_inv)

text \<open>
  C40: the server never stops accepting, but at every time the only connection that lives is the one it waits for: each handler of a
  write is called on a connection that has been destroyed, of a text only what was taken at once is ever sent, and a write of which a part was
  taken can go on into undefined behaviour.
\<close>

theorem writes_outlive_their_connection:
  assumes "new_tcp_server bound = Inr w0" "(tcp_step tag)\<^sup>*\<^sup>* w0 w"
  shows "(\<exists>c. accept_for w = Some c \<and> {a. 0 < shares w a} = {c}) \<and>
    list_all (\<lambda>x. shares w (of_connection x) = 0 \<and> cut x = unfinished x) (writes w) \<and>
    (\<not> undefined_use w \<longrightarrow> (\<exists>x\<in>set (writes w). unfinished x \<and> 0 < taken x) \<longrightarrow> tcp_step tag w (w\<lparr>undefined_use := True\<rparr>))"
proof -
  have inv: "tcp_inv w" using assms(2) unfolding new_tcp_server_InrD [OF assms(1)] by (rule tcp_reach_inv)
  then have "{a. 0 < shares w a} = {connections w - 1}" by (auto simp: tcp_inv_def)
  moreover have "list_all (\<lambda>x. shares w (of_connection x) = 0 \<and> cut x = unfinished x) (writes w)"
    using inv by (auto simp: tcp_inv_def list_all_iff)
  moreover have "tcp_step tag w (w\<lparr>undefined_use := True\<rparr>)"
    if d: "\<not> undefined_use w" and x: "x \<in> set (writes w)" "unfinished x" "0 < taken x" for x
  proof -
    obtain i where i: "i < length (writes w)" "writes w ! i = x" using x(1) by (auto simp: in_set_conv_nth)
    have "cut x" using inv x(1,2) by (auto simp: tcp_inv_def list_all_iff)
    then show ?thesis using d i x(2,3) by (intro tcp_step.write_goes_on [of w i]) simp_all
  qed
  ultimately show ?thesis using inv by (auto simp: tcp_inv_def)
qed

lemma one_connection:
  "(tcp_step tag)\<^sup>*\<^sup>* listening_tcp (unshare 0 (handle_accept daytime k 0 None (listening_tcp\<lparr>accept_for := None\<rparr>)))"
  by (rule r_into_rtranclp, rule tcp_step.accept_done [where c = 0 and daytime = daytime and k = k and ec = None])
    (simp_all add: listening_tcp_def tcp_defs)

theorem writes_outlive_their_connection_witness:
  "let w = unshare 0 (handle_accept ''Mon'' 2 0 None (listening_tcp\<lparr>accept_for := None\<rparr>)) in
   list_all (\<lambda>x. shares w (of_connection x) = 0 \<and> cut x = unfinished x) (writes w) \<and> map taken (writes w) = [2] \<and>
   tcp_step '''' w (w\<lparr>undefined_use := True\<rparr>)"
proof -
  let ?w = "unshare 0 (handle_accept ''Mon'' 2 0 None (listening_tcp\<lparr>accept_for := None\<rparr>))"
  have w: "map taken (writes ?w) = [2]" "\<not> undefined_use ?w" "\<exists>x\<in>set (writes ?w). unfinished x \<and> 0 < taken x"
    by (simp_all add: handle_accept_def start_accept_eq listening_tcp_def start_write_def unshare_def destroy_connection_def
        unfinished_def Let_def)
  have "new_tcp_server None = Inr listening_tcp" by (simp add: new_tcp_server_def)
  from writes_outlive_their_connection [OF this one_connection [of "''''" "''Mon''" 2]] w
  show ?thesis unfolding Let_def by blast
qed

section \<open>The asynchronous UDP server\<close>

text \<open>
  The receives that are pending, the endpoint the last one has stored, and the sends, each with the endpoint it was started with
  (asio copies it) and what it sends: None when the kernel had not taken the temporary text before \<open>handle_receive\<close> returned.
\<close>

record 'e udp_server =
  receiving :: nat
  remote_endpoint :: 'e
  sends :: "('e \<times> string option) list"
  udp_log :: "string list"

definition start_receive :: "'e udp_server \<Rightarrow> 'e udp_server" where
  "start_receive w = w\<lparr>receiving := Suc (receiving w)\<rparr>"

definition handle_receive :: "string \<Rightarrow> string option \<Rightarrow> string option \<Rightarrow> nat \<Rightarrow> 'e udp_server \<Rightarrow> 'e udp_server" where
  "handle_receive tag out ec n w =
     (let w = w\<lparr>udp_log := udp_log w @ [tag @ ''error_code='' @ ec_message ec @ '' received '' @ dec_nat n @ '' bytes'']\<rparr> in
      start_receive (if ec = None then w\<lparr>sends := sends w @ [(remote_endpoint w, out)]\<rparr> else w))"

definition handle_send :: "string \<Rightarrow> string option \<Rightarrow> nat \<Rightarrow> 'e udp_server \<Rightarrow> 'e udp_server" where
  "handle_send tag ec n w =
     w\<lparr>udp_log := udp_log w @ [tag @ ''error_code='' @ ec_message ec @ '' sent '' @ dec_nat n @ '' bytes'']\<rparr>"

definition receiving_udp :: "'e \<Rightarrow> 'e udp_server" where
  "receiving_udp e = start_receive \<lparr>receiving = 0, remote_endpoint = e, sends = [], udp_log = []\<rparr>"



datatype 'e udp_event = Received "string option" 'e | Sent 'e

text \<open>The array that is received into has one byte.\<close>

inductive udp_run :: "string \<Rightarrow> 'e udp_server \<Rightarrow> 'e udp_event list \<Rightarrow> 'e udp_server \<Rightarrow> bool" for tag w where
  udp_here: "udp_run tag w [] w"
| udp_received: "udp_run tag w es w1 \<Longrightarrow> 0 < receiving w1 \<Longrightarrow> n \<le> 1 \<Longrightarrow>
    w2 = handle_receive tag out ec n (w1\<lparr>receiving := receiving w1 - 1, remote_endpoint := e\<rparr>) \<Longrightarrow> udp_run tag w (es @ [Received ec e]) w2"
| udp_sent: "udp_run tag w es w1 \<Longrightarrow> i < length (sends w1) \<Longrightarrow>
    w2 = handle_send tag ec n (w1\<lparr>sends := removed i (sends w1)\<rparr>) \<Longrightarrow> udp_run tag w (es @ [Sent (fst (sends w1 ! i))]) w2"





section \<open>Both servers in one program\<close>

text \<open>One \<open>io_context\<close> runs the handlers of both.\<close>

inductive both_step :: "tcp_server \<times> 'e udp_server \<Rightarrow> tcp_server \<times> 'e udp_server \<Rightarrow> bool" where
  tcp_part: "tcp_step ''[TCP] '' w w' \<Longrightarrow> both_step (w, u) (w', u)"
| udp_part: "udp_run ''[UDP] '' u [ev] u' \<Longrightarrow> both_step (w, u) (w, u')"

lemma udp_run_append: "udp_run tag u1 es' u2 \<Longrightarrow> udp_run tag u es u1 \<Longrightarrow> udp_run tag u (es @ es') u2"
proof (induction rule: udp_run.induct)
  case udp_here
  then show ?case by simp
next
  case (udp_received es' w1 n w2 out ec e)
  then show ?case using udp_run.udp_received [of tag u "es @ es'" w1 n w2 out ec e] by simp
next
  case (udp_sent es' w1 i w2 ec n)
  then show ?case using udp_run.udp_sent [of tag u "es @ es'" w1 i w2 ec n] by simp
qed

text \<open>The two do not disturb each other.\<close>

lemma both_reach:
  "both_step\<^sup>*\<^sup>* (listening_tcp, receiving_udp e) r \<Longrightarrow>
   (tcp_step ''[TCP] '')\<^sup>*\<^sup>* listening_tcp (fst r) \<and> (\<exists>es. udp_run ''[UDP] '' (receiving_udp e) es (snd r))"
proof (induction rule: rtranclp_induct)
  case base
  then show ?case using udp_here by fastforce
next
  case (step r r')
  then obtain es where t: "(tcp_step ''[TCP] '')\<^sup>*\<^sup>* listening_tcp (fst r)" and u: "udp_run ''[UDP] '' (receiving_udp e) es (snd r)" by blast
  from step.hyps(2) show ?case
  proof cases
    case (tcp_part w w' v)
    with t have "(tcp_step ''[TCP] '')\<^sup>*\<^sup>* listening_tcp (fst r')" by (simp add: rtranclp.rtrancl_into_rtrancl)
    then show ?thesis using u tcp_part by auto
  next
    case (udp_part v ev v' w)
    with u have "udp_run ''[UDP] '' (receiving_udp e) (es @ [ev]) (snd r')" by (simp add: udp_run_append)
    then show ?thesis using t udp_part by auto
  qed
qed


section \<open>The blocking servers\<close>

text \<open>
  \<open>accept\<close> gives an error, which is thrown and ends the program, or a client, of whose text \<open>k\<close> bytes are written; an error of
  the write is ignored. The message and what the client gets, for each turn of the loop, and whether the server goes on.
\<close>

datatype accept_result = Accept_failed string | Client string nat

fun tcp_serve :: "accept_result list \<Rightarrow> (string \<times> string) list \<times> bool" where
  "tcp_serve [] = ([], True)"
| "tcp_serve (Accept_failed e # rs) = ([], False)"
| "tcp_serve (Client daytime k # rs) = ((''New connection'', take k daytime) # fst (tcp_serve rs), snd (tcp_serve rs))"

text \<open>\<open>receive_from\<close> throws as well; a failed \<open>send_to\<close>, None as the third component, is ignored.\<close>

datatype receive_result = Receive_failed string | Datagram "string \<times> nat" string bool

fun udp_serve :: "receive_result list \<Rightarrow> (string \<times> string option) list \<times> bool" where
  "udp_serve [] = ([], True)"
| "udp_serve (Receive_failed e # rs) = ([], False)"
| "udp_serve (Datagram (address, port) daytime sent # rs) =
     ((''Received message from '' @ address @ '':'' @ dec_nat port, if sent then Some daytime else None) # fst (udp_serve rs),
      snd (udp_serve rs))"

section \<open>The clients\<close>

datatype client_line = Printed string | Info string | Error string

datatype exit = Returned int | Terminated

datatype read_result = Data string | Eof | Failed string

text \<open>
  The loop of the TCP client over the results of \<open>read_some\<close>; what the writes of the greeting put into \<open>ec\<close> is overwritten. None
  is a loop that does not end.
\<close>

partial_function (option) tcp_client_loop :: "(nat \<Rightarrow> read_result) \<Rightarrow> nat \<Rightarrow> client_line list \<Rightarrow> (client_line list \<times> int) option" where
  "tcp_client_loop reads i out =
     (case reads i of
        Eof \<Rightarrow> Some (out @ [Info ''Connection closed cleanly by peer''], 0)
      | Failed message \<Rightarrow> Some (out @ [Error (''Error: '' @ message)], 2)
      | Data d \<Rightarrow> tcp_client_loop reads (Suc i) (out @ [Info d]))"

text \<open>\<open>connects\<close> says whether \<open>resolve\<close> and \<open>connect\<close> succeed for the host; otherwise they throw.\<close>

definition main_tcp_client :: "string list \<Rightarrow> (string \<Rightarrow> bool) \<Rightarrow> (nat \<Rightarrow> read_result) \<Rightarrow> (client_line list \<times> exit) option" where
  "main_tcp_client argv connects reads =
     (if length argv \<noteq> 2 then Some ([Printed ''Usage: client <host>''], Returned 1)
      else if \<not> connects (argv ! 1) then Some ([], Terminated)
      else map_option (\<lambda>(out, n). (out, Returned n)) (tcp_client_loop reads 0 []))"

text \<open>
  The UDP client: \<open>resolved\<close>, \<open>opened\<close> and \<open>sent\<close> say whether these calls succeed; the answer is None if no datagram ever comes, an
  error, which is thrown, or the sender and the datagram, of which 128 bytes fit.
\<close>

definition main_udp_client ::
  "string list \<Rightarrow> (string \<Rightarrow> bool) \<Rightarrow> bool \<Rightarrow> bool \<Rightarrow> (string + (string \<times> nat) \<times> string) option \<Rightarrow> (client_line list \<times> exit) option" where
  "main_udp_client argv resolved opened sent answer =
     (if length argv \<noteq> 2 then Some ([Printed ''Usage: client <host>''], Returned 1)
      else if \<not> resolved (argv ! 1) \<or> \<not> opened \<or> \<not> sent then Some ([], Terminated)
      else map_option (\<lambda>r. case r of
          Inl message \<Rightarrow> ([], Terminated)
        | Inr ((address, port), datagram) \<Rightarrow>
            ([Info (''Received from '' @ address @ '':'' @ dec_nat port), Info (take 128 datagram)], Returned 0)) answer)"

section \<open>What the clients show\<close>

fun is_Data :: "read_result \<Rightarrow> bool" where
  "is_Data (Data d) \<longleftrightarrow> True"
| "is_Data r \<longleftrightarrow> False"

fun shown_line :: "read_result \<Rightarrow> client_line" where
  "shown_line (Data d) = Info d"
| "shown_line Eof = Info ''Connection closed cleanly by peer''"
| "shown_line (Failed message) = Error (''Error: '' @ message)"

lemma tcp_client_loop_ends:
  "list_all is_Data (map (\<lambda>k. reads (i + k)) [0..<n]) \<Longrightarrow> \<not> is_Data (reads (i + n)) \<Longrightarrow>
   tcp_client_loop reads i out =
     Some (out @ map (\<lambda>k. shown_line (reads (i + k))) [0..<Suc n], if reads (i + n) = Eof then 0 else 2)"
proof (induction n arbitrary: i out)
  case 0
  then show ?case by (subst tcp_client_loop.simps) (cases "reads i"; simp)
next
  case (Suc n)
  have u: "[0..<Suc n] = 0 # map Suc [0..<n]" for n by (simp add: upt_conv_Cons map_Suc_upt del: upt_Suc)
  obtain d where d: "reads i = Data d" using Suc.prems(1) unfolding u by (cases "reads i") simp_all
  have "list_all is_Data (map (\<lambda>k. reads (Suc i + k)) [0..<n])" using Suc.prems(1) unfolding u by (simp add: comp_def)
  then have "tcp_client_loop reads (Suc i) (out @ [Info d]) = Some ((out @ [Info d]) @ map (\<lambda>k. shown_line (reads (Suc i + k))) [0..<Suc n],
      if reads (i + Suc n) = Eof then 0 else 2)"
    using Suc.IH [of "Suc i" "out @ [Info d]"] Suc.prems(2) by simp
  then show ?case
    unfolding u [of "Suc n"] by (subst tcp_client_loop.simps) (simp add: d comp_def del: upt_Suc)
qed

lemma tcp_client_loop_Some: "tcp_client_loop reads i out = Some r \<Longrightarrow> \<exists>k. \<not> is_Data (reads k)"
proof (rule tcp_client_loop.raw_induct [where P = "\<lambda>reads i out r. \<exists>k. \<not> is_Data (reads k)"])
  fix loop and reads :: "nat \<Rightarrow> read_result" and i out and r :: "client_line list \<times> int"
  assume "\<And>reads i out r. loop reads i out = Some r \<Longrightarrow> \<exists>k. \<not> is_Data (reads k)"
    and "(case reads i of
        Data d \<Rightarrow> loop reads (Suc i) (out @ [Info d])
      | Eof \<Rightarrow> Some (out @ [Info ''Connection closed cleanly by peer''], 0)
      | Failed message \<Rightarrow> Some (out @ [Error (''Error: '' @ message)], 2)) = Some r"
  then show "\<exists>k. \<not> is_Data (reads k)" by (cases "reads i") (auto intro: exI [of _ i])
qed

lemma tcp_client_loop_None: "(\<And>k. is_Data (reads k)) \<Longrightarrow> tcp_client_loop reads i out = None"
  using tcp_client_loop_Some [of reads i out] by (cases "tcp_client_loop reads i out") blast+

text \<open>
  The client returns exactly when a read fails or finds the end of the stream. It has shown every chunk before that, and its exit code
  tells the two apart.
\<close>

theorem tcp_client_result:
  "main_tcp_client [prog, host] connects reads =
    (if \<not> connects host then Some ([], Terminated)
     else if \<exists>n. \<not> is_Data (reads n) then
       (let n = LEAST n. \<not> is_Data (reads n) in
        Some (map (\<lambda>k. shown_line (reads k)) [0..<Suc n], Returned (if reads n = Eof then 0 else 2)))
     else None)"
proof (cases "\<exists>n. \<not> is_Data (reads n)")
  case True
  let ?n = "LEAST n. \<not> is_Data (reads n)"
  have n: "\<not> is_Data (reads ?n)" using True by (rule LeastI_ex)
  have "list_all is_Data (map (\<lambda>k. reads (0 + k)) [0..<?n])" by (auto simp: list_all_iff dest: not_less_Least)
  then have "tcp_client_loop reads 0 [] = Some ([] @ map (\<lambda>k. shown_line (reads (0 + k))) [0..<Suc ?n], if reads (0 + ?n) = Eof then 0 else 2)"
    using n by (intro tcp_client_loop_ends) simp_all
  then show ?thesis using True by (auto simp: main_tcp_client_def Let_def)
next
  case False
  then show ?thesis by (simp add: main_tcp_client_def tcp_client_loop_None)
qed

lemma tcp_serve_nth:
  "j < length rs \<Longrightarrow> rs ! j = Client daytime k \<Longrightarrow> list_all (\<lambda>r. \<exists>d n. r = Client d n) (take j rs) \<Longrightarrow>
   j < length (fst (tcp_serve rs)) \<and> fst (tcp_serve rs) ! j = (''New connection'', take k daytime)"
  by (induction rs arbitrary: j rule: tcp_serve.induct) (auto simp: nth_Cons take_Cons split: nat.splits)

text \<open>
  What the blocking server writes to its \<open>j\<close>-th client, the client shows, in whatever chunks it arrives, and returns 0 when the
  server has closed the connection; only a failed accept before it keeps the client from being served.
\<close>

theorem daytime_is_shown:
  assumes "j < length rs" "rs ! j = Client daytime k" "list_all (\<lambda>r. \<exists>d n. r = Client d n) (take j rs)"
    and "concat chunks = snd (fst (tcp_serve rs) ! j)" "connects host"
  shows "\<exists>ls. main_tcp_client [prog, host] connects (\<lambda>i. if i < length chunks then Data (chunks ! i) else Eof) =
      Some (map Info ls @ [Info ''Connection closed cleanly by peer''], Returned 0) \<and> concat ls = take k daytime"
proof (intro exI [of _ chunks] conjI)
  let ?r = "\<lambda>i. if i < length chunks then Data (chunks ! i) else Eof"
  have "list_all is_Data (map (\<lambda>k. ?r (0 + k)) [0..<length chunks])" by (auto simp: list_all_iff)
  then have "tcp_client_loop ?r 0 [] = Some ([] @ map (\<lambda>k. shown_line (?r (0 + k))) [0..<Suc (length chunks)],
      if ?r (0 + length chunks) = Eof then 0 else 2)"
    by (rule tcp_client_loop_ends) simp
  also have "map (\<lambda>k. shown_line (?r (0 + k))) [0..<Suc (length chunks)] = map Info chunks @ [Info ''Connection closed cleanly by peer'']"
    by (rule nth_equalityI) (auto simp: nth_append less_Suc_eq simp del: upt_Suc)
  finally show "main_tcp_client [prog, host] connects ?r = Some (map Info chunks @ [Info ''Connection closed cleanly by peer''], Returned 0)"
    using assms(5) by (simp add: main_tcp_client_def)
  show "concat chunks = take k daytime" using tcp_serve_nth [OF assms(1-3)] assms(4) by simp
qed

theorem daytime_is_shown_witness:
  "\<exists>ls. main_tcp_client [''client'', ''localhost''] (\<lambda>h. True) (\<lambda>i. if i < length [''Mon May '', ''6''] then Data ([''Mon May '', ''6''] ! i) else Eof) =
      Some (map Info ls @ [Info ''Connection closed cleanly by peer''], Returned 0) \<and> concat ls = take 9 ''Mon May 6''"
  by (rule daytime_is_shown [where j = 1 and rs = "[Client ''Mon'' 3, Client ''Mon May 6'' 9]"]) simp_all

end
