(* ===== verification/Spec2Isabelle.thy ===== *)
theory Spec2Isabelle
  imports Rang_Win Printing Bench_St Bench_Main Cookbook Arrow_Acero Arrow_Streaming Async_Tasks Stdexec_Senders Oatpp_App Thrift_Calc Brpc_Http Asio_Timers Asio_Echo Asio_Daytime
begin

text \<open>
  A development about the C++ programs of this repository: small servers, loggers, printers and clients
  written to explore libraries (asio, Arrow, Arrow Flight, brpc, oatpp, stdexec, Thrift, rang). Each theory models one part of
  \<open>src/\<close> in the order the code has it, proves what makes the part correct, and states as theorems
  what the parts do together. This header says which theory models what, what the
  parameters of the models are, and what is left out.

  \<^bold>\<open>How the programs are modelled.\<close> A function of the code is a HOL function of the same name; state
  that the code changes is a record that the function takes and returns; an early return or an exception is a
  value of a sum type (the type \<open>action\<close> of theory \<open>Prelude\<close>: the world comes back also
  when the operation fails, so effects before the failure are kept), and undefined behaviour is an
  error of its own. Loops that may not end are \<open>partial_function (option)\<close>, so that not ending is the value
  \<open>None\<close> (\<open>Context_Pool.construct_loop\<close>, \<open>Recipes.find_test_data\<close>, \<open>Brpc_Echo.client_loop\<close>, \<open>Asio_Daytime.tcp_client_loop\<close>).
  Coroutines, event loops and request streams are step functions with inductive relations for what is reachable.
  Libraries that are not in the repository are parameters: records of operations (\<open>arrow_api\<close>,
  \<open>storage_api\<close>, \<open>client_api\<close>, \<open>dataset_api\<close>, \<open>compare_api\<close>, \<open>sums_api\<close>, \<open>files_api\<close>, \<open>register_api\<close>, \<open>stream_api\<close>,
  \<open>asio_api\<close>, \<open>server_api\<close>, \<open>http_api\<close>, \<open>thrift_api\<close>, \<open>sender_api\<close>, \<open>run_loop_api\<close>, \<open>win_api\<close>, \<open>os\<close>), with what the
  code relies on as named laws (\<open>arrow_laws\<close>, \<open>store_laws\<close>, \<open>table_laws\<close>, \<open>stream_laws\<close>, \<open>kernel_laws\<close>, ...), which state documented
  behaviour and are shown to be satisfiable by an instance on which the theorems are applied. The laws of calls that may fail speak of the calls that succeed, so
  that the theorems say what has been done by a run that ends with success; those about files say nothing of paths that may name the same file, nor of
  what a file format does not keep.

  \<^bold>\<open>Prelude.\<close> Fallible stateful operations (\<open>ret\<close>, \<open>raise\<close>, \<open>seq\<close>), triples about them (\<open>hoare\<close>), decimal
  output, searching and padding of text, facts on machine words. \<open>Interleaving\<close>: the locale \<open>ending_system\<close> of step relations with an
  invariant and a size that every step lowers (no run is endless, a run that is stuck is final), which every model of threads is shown to be,
  and traces of what several threads have written.

  \<^bold>\<open>rang\<close> (\<open>src/rang\<close>). \<open>Rang\<close>: enumerations, the cached terminal checks, the control modes and
  \<open>operator<<\<close>; in Force mode the written bytes decode to the values and texts put in, in Auto mode
  each stream gets all escape sequences or none. \<open>Rang_Win\<close>: the Windows branch with its SGR state, colour attributes and the
  flush before a native colour change.

  \<^bold>\<open>learn_asio\<close> (\<open>src/asio/learn_asio\<close>). \<open>Logging\<close>: levels, colours, the thread-local time stamp with its
  cache and digit-by-digit update, the line format, the macros of \<open>debug.hpp\<close> and their test program. \<open>Printing\<close>: the generic printer \<open>print_to\<close>,
  \<open>P\<close> and \<open>name_of\<close>; printed values read back, with a reader whose fuel (\<open>fuel v\<close>) is shown to be
  enough for the value printed.

  \<^bold>\<open>The benchmark servers\<close> (\<open>src/asio/benchmark\<close>). \<open>Context_Pool\<close> is the pool of event loops, with a
  locale for a source of members in turn; \<open>Rlimit\<close> the limit on open files, in 64-bit words; \<open>Tasks\<close> the coroutine type \<open>Task\<close>,
  as a machine of frames for arbitrary bodies (creation, symmetric transfer, final suspension, destruction, \<open>spawn\<close>)
  with the safety of every run and the absence of leaks, stated for any client of the locale \<open>task_client\<close>. \<open>Bench_Server\<close> interprets that locale
  with the coroutines of \<open>benchmark_mt.cpp\<close>: safety of every interleaving of callbacks, the placement of connections,
  what one callback does to one connection (\<open>callback\<close> runs at most 10 steps, more than any of these takes, as the
  theorems about it show by having results). \<open>Bench_Main\<close> is \<open>main\<close>, from its argument to the server. \<open>Bench_St\<close> is the single-threaded server, its own
  properties, and its agreement with the multi-threaded one.

  \<^bold>\<open>The asio test programs\<close> (\<open>src/asio/tests\<close>). \<open>Asio_Timers\<close>: the timer programs, the last of them with two threads, access by access.
  \<open>Asio_Daytime\<close>: the daytime servers and clients, with the shares that keep a connection alive. \<open>Asio_Echo\<close>: the coroutine echo server, which
  is the single-threaded benchmark server but for the data it sends (\<open>forget\<close>).

  \<^bold>\<open>The Arrow cookbook\<close> (\<open>src/arrow/cookbook\<close>). \<open>Recipes\<close> records recipe output in builders, merges it with an existing file
  and dumps it (\<open>common.cc\<close>, \<open>main.cc\<close>). \<open>Recipe_Runs\<close> are the runs of recipes, with a stage predicate that says what has been recorded so far.
  \<open>Flight\<close> is the service \<open>ParquetStorageService\<close>, one function per handler; \<open>Flight_Store\<close> its contract, an abstract store of
  tables by path, and the refinement of the store by the handlers; \<open>Flight_Client\<close> the test that drives the service, composed of its eight recipes over
  \<open>Recipe_Runs\<close> and \<open>Flight_Store\<close>. \<open>Dataset_Recipes\<close> are the recipes of \<open>datasets.cc\<close> over \<open>Recipes\<close>. \<open>Cookbook\<close> puts the two programs together, from \<open>main\<close>
  to the service; the theorems below say what a run of them has done that exits with 0.

  \<^bold>\<open>Arrow examples\<close> (\<open>src/arrow/examples\<close>, \<open>src/arrow/*.cpp\<close>). \<open>Dataset_Example\<close>: writing a table as a dataset in three formats and
  reading it in six ways; without a filter the program prints the rows it wrote. \<open>Arrow_Compute\<close>: comparing two columns by hand and by a compute function, and
  sums of a table. \<open>Arrow_Files\<close>: reading, copying and converting files, and a dataset of two Parquet files. \<open>Arrow_Acero\<close>: registering a function and
  a plan node that ignores its input. \<open>Arrow_Streaming\<close>: a program that makes a dataset and queries it with a plan.
  \<open>Async_Tasks\<close> (\<open>src/arrow/async_task\<close>): futures, thread pools, task groups and schedulers, as lists of operations for a machine
  that interleaves the main thread with the threads of a pool. The machine stands for Arrow's pools as documented; the programs are the lists.

  \<^bold>\<open>brpc\<close> (\<open>src/brpc\<close>). \<open>Brpc_Echo\<close>: the echo services, plain and with coroutines, and the client, with a locale for a service that answers each call once;
  \<open>Brpc_Http\<close>: the HTTP echo service and client.

  \<^bold>\<open>Other frameworks.\<close> \<open>Thrift_Calc\<close> (\<open>src/thrift\<close>): the service, with the range in which its sum is defined, and the client over the locale \<open>calculator\<close>.
  \<open>Oatpp_App\<close> (\<open>src/oatpp\<close>): the four servers, with routers shared by place and components found by type; how a request matches a route is a parameter. \<open>Stdexec_Senders\<close> (\<open>src/stdexec\<close>): the chains of
  senders, and the run loop, a parameter with laws, that a stop request finishes.

  \<^bold>\<open>Groups of lemmas.\<close> In each theory: invariants of the state and their preservation (\<open>server_good\<close>, \<open>client_inv\<close>, \<open>st_inv\<close>, \<open>pool_inv\<close>, \<open>co_inv\<close>,
  \<open>recorded\<close>, \<open>stage\<close>), results of the operations on each branch, the interface as a locale with its interpretation, and the properties, each with a witness
  that applies it to concrete data.

  \<^bold>\<open>Not modelled.\<close> What is left of the C++ files are include lines, deleted copy operations, declarations without a body, code in comments (most of the tests of
  \<open>flight.cc\<close>) and start and end calls of frameworks (\<open>Environment::init\<close>). \<open>arrow/async_task/05_taskscheduler.cpp\<close> only registers functions with
  Arrow's task scheduler, and what the nodes of the plan in \<open>streaming_engine.cpp\<close> compute is Arrow's: neither is described. Bodies of the machine in \<open>Tasks\<close> await
  temporary tasks, spawn, wait, return or throw, as those of the servers do; \<open>Task::resume\<close> and assignment are modelled on their own. \<open>src/thrift/client.py\<close> is not C++, and the code that protobuf and Thrift generate is not in
  the repository. Callbacks of one event loop are atomic; where threads share data without a lock, accesses (\<open>Asio_Timers\<close>) or insertions
  (\<open>Async_Tasks\<close>) interleave, and weaker orders of memory are outside the model. The text of floating point numbers, clocks, time zones and the operating system
  are parameters.
\<close>

section \<open>The cookbook programs\<close>



text \<open>
  C12: if the datasets program exits with 0, it has listed the first ten files of the dataset, with dots after the tenth, and dumped its three
  recipes into \<open>TEST_DatasetRead.txt\<close>; \<open>main\<close> finds nothing left to write.
\<close>

theorem datasets_program_exits_without_output:
  assumes "arrow_laws A bs as" "file_laws A as" "lists_map order"
    and "\<forall>fs infos. list_tree D (partitioned_dir D) fs = Inr infos \<longrightarrow>
      (\<forall>p\<in>set (listed infos). length (partitioned_dir D) \<le> length p)"
    and "datasets_program A ts order D macro_text exists cwd fs = Some (Some 0, w')"
    and "SetUp D ts macro_text exists cwd (recipes_init A fs) = Some w"
    and "file_rows A as ''TEST_DatasetRead.txt'' (files w) old"
  shows "\<exists>outs merged. length outs = 3 \<and> listing_of D (partitioned_dir D) (files w) (outs ! 0) \<and>
    file_rows A as ''TEST_DatasetRead.txt'' (files w') merged \<and> distinct (map fst merged) \<and>
    map_of merged = map_of (rev old) ++ map_of (rev (zip read_recipes outs)) \<and>
    TestDatasetRead A ts order D macro_text exists cwd (recipes_init A fs) = Some w'"
  using assms by (rule datasets_exit_zero)

theorem datasets_program_exits_without_output_witness:
  "\<exists>w' outs merged. datasets_program sample_arrow id sorted_pairs sample_dataset_calls ''_st'' sample_exists sample_cwd (\<lambda>p. None) =
      Some (Some 0, w') \<and> length outs = 3 \<and> file_rows sample_arrow (\<lambda>a. a) ''TEST_DatasetRead.txt'' (files w') merged \<and>
    map_of merged = map_of (rev (zip read_recipes outs))"
proof -
  obtain w' where w': "datasets_program sample_arrow id sorted_pairs sample_dataset_calls ''_st'' sample_exists sample_cwd (\<lambda>p. None) = Some (Some 0, w')"
    by (rule sample_datasets_exit)
  have old: "file_rows sample_arrow (\<lambda>a. a) ''TEST_DatasetRead.txt'' (files (recipes_init sample_arrow (\<lambda>p. None))) []"
    by (simp add: file_rows_def sample_arrow_def recipes_init_files)
  from datasets_program_exits_without_output [OF sample_arrow_laws sample_file_laws sorted_pairs_lists_map sample_paths w'
      sample_setup old]
  show ?thesis using w' by auto
qed

end
